(* ===== verification/Prelude.thy ===== *)
theory Prelude
  imports Main "HOL-Library.Word"
begin

text \<open>
  Shared vocabulary of the development: the machine integers of the Rust sources, byte
  sequences, results, big-endian conversion (the standard library's \<open>to_be_bytes\<close> and
  \<open>from_be_bytes\<close>), decimal and hexadecimal rendering as \<open>format!\<close> does it, the generic
  list lemmas the components use, and the interfaces (locales) that do not belong to a single
  component: self-delimiting encodings and transition systems with an invariant.
\<close>

unbundle bit_operations_syntax

named_theorems wire_simps \<open>evaluation of the wire-format operations\<close>
named_theorems frame_simps \<open>evaluation of the framing operations\<close>

section \<open>Machine integers, bytes and results\<close>

type_synonym u8 = "8 word"
type_synonym u16 = "16 word"
type_synonym u32 = "32 word"
type_synonym u64 = "64 word"
type_synonym usize = "64 word"
type_synonym bytes = "u8 list"
type_synonym rstr = string

text \<open>A \<open>Result<T, E>\<close> is \<open>E + T\<close>; \<open>Err\<close> is \<open>Inl\<close> and \<open>Ok\<close> is \<open>Inr\<close>.\<close>

type_synonym ('a, 'e) result = "'e + 'a"

abbreviation Ok :: "'a \<Rightarrow> ('a, 'e) result" where "Ok \<equiv> Inr"
abbreviation Err :: "'e \<Rightarrow> ('a, 'e) result" where "Err \<equiv> Inl"

abbreviation is_ok :: "('a, 'e) result \<Rightarrow> bool" where "is_ok r \<equiv> \<not> isl r"

text \<open>The \<open>?\<close> operator: an error ends the function, a value goes on.\<close>

definition and_then :: "('a, 'e) result \<Rightarrow> ('a \<Rightarrow> ('b, 'e) result) \<Rightarrow> ('b, 'e) result" where
  "and_then r f = (case r of Inl e \<Rightarrow> Inl e | Inr x \<Rightarrow> f x)"

lemma and_then_simps [simp]: "and_then (Inl e) f = Inl e" "and_then (Inr x) f = f x"
  by (simp_all add: and_then_def)

lemma and_then_eq_Inr [simp]: "and_then r f = Inr y \<longleftrightarrow> (\<exists>x. r = Inr x \<and> f x = Inr y)"
  by (cases r) auto

section \<open>Big-endian conversion\<close>

definition u16_to_be_bytes :: "u16 \<Rightarrow> bytes" where
  "u16_to_be_bytes w = [ucast (drop_bit 8 w), ucast w]"

definition u32_to_be_bytes :: "u32 \<Rightarrow> bytes" where
  "u32_to_be_bytes w =
     [ucast (drop_bit 24 w), ucast (drop_bit 16 w), ucast (drop_bit 8 w), ucast w]"

definition u16_from_be_bytes :: "u8 \<Rightarrow> u8 \<Rightarrow> u16" where
  "u16_from_be_bytes a b = push_bit 8 (ucast a) OR ucast b"

definition u32_from_be_bytes :: "u8 \<Rightarrow> u8 \<Rightarrow> u8 \<Rightarrow> u8 \<Rightarrow> u32" where
  "u32_from_be_bytes a b c d =
     push_bit 24 (ucast a) OR push_bit 16 (ucast b) OR push_bit 8 (ucast c) OR ucast d"

lemma length_to_be_bytes [simp]:
  "length (u16_to_be_bytes v) = 2" "length (u32_to_be_bytes w) = 4"
  by (simp_all add: u16_to_be_bytes_def u32_to_be_bytes_def)

lemma bit_u8_less: "bit (w :: u8) n \<Longrightarrow> n < 8"
  using bit_imp_le_length [of w n] by simp

lemma u16_from_to_be_bytes:
  "u16_from_be_bytes (ucast (drop_bit 8 w)) (ucast w) = w"
  by (auto simp: u16_from_be_bytes_def bit_eq_iff bit_simps not_less)

lemma u32_from_to_be_bytes:
  "u32_from_be_bytes (ucast (drop_bit 24 w)) (ucast (drop_bit 16 w))
     (ucast (drop_bit 8 w)) (ucast w) = w"
proof (rule bit_eqI)
  fix n
  show "bit (u32_from_be_bytes (ucast (drop_bit 24 w)) (ucast (drop_bit 16 w))
      (ucast (drop_bit 8 w)) (ucast w)) n = bit w n"
    by (cases "8 \<le> n"; cases "16 \<le> n"; cases "24 \<le> n")
      (auto simp: u32_from_be_bytes_def bit_simps dest: bit_imp_le_length)
qed

lemma u16_to_from_be_bytes: "u16_to_be_bytes (u16_from_be_bytes a b) = [a, b]"
  by (auto simp: u16_to_be_bytes_def u16_from_be_bytes_def bit_eq_iff bit_simps
      dest: bit_u8_less)

lemma u32_to_from_be_bytes: "u32_to_be_bytes (u32_from_be_bytes a b c d) = [a, b, c, d]"
  by (auto simp: u32_to_be_bytes_def u32_from_be_bytes_def bit_eq_iff bit_simps
      dest: bit_u8_less)

lemma unat_inc: "(x :: 'a::len word) < y \<Longrightarrow> unat (x + 1) = Suc (unat x)"
proof -
  assume "x < y"
  then have "Suc (unat x) \<le> unat y" by (simp add: word_less_nat_alt Suc_le_eq)
  also have "unat y < 2 ^ LENGTH('a)" by (rule unsigned_less)
  finally have "Suc (unat x) < 2 ^ LENGTH('a)" .
  then show ?thesis by (simp add: unat_word_ariths)
qed

lemma unat_inc_bound: "Suc (unat x) < 2 ^ 64 \<Longrightarrow> unat ((x :: 64 word) + 1) = Suc (unat x)"
  by (simp add: unat_word_ariths)

lemma unat_dec: "(x :: 'a::len word) \<noteq> 0 \<Longrightarrow> unat (x - 1) = unat x - 1"
  by (rule unat_minus_one)

text \<open>Counting over the program points of \<open>n\<close> tasks when one of them moves.\<close>

lemma sum_change:
  fixes h h' :: "nat \<Rightarrow> nat"
  assumes "i < n" and "\<And>j. j < n \<Longrightarrow> j \<noteq> i \<Longrightarrow> h' j = h j"
  shows "(\<Sum>j<n. h' j) + h i = (\<Sum>j<n. h j) + h' i"
proof -
  have "(\<Sum>j<n. h' j) = h' i + (\<Sum>j\<in>{..<n} - {i}. h' j)" using assms(1) by (intro sum.remove) auto
  moreover have "(\<Sum>j\<in>{..<n} - {i}. h' j) = (\<Sum>j\<in>{..<n} - {i}. h j)" using assms(2) by (intro sum.cong) auto
  moreover have "(\<Sum>j<n. h j) = h i + (\<Sum>j\<in>{..<n} - {i}. h j)" using assms(1) by (intro sum.remove) auto
  ultimately show ?thesis by simp
qed

lemma sum_fun_upd:
  fixes g :: "'b \<Rightarrow> nat" and n :: nat
  assumes "i < n"
  shows "(\<Sum>j<n. g ((l(i := x)) j)) + g (l i) = (\<Sum>j<n. g (l j)) + g x"
  using sum_change [OF assms, of "\<lambda>j. g ((l(i := x)) j)" "\<lambda>j. g (l j)"] by simp

lemma preimage_list:
  "\<forall>x \<in> set xs. \<exists>y. x = g y \<and> P y \<Longrightarrow> \<exists>ys. map g ys = xs \<and> list_all P ys"
proof (induction xs)
  case (Cons x xs)
  then obtain y ys where "x = g y \<and> P y" "map g ys = xs \<and> list_all P ys" by auto
  then show ?case by (intro exI [of _ "y # ys"]) simp
qed simp

text \<open>A \<open>HashMap\<close> is iterated in some order, every entry once.\<close>

definition lists_map :: "('k \<times> 'v) list \<Rightarrow> ('k \<rightharpoonup> 'v) \<Rightarrow> bool" where
  "lists_map xs m \<longleftrightarrow> distinct (map fst xs) \<and> map_of xs = m"

lemma lists_map_Nil [simp]: "lists_map [] m \<longleftrightarrow> m = Map.empty"
  by (auto simp: lists_map_def)

section \<open>Numbers as \<open>format!\<close> renders them\<close>

definition digit_char :: "nat \<Rightarrow> char" where
  "digit_char d = char_of (if d < 10 then 48 + d else 87 + d)"

function show_base :: "nat \<Rightarrow> nat \<Rightarrow> rstr" where
  "show_base b n =
     (if b \<le> 1 \<or> n < b then [digit_char n] else show_base b (n div b) @ [digit_char (n mod b)])"
  by pat_completeness auto
termination
  by (relation "measure snd") (auto intro: div_less_dividend)

declare show_base.simps [simp del]

definition show_dec :: "nat \<Rightarrow> rstr" where
  "show_dec n = show_base 10 n"

definition show_hex :: "nat \<Rightarrow> rstr" where
  "show_hex n = show_base 16 n"

lemma digit_char_inj: "c < 16 \<Longrightarrow> d < 16 \<Longrightarrow> digit_char c = digit_char d \<Longrightarrow> c = d"
  by (auto simp: digit_char_def char_of_eq_iff take_bit_eq_mod split: if_splits)

lemma show_base_not_Nil [simp]: "show_base b n \<noteq> []"
  by (subst show_base.simps) simp

lemmas Nil_not_show_base [simp] = show_base_not_Nil [symmetric]

lemma show_base_inj:
  assumes "1 < b" "b \<le> 16"
  shows "show_base b m = show_base b n \<Longrightarrow> m = n"
proof (induction m arbitrary: n rule: less_induct)
  case (less m)
  have eq: "show_base b m = (if m < b then [digit_char m]
      else show_base b (m div b) @ [digit_char (m mod b)])" for m
    using assms(1) by (subst show_base.simps) simp
  have mod_lt: "k mod b < 16" for k
    using assms by (simp add: order.strict_trans2 [of _ b])
  show ?case
  proof (cases "m < b \<or> n < b")
    case True
    with less.prems assms(2) show ?thesis
      by (auto simp: eq [of m] eq [of n] split: if_splits intro: digit_char_inj)
  next
    case False
    with less.prems have *: "show_base b (m div b) = show_base b (n div b)"
      "digit_char (m mod b) = digit_char (n mod b)"
      by (simp_all add: eq [of m] eq [of n])
    from False assms(1) have "m div b < m" by simp
    with *(1) have "m div b = n div b" by (rule less.IH [rotated])
    moreover from mod_lt mod_lt *(2) have "m mod b = n mod b" by (rule digit_char_inj)
    ultimately show ?thesis by (metis div_mult_mod_eq)
  qed
qed

lemma show_dec_inj: "show_dec m = show_dec n \<Longrightarrow> m = n"
  by (rule show_base_inj [of 10]) (simp_all add: show_dec_def)

lemma show_hex_inj: "show_hex m = show_hex n \<Longrightarrow> m = n"
  by (rule show_base_inj [of 16]) (simp_all add: show_hex_def)

text \<open>\<open>str::contains\<close> of the standard library.\<close>

fun contains :: "rstr \<Rightarrow> rstr \<Rightarrow> bool" where
  "contains [] p = (p = [])"
| "contains (c # s) p = (take (length p) (c # s) = p \<or> contains s p)"

lemma contains_append: "contains s p \<Longrightarrow> contains (r @ s) p"
  by (induction r) auto

section \<open>Interfaces\<close>

text \<open>
  A self-delimiting encoding: decoding a buffer that starts with an encoding returns the value
  and what follows it. Any two streams of encodings that are the same bytes then encode the same
  values, which is what a reader of a byte stream relies on.
\<close>

locale prefix_codec =
  fixes enc :: "'a \<Rightarrow> bytes" and dec :: "bytes \<Rightarrow> ('a \<times> bytes) option"
    and wf :: "'a \<Rightarrow> bool"
  assumes dec_enc: "wf x \<Longrightarrow> dec (enc x @ rest) = Some (x, rest)"
    and dec_Nil: "dec [] = None"
begin

lemma enc_not_Nil: "wf x \<Longrightarrow> enc x \<noteq> []"
  using dec_enc [of x "[]"] dec_Nil by auto

lemma enc_append_cancel:
  "wf x \<Longrightarrow> wf y \<Longrightarrow> enc x @ r = enc y @ s \<Longrightarrow> x = y \<and> r = s"
  by (metis dec_enc option.inject prod.inject)

lemma stream_unique:
  "list_all wf xs \<Longrightarrow> list_all wf ys \<Longrightarrow>
   concat (map enc xs) = concat (map enc ys) \<Longrightarrow> xs = ys"
proof (induction xs arbitrary: ys)
  case Nil
  then show ?case by (cases ys) (auto dest: enc_not_Nil)
next
  case (Cons x xs)
  from Cons.prems have "ys \<noteq> []" by (auto dest: enc_not_Nil)
  then obtain y ys' where ys: "ys = y # ys'" by (cases ys) auto
  from Cons.prems ys have "x = y \<and> concat (map enc xs) = concat (map enc ys')"
    by (intro enc_append_cancel) simp_all
  with Cons.prems ys Cons.IH [of ys'] show ?case by simp
qed

end

text \<open>
  A framer turns the chunks of a byte stream into values. Its client feeds it whatever a read
  returns, until a call fails: what the calls before it returned stays returned. The law is that
  splitting a chunk changes nothing while no call fails, and the client's lemmas are that no
  fragmentation of a stream without an error does, and that an error is found in every
  fragmentation. \<open>idle\<close> is the state between two calls that succeeded.
\<close>

fun feed :: "('b \<Rightarrow> bytes \<Rightarrow> ('f list, 'e) result \<times> 'b) \<Rightarrow> 'b \<Rightarrow> bytes list \<Rightarrow>
    'f list \<times> 'e option \<times> 'b" where
  "feed psh b [] = ([], None, b)"
| "feed psh b (c # cs) = (case psh b c of
      (Inl e, b') \<Rightarrow> ([], Some e, b')
    | (Inr fs, b') \<Rightarrow> (case feed psh b' cs of (gs, e, b'') \<Rightarrow> (fs @ gs, e, b'')))"

locale framer =
  fixes psh :: "'b \<Rightarrow> bytes \<Rightarrow> ('f list, 'e) result \<times> 'b" and idle :: "'b \<Rightarrow> bool"
  assumes push_Nil: "idle b \<Longrightarrow> psh b [] = (Ok [], b)"
    and push_idle: "idle b \<Longrightarrow> psh b c = (Ok fs, b') \<Longrightarrow> idle b'"
    and push_split: "idle b \<Longrightarrow> psh b c = (Ok fs, b') \<Longrightarrow>
      psh b (c @ d) = map_prod (map_sum id ((@) fs)) id (psh b' d)"
    and push_error: "idle b \<Longrightarrow> psh b c = (Err e, b') \<Longrightarrow> fst (psh b (c @ d)) = Err e"
begin

lemma feed_error:
  "idle b \<Longrightarrow> fst (snd (feed psh b cs)) = Some e \<longleftrightarrow> fst (psh b (concat cs)) = Err e"
proof (induction cs arbitrary: b)
  case (Cons c cs)
  obtain r b' where p: "psh b c = (r, b')" by (cases "psh b c")
  show ?case
  proof (cases r)
    case (Inl x)
    with p Cons.prems show ?thesis by (simp add: push_error)
  next
    case (Inr fs)
    with p Cons.prems have "idle b'" by (auto intro: push_idle)
    then have "fst (snd (feed psh b' cs)) = Some e \<longleftrightarrow> fst (psh b' (concat cs)) = Err e" by (rule Cons.IH)
    with p Inr Cons.prems show ?thesis
      by (auto simp: push_split [of b c fs b'] map_sum_def split: prod.splits sum.splits)
  qed
qed (simp add: push_Nil)

lemma feed_Ok:
  "idle b \<Longrightarrow> psh b (concat cs) = (Ok fs, b') \<Longrightarrow> feed psh b cs = (fs, None, b')"
proof (induction cs arbitrary: b fs)
  case (Cons c cs)
  obtain r b1 where p: "psh b c = (r, b1)" by (cases "psh b c")
  show ?case
  proof (cases r)
    case (Inl e)
    with p Cons.prems push_error [of b c e b1 "concat cs"] show ?thesis by simp
  next
    case (Inr xs)
    with p Cons.prems have idle: "idle b1" by (auto intro: push_idle)
    obtain ys where "psh b1 (concat cs) = (Ok ys, b')" "fs = xs @ ys"
      using p Inr Cons.prems push_split [of b c xs b1 "concat cs"]
      by (cases "psh b1 (concat cs)") (auto simp: map_sum_def split: sum.splits)
    with p Inr Cons.IH [OF idle] show ?thesis by simp
  qed
qed (simp add: push_Nil)

end

text \<open>A transition system with an invariant: the invariant holds in every reachable state.\<close>

locale invariant_system =
  fixes init :: "'s \<Rightarrow> bool" and step :: "'s \<Rightarrow> 's \<Rightarrow> bool" and inv :: "'s \<Rightarrow> bool"
  assumes inv_init: "init s \<Longrightarrow> inv s"
    and inv_step: "inv s \<Longrightarrow> step s t \<Longrightarrow> inv t"
begin

lemma inv_steps: "step\<^sup>*\<^sup>* s t \<Longrightarrow> inv s \<Longrightarrow> inv t"
  by (induction rule: rtranclp_induct) (auto intro: inv_step)

lemma inv_reachable: "init s \<Longrightarrow> step\<^sup>*\<^sup>* s t \<Longrightarrow> inv t"
  by (blast intro: inv_init inv_steps)

end

end
