(* ===== verification/Errors.thy ===== *)
theory Errors
  imports Prelude
begin

text \<open>
  The error type of the crate (\<open>src/error.rs\<close>) with the messages its \<open>Display\<close>
  implementation renders. An error of an external crate (serde\_json, rmp-serde) is carried by
  the text it renders as, since the crate only forwards and prints it; an I/O error also has its
  kind. A \<open>fault\<close> is how a call can end without a value: it panics, or it returns an error.
\<close>

datatype ErrorKind = WriteZero | OtherIo

record io_error =
  io_kind :: ErrorKind
  io_message :: rstr

definition io_error_new :: "ErrorKind \<Rightarrow> rstr \<Rightarrow> io_error" where
  "io_error_new k m = \<lparr>io_kind = k, io_message = m\<rparr>"

datatype ProcwireError =
    Io io_error
  | Json rstr
  | MsgPackEncode rstr
  | MsgPackDecode rstr
  | Protocol rstr
  | HandlerNotFound u16
  | ResponseAlreadySent
  | ConnectionClosed
  | BackpressureTimeout

fun ProcwireError_to_string :: "ProcwireError \<Rightarrow> rstr" where
  "ProcwireError_to_string (Io e) = ''I/O error: '' @ io_message e"
| "ProcwireError_to_string (Json e) = ''JSON error: '' @ e"
| "ProcwireError_to_string (MsgPackEncode e) = ''MsgPack encode error: '' @ e"
| "ProcwireError_to_string (MsgPackDecode e) = ''MsgPack decode error: '' @ e"
| "ProcwireError_to_string (Protocol e) = ''Protocol error: '' @ e"
| "ProcwireError_to_string (HandlerNotFound i) =
     ''Handler not found for method ID: '' @ show_dec (unat i)"
| "ProcwireError_to_string ResponseAlreadySent = ''Response already sent for this request''"
| "ProcwireError_to_string ConnectionClosed = ''Connection closed''"
| "ProcwireError_to_string BackpressureTimeout = ''Backpressure timeout''"

datatype fault = Panic rstr | Fail ProcwireError

end
