(* ===== verification/Wire_Format.thy ===== *)
theory Wire_Format
  imports Errors
begin

text \<open>
  The 11-byte frame header (\<open>src/protocol/wire_format.rs\<close>): its constants and flag bits, the
  \<open>Header\<close> struct, encoding into a buffer (with the slice panics of the source), decoding, the
  receive-side validation, and the accessors. The header is shown to be a self-delimiting
  encoding (interpretation \<open>hdr\<close> of \<open>prefix_codec\<close>), to be total on 11 bytes, and the flag
  combinations to be the bit patterns the protocol documents.
\<close>

section \<open>Constants\<close>

definition HEADER_SIZE :: nat where
  [wire_simps]: "HEADER_SIZE = 11"
definition DEFAULT_MAX_PAYLOAD_SIZE :: u32 where
  "DEFAULT_MAX_PAYLOAD_SIZE = 1073741824"
definition ABSOLUTE_MAX_PAYLOAD_SIZE :: u32 where
  "ABSOLUTE_MAX_PAYLOAD_SIZE = 2147483647"
definition ABORT_METHOD_ID :: u16 where
  "ABORT_METHOD_ID = 0xFFFF"
definition AUTH_METHOD_ID :: u16 where
  "AUTH_METHOD_ID = 0xFFFE"
definition RESERVED_METHOD_ID :: u16 where
  "RESERVED_METHOD_ID = 0"
definition HEADER_POOL_SIZE :: nat where
  "HEADER_POOL_SIZE = 16"

section \<open>Flags\<close>

definition DIRECTION_TO_PARENT :: u8 where
  "DIRECTION_TO_PARENT = 0b00000001"
definition IS_RESPONSE :: u8 where
  "IS_RESPONSE = 0b00000010"
definition IS_ERROR :: u8 where
  "IS_ERROR = 0b00000100"
definition IS_STREAM :: u8 where
  "IS_STREAM = 0b00001000"
definition STREAM_END :: u8 where
  "STREAM_END = 0b00010000"
definition IS_ACK :: u8 where
  "IS_ACK = 0b00100000"
definition RESERVED_MASK :: u8 where
  "RESERVED_MASK = 0b11000000"

definition has_flag :: "u8 \<Rightarrow> u8 \<Rightarrow> bool" where
  "has_flag fs flag \<longleftrightarrow> fs AND flag \<noteq> 0"

definition RESPONSE :: u8 where
  "RESPONSE = DIRECTION_TO_PARENT OR IS_RESPONSE"
definition ERROR_RESPONSE :: u8 where
  "ERROR_RESPONSE = DIRECTION_TO_PARENT OR IS_RESPONSE OR IS_ERROR"
definition STREAM_ERROR_RESPONSE :: u8 where
  "STREAM_ERROR_RESPONSE = DIRECTION_TO_PARENT OR IS_RESPONSE OR IS_ERROR OR IS_STREAM"
definition STREAM_CHUNK :: u8 where
  "STREAM_CHUNK = DIRECTION_TO_PARENT OR IS_RESPONSE OR IS_STREAM"
definition STREAM_END_RESPONSE :: u8 where
  "STREAM_END_RESPONSE = DIRECTION_TO_PARENT OR IS_RESPONSE OR IS_STREAM OR STREAM_END"
definition ACK_RESPONSE :: u8 where
  "ACK_RESPONSE = DIRECTION_TO_PARENT OR IS_RESPONSE OR IS_ACK"

lemmas flag_bits = DIRECTION_TO_PARENT_def IS_RESPONSE_def IS_ERROR_def IS_STREAM_def
  STREAM_END_def IS_ACK_def RESERVED_MASK_def
lemmas flag_combinations = RESPONSE_def ERROR_RESPONSE_def STREAM_ERROR_RESPONSE_def
  STREAM_CHUNK_def STREAM_END_RESPONSE_def ACK_RESPONSE_def

section \<open>The header\<close>

record Header =
  method_id :: u16
  flags :: u8
  request_id :: u32
  payload_length :: u32

definition Header_new :: "u16 \<Rightarrow> u8 \<Rightarrow> u32 \<Rightarrow> u32 \<Rightarrow> Header" where
  [wire_simps]: "Header_new m f r n =
     \<lparr>method_id = m, flags = f, request_id = r, payload_length = n\<rparr>"

text \<open>\<open>buf[i..j].copy_from_slice(src)\<close>: a range past the end panics.\<close>

definition copy_into :: "nat \<Rightarrow> bytes \<Rightarrow> bytes \<Rightarrow> (bytes, fault) result" where
  "copy_into i src buf =
     (if i + length src \<le> length buf
      then Ok (take i buf @ src @ drop (i + length src) buf)
      else Err (Panic ''range end index out of range''))"

definition Header_encode_into :: "Header \<Rightarrow> bytes \<Rightarrow> (bytes, fault) result" where
  "Header_encode_into h buf =
     and_then (copy_into 0 (u16_to_be_bytes (method_id h)) buf) (\<lambda>buf.
     and_then (copy_into 2 [flags h] buf) (\<lambda>buf.
     and_then (copy_into 3 (u32_to_be_bytes (request_id h)) buf) (\<lambda>buf.
     copy_into 7 (u32_to_be_bytes (payload_length h)) buf)))"

text \<open>The zeroed 11-byte array never panics (\<open>Header_encode_into_eq\<close> below), so no error is
  left for the caller.\<close>

definition Header_encode :: "Header \<Rightarrow> bytes" where
  "Header_encode h =
     (case Header_encode_into h (replicate HEADER_SIZE 0) of Inr buf \<Rightarrow> buf | Inl _ \<Rightarrow> [])"

definition Header_decode :: "bytes \<Rightarrow> Header option" where
  "Header_decode buf =
     (if length buf < HEADER_SIZE then None
      else Some \<lparr>method_id = u16_from_be_bytes (buf ! 0) (buf ! 1),
                 flags = buf ! 2,
                 request_id = u32_from_be_bytes (buf ! 3) (buf ! 4) (buf ! 5) (buf ! 6),
                 payload_length = u32_from_be_bytes (buf ! 7) (buf ! 8) (buf ! 9) (buf ! 10)\<rparr>)"

definition Header_validate :: "Header \<Rightarrow> u32 \<Rightarrow> (unit, ProcwireError) result" where
  "Header_validate h max_payload_size =
     (if method_id h = RESERVED_METHOD_ID then Err (Protocol ''Method ID 0 is reserved'')
      else if payload_length h > max_payload_size then
        Err (Protocol (''Payload size '' @ show_dec (unat (payload_length h))
          @ '' exceeds maximum '' @ show_dec (unat max_payload_size)))
      else if payload_length h > ABSOLUTE_MAX_PAYLOAD_SIZE then
        Err (Protocol (''Payload size '' @ show_dec (unat (payload_length h))
          @ '' exceeds absolute maximum '' @ show_dec (unat ABSOLUTE_MAX_PAYLOAD_SIZE)))
      else if flags h AND RESERVED_MASK \<noteq> 0 then Err (Protocol ''Reserved flag bits must be 0'')
      else Ok ())"

definition Header_is_abort :: "Header \<Rightarrow> bool" where
  "Header_is_abort h \<longleftrightarrow> method_id h = ABORT_METHOD_ID"
definition Header_is_auth :: "Header \<Rightarrow> bool" where
  "Header_is_auth h \<longleftrightarrow> method_id h = AUTH_METHOD_ID"
definition Header_is_response :: "Header \<Rightarrow> bool" where
  "Header_is_response h \<longleftrightarrow> has_flag (flags h) IS_RESPONSE"
definition Header_is_error :: "Header \<Rightarrow> bool" where
  "Header_is_error h \<longleftrightarrow> has_flag (flags h) IS_ERROR"
definition Header_is_stream :: "Header \<Rightarrow> bool" where
  "Header_is_stream h \<longleftrightarrow> has_flag (flags h) IS_STREAM"
definition Header_is_stream_end :: "Header \<Rightarrow> bool" where
  "Header_is_stream_end h \<longleftrightarrow> has_flag (flags h) STREAM_END"
definition Header_is_ack :: "Header \<Rightarrow> bool" where
  "Header_is_ack h \<longleftrightarrow> has_flag (flags h) IS_ACK"
definition Header_is_to_parent :: "Header \<Rightarrow> bool" where
  "Header_is_to_parent h \<longleftrightarrow> has_flag (flags h) DIRECTION_TO_PARENT"
definition Header_is_event :: "Header \<Rightarrow> bool" where
  "Header_is_event h \<longleftrightarrow> request_id h = 0"

definition encode_header :: "Header \<Rightarrow> bytes" where
  "encode_header h = Header_encode h"
definition encode_header_into :: "bytes \<Rightarrow> Header \<Rightarrow> (bytes, fault) result" where
  "encode_header_into buf h = Header_encode_into h buf"
definition decode_header :: "bytes \<Rightarrow> Header option" where
  "decode_header buf = Header_decode buf"
definition validate_header :: "Header \<Rightarrow> u32 \<Rightarrow> (unit, ProcwireError) result" where
  "validate_header h m = Header_validate h m"

section \<open>Encoding and decoding\<close>

definition header_wire :: "Header \<Rightarrow> bytes" where
  "header_wire h = u16_to_be_bytes (method_id h) @ [flags h]
     @ u32_to_be_bytes (request_id h) @ u32_to_be_bytes (payload_length h)"

lemma length_header_wire [simp]: "length (header_wire h) = 11"
  by (simp add: header_wire_def)

lemma Header_encode_into_eq:
  "Header_encode_into h buf =
     (if HEADER_SIZE \<le> length buf then Ok (header_wire h @ drop HEADER_SIZE buf)
      else Err (Panic ''range end index out of range''))"
proof -
  obtain a b where m: "u16_to_be_bytes (method_id h) = [a, b]"
    by (simp add: u16_to_be_bytes_def)
  obtain c d e f where r: "u32_to_be_bytes (request_id h) = [c, d, e, f]"
    by (simp add: u32_to_be_bytes_def)
  obtain i j k l where n: "u32_to_be_bytes (payload_length h) = [i, j, k, l]"
    by (simp add: u32_to_be_bytes_def)
  show ?thesis
    by (auto simp: Header_encode_into_def copy_into_def header_wire_def m r n HEADER_SIZE_def
        and_then_def min_def drop_Cons' take_Cons')
qed

lemma Header_encode_eq: "Header_encode h = header_wire h"
  by (simp add: Header_encode_def Header_encode_into_eq)

lemma length_Header_encode [simp]: "length (Header_encode h) = 11"
  by (simp add: Header_encode_eq)

lemma Header_decode_wire: "Header_decode (header_wire h @ rest) = Some h"
  by (simp add: Header_decode_def header_wire_def HEADER_SIZE_def u16_to_be_bytes_def
      u32_to_be_bytes_def nth_Cons' u16_from_to_be_bytes u32_from_to_be_bytes)

lemma Header_decode_encode [simp]: "Header_decode (Header_encode h @ rest) = Some h"
  by (simp add: Header_encode_eq Header_decode_wire)

lemma Header_decode_encode' [simp]: "Header_decode (Header_encode h) = Some h"
  using Header_decode_encode [of h "[]"] by simp

lemma Header_decode_None_iff: "Header_decode buf = None \<longleftrightarrow> length buf < 11"
  by (simp add: Header_decode_def HEADER_SIZE_def)

lemma list_11_cases:
  assumes "length xs = 11"
  obtains a b c d e f g h i j k where "xs = [a, b, c, d, e, f, g, h, i, j, k]"
  using assms by (auto simp: numeral_eq_Suc length_Suc_conv)

lemma Header_encode_decode:
  assumes "Header_decode buf = Some h"
  shows "Header_encode h = take 11 buf"
proof -
  from assms have "length (take 11 buf) = 11"
    by (auto simp: Header_decode_def HEADER_SIZE_def split: if_splits)
  then obtain a b c d e f g i j k l where t: "take 11 buf = [a, b, c, d, e, f, g, i, j, k, l]"
    by (rule list_11_cases)
  have "Header_decode buf = Header_decode (take 11 buf)"
    using assms by (auto simp: Header_decode_def HEADER_SIZE_def split: if_splits)
  with assms t show ?thesis
    by (auto simp: Header_decode_def HEADER_SIZE_def Header_encode_eq header_wire_def
        u16_to_from_be_bytes u32_to_from_be_bytes)
qed

lemma Header_encode_inj [simp]: "Header_encode g = Header_encode h \<longleftrightarrow> g = h"
  by (metis Header_decode_encode' option.inject)

definition take_header :: "bytes \<Rightarrow> (Header \<times> bytes) option" where
  "take_header buf = map_option (\<lambda>h. (h, drop HEADER_SIZE buf)) (Header_decode buf)"

interpretation hdr: prefix_codec Header_encode take_header "\<lambda>_. True"
  by unfold_locales (simp_all add: take_header_def HEADER_SIZE_def Header_decode_None_iff)

section \<open>Validation and flags\<close>

lemma has_flag_simps [simp]:
  "has_flag f DIRECTION_TO_PARENT \<longleftrightarrow> bit f 0"
  "has_flag f IS_RESPONSE \<longleftrightarrow> bit f 1"
  "has_flag f IS_ERROR \<longleftrightarrow> bit f 2"
  "has_flag f IS_STREAM \<longleftrightarrow> bit f 3"
  "has_flag f STREAM_END \<longleftrightarrow> bit f 4"
  "has_flag f IS_ACK \<longleftrightarrow> bit f 5"
  using and_exp_eq_0_iff_not_bit [of f 0] and_exp_eq_0_iff_not_bit [of f 1]
    and_exp_eq_0_iff_not_bit [of f 2] and_exp_eq_0_iff_not_bit [of f 3]
    and_exp_eq_0_iff_not_bit [of f 4] and_exp_eq_0_iff_not_bit [of f 5]
  by (simp_all add: has_flag_def flag_bits)

lemma reserved_bits: "f AND RESERVED_MASK = 0 \<longleftrightarrow> \<not> bit f 6 \<and> \<not> bit f 7"
proof -
  have mask: "RESERVED_MASK = 2 ^ 6 OR 2 ^ 7" by (simp add: RESERVED_MASK_def)
  have "f AND (2 ^ 6 OR 2 ^ 7) = (f AND 2 ^ 6) OR (f AND 2 ^ 7)"
    by (rule bit.conj_disj_distrib)
  then show ?thesis
    unfolding mask by (simp only: or_eq_0_iff and_exp_eq_0_iff_not_bit)
qed

lemma Header_validate_Ok_iff:
  "Header_validate h m = Ok () \<longleftrightarrow>
     method_id h \<noteq> 0 \<and> payload_length h \<le> m \<and> payload_length h \<le> ABSOLUTE_MAX_PAYLOAD_SIZE
     \<and> \<not> bit (flags h) 6 \<and> \<not> bit (flags h) 7"
  by (auto simp: Header_validate_def RESERVED_METHOD_ID_def reserved_bits not_less)

lemma Header_validate_Err:
  "Header_validate h m = Err e \<Longrightarrow> \<exists>msg. e = Protocol msg"
  by (auto simp: Header_validate_def split: if_splits)

text \<open>C15. Decoding succeeds exactly on buffers of at least 11 bytes whose first 11 bytes are the
  encoding of the decoded header: encoding and decoding are inverse to each other, and bytes
  after the header do not matter.\<close>

theorem header_decode_iff_encode:
  "Header_decode buf = Some h \<longleftrightarrow>
     HEADER_SIZE \<le> length buf \<and> take HEADER_SIZE buf = Header_encode h"
proof
  assume "Header_decode buf = Some h"
  then show "HEADER_SIZE \<le> length buf \<and> take HEADER_SIZE buf = Header_encode h"
    using Header_encode_decode [of buf h] Header_decode_None_iff [of buf]
    by (auto simp: HEADER_SIZE_def)
next
  assume "HEADER_SIZE \<le> length buf \<and> take HEADER_SIZE buf = Header_encode h"
  then have "buf = Header_encode h @ drop 11 buf"
    by (metis HEADER_SIZE_def append_take_drop_id)
  then show "Header_decode buf = Some h" by (metis Header_decode_encode)
qed

text \<open>Encoding into a caller's buffer panics exactly when the buffer is shorter than a
  header; otherwise it writes the 11 header bytes, which are the big-endian fields in the
  documented order, and leaves every later byte of the buffer as it was.\<close>

theorem header_encode_into_total:
  "Header_encode_into h buf =
     (if length buf < HEADER_SIZE then Err (Panic ''range end index out of range'')
      else Ok (Header_encode h @ drop HEADER_SIZE buf))
   \<and> Header_encode h = u16_to_be_bytes (method_id h) @ [flags h]
        @ u32_to_be_bytes (request_id h) @ u32_to_be_bytes (payload_length h)"
  by (simp add: Header_encode_into_eq Header_encode_eq header_wire_def not_less)

text \<open>C16. Validation accepts a header exactly when the method id is not 0, the payload length is
  within the configured and the absolute limit, and the flag bits 6 and 7 are clear; so the ids
  of ABORT and AUTH frames are accepted.\<close>

theorem header_validate_contract:
  "Header_validate h m = Ok () \<longleftrightarrow>
     unat (method_id h) \<noteq> 0 \<and> unat (payload_length h) \<le> min (unat m) (2 ^ 31 - 1)
     \<and> \<not> bit (flags h) 6 \<and> \<not> bit (flags h) 7"
  by (simp add: Header_validate_Ok_iff ABSOLUTE_MAX_PAYLOAD_SIZE_def word_le_nat_alt
      unat_eq_0 conj_ac)

text \<open>The flag bytes of the outgoing frame kinds are the documented values; every one of
  them marks a response to the parent with clear reserved bits, and the error, stream,
  stream-end and ack bits tell all six kinds apart.\<close>

theorem response_flags_distinguish:
  "[RESPONSE, ERROR_RESPONSE, STREAM_ERROR_RESPONSE, STREAM_CHUNK, STREAM_END_RESPONSE,
      ACK_RESPONSE] = [0x03, 0x07, 0x0F, 0x0B, 0x1B, 0x23]
   \<and> list_all (\<lambda>f. has_flag f DIRECTION_TO_PARENT \<and> has_flag f IS_RESPONSE
         \<and> f AND RESERVED_MASK = 0)
       [RESPONSE, ERROR_RESPONSE, STREAM_ERROR_RESPONSE, STREAM_CHUNK, STREAM_END_RESPONSE,
        ACK_RESPONSE]
   \<and> distinct (map (\<lambda>f. (has_flag f IS_ERROR, has_flag f IS_STREAM, has_flag f STREAM_END,
         has_flag f IS_ACK))
       [RESPONSE, ERROR_RESPONSE, STREAM_ERROR_RESPONSE, STREAM_CHUNK, STREAM_END_RESPONSE,
        ACK_RESPONSE])"
  by (simp add: flag_combinations flag_bits has_flag_def)

end
