(* ===== verification/Frames.thy ===== *)
theory Frames
  imports Wire_Format
begin

text \<open>
  A complete frame (\<open>src/protocol/frame.rs\<close>): header and payload, the accessors, and the
  serialised forms. \<open>Bytes\<close> is modelled by its contents.
\<close>

record Frame =
  header :: Header
  payload :: bytes

definition Frame_new :: "Header \<Rightarrow> bytes \<Rightarrow> Frame" where
  "Frame_new h p = \<lparr>header = h, payload = p\<rparr>"

definition Frame_from_parts :: "Header \<Rightarrow> bytes \<Rightarrow> Frame" where
  "Frame_from_parts h p = \<lparr>header = h, payload = p\<rparr>"

definition Frame_payload :: "Frame \<Rightarrow> bytes" where
  "Frame_payload f = payload f"
definition Frame_payload_bytes :: "Frame \<Rightarrow> bytes" where
  "Frame_payload_bytes f = payload f"
definition Frame_payload_len :: "Frame \<Rightarrow> nat" where
  "Frame_payload_len f = length (payload f)"
definition Frame_method_id :: "Frame \<Rightarrow> u16" where
  "Frame_method_id f = method_id (header f)"
definition Frame_flags :: "Frame \<Rightarrow> u8" where
  "Frame_flags f = flags (header f)"
definition Frame_request_id :: "Frame \<Rightarrow> u32" where
  "Frame_request_id f = request_id (header f)"

definition Frame_is_response :: "Frame \<Rightarrow> bool" where
  "Frame_is_response f \<longleftrightarrow> has_flag (flags (header f)) IS_RESPONSE"
definition Frame_is_error :: "Frame \<Rightarrow> bool" where
  "Frame_is_error f \<longleftrightarrow> has_flag (flags (header f)) IS_ERROR"
definition Frame_is_stream :: "Frame \<Rightarrow> bool" where
  "Frame_is_stream f \<longleftrightarrow> has_flag (flags (header f)) IS_STREAM"
definition Frame_is_stream_end :: "Frame \<Rightarrow> bool" where
  "Frame_is_stream_end f \<longleftrightarrow> has_flag (flags (header f)) STREAM_END"
definition Frame_is_ack :: "Frame \<Rightarrow> bool" where
  "Frame_is_ack f \<longleftrightarrow> has_flag (flags (header f)) IS_ACK"
definition Frame_is_to_parent :: "Frame \<Rightarrow> bool" where
  "Frame_is_to_parent f \<longleftrightarrow> has_flag (flags (header f)) DIRECTION_TO_PARENT"
definition Frame_is_event :: "Frame \<Rightarrow> bool" where
  "Frame_is_event f \<longleftrightarrow> request_id (header f) = 0 \<and> \<not> Frame_is_response f"
definition Frame_is_abort :: "Frame \<Rightarrow> bool" where
  "Frame_is_abort f \<longleftrightarrow> Header_is_abort (header f)"

definition build_frame :: "Header \<Rightarrow> bytes \<Rightarrow> bytes" where
  "build_frame h p = (let buf = [] in let buf = buf @ Header_encode h in buf @ p)"

definition build_frame_parts :: "Header \<Rightarrow> bytes \<Rightarrow> bytes \<times> bytes" where
  "build_frame_parts h p = (Header_encode h, p)"

lemma build_frame_eq: "build_frame h p = Header_encode h @ p"
  by (simp add: build_frame_def)

text \<open>A frame is well formed for a limit when its header passes validation and announces the
  payload's length; \<open>frame_bytes\<close> is what it looks like on the wire.\<close>

definition frame_ok :: "u32 \<Rightarrow> Frame \<Rightarrow> bool" where
  "frame_ok m f \<longleftrightarrow> Header_validate (header f) m = Ok ()
     \<and> length (payload f) = unat (payload_length (header f))"

definition frame_bytes :: "Frame \<Rightarrow> bytes" where
  "frame_bytes f = build_frame (header f) (payload f)"

lemma frame_bytes_eq: "frame_bytes f = Header_encode (header f) @ payload f"
  by (simp add: frame_bytes_def build_frame_eq)

lemma Frame_new_sel [simp]: "header (Frame_new h p) = h" "payload (Frame_new h p) = p"
  by (simp_all add: Frame_new_def)

lemma Frame_new_surj [simp]: "Frame_new (header f) (payload f) = f"
  by (simp add: Frame_new_def)

end
