(* ===== verification/Backpressure.thy ===== *)
theory Backpressure
  imports Errors
begin

text \<open>
  Backpressure control (\<open>src/backpressure.rs\<close>). The shared counter \<open>Arc<AtomicUsize>\<close> is an
  address into a heap of 64-bit counters, so that clones of a controller alias the same counter
  and \<open>fetch_sub\<close> wraps around; a \<open>Duration\<close> is a number of nanoseconds. The waiting loop takes
  what it observes in each round as input: what other tasks did to the heap since the last round,
  and the elapsed time.

  The interface \<open>slot_counter\<close> states what a caller relies on, and its interpretation \<open>bp\<close> gives
  the limit for a single caller. The transition system \<open>reserve_step\<close> interleaves the atomic
  instructions of any number of tasks: there the counter equals the number of slots held, but the
  limit can be passed, since the check and the increment are two instructions.
\<close>

section \<open>Model\<close>

type_synonym arc = nat
type_synonym heap = "arc \<Rightarrow> usize"
type_synonym duration = nat

definition from_secs :: "nat \<Rightarrow> duration" where "from_secs n = n * 1000000000"
definition from_micros :: "nat \<Rightarrow> duration" where "from_micros n = n * 1000"

definition DEFAULT_MAX_PENDING :: usize where
  "DEFAULT_MAX_PENDING = 1024"
definition DEFAULT_TIMEOUT :: duration where
  "DEFAULT_TIMEOUT = from_secs 5"
definition CHECK_INTERVAL :: duration where
  "CHECK_INTERVAL = from_micros 100"

record BackpressureController =
  bp_pending :: arc
  bp_max_pending :: usize
  bp_timeout :: duration

text \<open>\<open>Arc::new\<close> allocates: the caller passes an address that is not in use.\<close>

definition BackpressureController_new :: "usize \<Rightarrow> arc \<Rightarrow> heap \<Rightarrow> BackpressureController \<times> heap"
  where
  "BackpressureController_new max_pending a h =
     (\<lparr>bp_pending = a, bp_max_pending = max_pending, bp_timeout = DEFAULT_TIMEOUT\<rparr>, h(a := 0))"

definition BackpressureController_with_timeout ::
  "usize \<Rightarrow> duration \<Rightarrow> arc \<Rightarrow> heap \<Rightarrow> BackpressureController \<times> heap" where
  "BackpressureController_with_timeout max_pending timeout a h =
     (\<lparr>bp_pending = a, bp_max_pending = max_pending, bp_timeout = timeout\<rparr>, h(a := 0))"

definition from_shared :: "arc \<Rightarrow> usize \<Rightarrow> duration \<Rightarrow> BackpressureController" where
  "from_shared pending max_pending timeout =
     \<lparr>bp_pending = pending, bp_max_pending = max_pending, bp_timeout = timeout\<rparr>"

definition pending_counter :: "BackpressureController \<Rightarrow> arc" where
  "pending_counter c = bp_pending c"

definition can_accept :: "BackpressureController \<Rightarrow> heap \<Rightarrow> bool" where
  "can_accept c h \<longleftrightarrow> h (bp_pending c) < bp_max_pending c"

definition is_active :: "BackpressureController \<Rightarrow> heap \<Rightarrow> bool" where
  "is_active c h \<longleftrightarrow> h (bp_pending c) \<ge> bp_max_pending c"

definition bp_pending_count :: "BackpressureController \<Rightarrow> heap \<Rightarrow> usize" where
  "bp_pending_count c h = h (bp_pending c)"

definition bp_limit :: "BackpressureController \<Rightarrow> usize" where
  "bp_limit c = bp_max_pending c"

definition saturating_sub :: "usize \<Rightarrow> usize \<Rightarrow> usize" where
  "saturating_sub a b = (if a < b then 0 else a - b)"

definition available_capacity :: "BackpressureController \<Rightarrow> heap \<Rightarrow> usize" where
  "available_capacity c h = saturating_sub (bp_max_pending c) (h (bp_pending c))"

definition fetch_add :: "arc \<Rightarrow> usize \<Rightarrow> heap \<Rightarrow> heap" where
  "fetch_add a n h = h(a := h a + n)"

definition fetch_sub :: "arc \<Rightarrow> usize \<Rightarrow> heap \<Rightarrow> heap" where
  "fetch_sub a n h = h(a := h a - n)"

text \<open>\<open>try_reserve\<close> for a caller whom no other task disturbs between its two instructions; \<open>reserve_step\<close>
  below has them apart.\<close>

definition try_reserve ::
  "BackpressureController \<Rightarrow> heap \<Rightarrow> (unit, ProcwireError) result \<times> heap" where
  "try_reserve c h =
     (let current = h (bp_pending c) in
      if current \<ge> bp_max_pending c then (Err BackpressureTimeout, h)
      else (Ok (), fetch_add (bp_pending c) 1 h))"

text \<open>One element of the observations per round of the loop: what the other tasks do to the heap before
  the load and between it and the next instruction (the increment, or the reading of the clock), and
  the elapsed time. \<open>None\<close>: the loop is still waiting.\<close>

record wait_round =
  wr_before :: "heap \<Rightarrow> heap"
  wr_between :: "heap \<Rightarrow> heap"
  wr_elapsed :: duration

fun wait_and_reserve ::
  "BackpressureController \<Rightarrow> heap \<Rightarrow> wait_round list \<Rightarrow> (unit, ProcwireError) result option \<times> heap" where
  "wait_and_reserve c h [] = (None, h)"
| "wait_and_reserve c h (ob # obs) =
     (let h = wr_before ob h; current = h (bp_pending c); h = wr_between ob h in
      if current < bp_max_pending c then (Some (Ok ()), fetch_add (bp_pending c) 1 h)
      else if wr_elapsed ob > bp_timeout c then (Some (Err BackpressureTimeout), h)
      else wait_and_reserve c h obs)"

text \<open>\<open>between\<close> is what the other tasks do after the load of the fast path.\<close>

definition reserve ::
  "BackpressureController \<Rightarrow> (heap \<Rightarrow> heap) \<Rightarrow> heap \<Rightarrow> wait_round list \<Rightarrow>
     (unit, ProcwireError) result option \<times> heap" where
  "reserve c between h obs =
     (let current = h (bp_pending c); h = between h in
      if current < bp_max_pending c then (Some (Ok ()), fetch_add (bp_pending c) 1 h)
      else wait_and_reserve c h obs)"

definition release :: "BackpressureController \<Rightarrow> heap \<Rightarrow> heap" where
  "release c h = fetch_sub (bp_pending c) 1 h"

definition release_many :: "BackpressureController \<Rightarrow> usize \<Rightarrow> heap \<Rightarrow> heap" where
  "release_many c count h = fetch_sub (bp_pending c) count h"

definition BackpressureController_reset :: "BackpressureController \<Rightarrow> heap \<Rightarrow> heap" where
  "BackpressureController_reset c h = h(bp_pending c := 0)"

definition BackpressureController_default :: "arc \<Rightarrow> heap \<Rightarrow> BackpressureController \<times> heap" where
  "BackpressureController_default = BackpressureController_new DEFAULT_MAX_PENDING"

definition BackpressureController_clone :: "BackpressureController \<Rightarrow> BackpressureController" where
  "BackpressureController_clone c =
     \<lparr>bp_pending = bp_pending c, bp_max_pending = bp_max_pending c, bp_timeout = bp_timeout c\<rparr>"

record BackpressureGuard =
  guard_controller :: BackpressureController
  guard_released :: bool

definition BackpressureGuard_new :: "BackpressureController \<Rightarrow> BackpressureGuard" where
  "BackpressureGuard_new c = \<lparr>guard_controller = c, guard_released = False\<rparr>"

definition BackpressureGuard_drop :: "BackpressureGuard \<Rightarrow> heap \<Rightarrow> heap" where
  "BackpressureGuard_drop g h =
     (if \<not> guard_released g then release (guard_controller g) h else h)"

text \<open>\<open>release\<close> takes the guard by value, so its body is followed by the drop of the guard.\<close>

definition BackpressureGuard_release :: "BackpressureGuard \<Rightarrow> heap \<Rightarrow> heap" where
  "BackpressureGuard_release g h =
     (let (g, h) = (if \<not> guard_released g
          then (g\<lparr>guard_released := True\<rparr>, release (guard_controller g) h) else (g, h))
      in BackpressureGuard_drop g h)"

definition BackpressureGuard_disarm :: "BackpressureGuard \<Rightarrow> BackpressureGuard" where
  "BackpressureGuard_disarm g = g\<lparr>guard_released := True\<rparr>"

section \<open>The interface a single caller relies on\<close>

datatype slot_op = Reserve | Release

fun run_slots :: "('s \<Rightarrow> ('a, 'e) result \<times> 's) \<Rightarrow> ('s \<Rightarrow> 's) \<Rightarrow> 's \<Rightarrow> slot_op list \<Rightarrow> bool list \<times> 's"
  where
  "run_slots rsv rel s [] = ([], s)"
| "run_slots rsv rel s (Reserve # ops) = (case rsv s of (r, s') \<Rightarrow>
     (case run_slots rsv rel s' ops of (rs, t) \<Rightarrow> (is_ok r # rs, t)))"
| "run_slots rsv rel s (Release # ops) = run_slots rsv rel (rel s) ops"

locale slot_counter =
  fixes cnt :: "'s \<Rightarrow> nat" and lim :: nat
    and rsv :: "'s \<Rightarrow> ('a, 'e) result \<times> 's" and rel :: "'s \<Rightarrow> 's"
  assumes rsv_free: "cnt s < lim \<Longrightarrow> \<exists>x s'. rsv s = (Ok x, s') \<and> cnt s' = cnt s + 1"
    and rsv_full: "lim \<le> cnt s \<Longrightarrow> \<exists>e. rsv s = (Err e, s)"
    and rel_cnt: "0 < cnt s \<Longrightarrow> cnt (rel s) = cnt s - 1"
begin

lemma rsv_is_ok: "is_ok (fst (rsv s)) \<longleftrightarrow> cnt s < lim"
  by (cases "cnt s < lim") (use rsv_free [of s] rsv_full [of s] in \<open>auto simp: not_less\<close>)

text \<open>A caller that releases only what it holds keeps the count within the limit, and the count
  is what it reserved minus what it released.\<close>

lemma run_slots_within:
  assumes "cnt s \<le> lim" and "length (filter ((=) Release) ops) \<le> cnt s"
    and "run_slots rsv rel s ops = (rs, t)"
  shows "cnt t \<le> lim \<and> cnt t + length (filter ((=) Release) ops) = cnt s + length (filter id rs)"
  using assms
proof (induction ops arbitrary: s rs)
  case (Cons x ops)
  show ?case
  proof (cases x)
    case Release
    with Cons.prems have "0 < cnt s" by simp
    then have "cnt (rel s) = cnt s - 1" by (rule rel_cnt)
    with Cons.prems Release Cons.IH [of "rel s" rs] show ?thesis by auto
  next
    case Reserve
    show ?thesis
    proof (cases "cnt s < lim")
      case True
      then obtain y s' where r: "rsv s = (Ok y, s')" "cnt s' = cnt s + 1" using rsv_free by blast
      from Cons.prems(3) Reserve r obtain rs' where
        "run_slots rsv rel s' ops = (rs', t)" "rs = True # rs'"
        by (auto split: prod.splits)
      with Cons.IH [of s' rs'] Cons.prems r True Reserve show ?thesis by auto
    next
      case False
      then obtain e where r: "rsv s = (Err e, s)" using rsv_full [of s] by (auto simp: not_less)
      from Cons.prems(3) Reserve r obtain rs' where
        "run_slots rsv rel s ops = (rs', t)" "rs = False # rs'"
        by (auto split: prod.splits)
      with Cons.IH [of s rs'] Cons.prems Reserve show ?thesis by auto
    qed
  qed
qed simp

end

section \<open>A controller used by one task\<close>

lemmas counter_defs = try_reserve_def release_def fetch_add_def fetch_sub_def Let_def

interpretation bp: slot_counter "\<lambda>h. unat (h (bp_pending c))" "unat (bp_max_pending c)"
  "try_reserve c" "release c" for c
  by unfold_locales
    (auto simp: counter_defs word_le_nat_alt word_less_nat_alt unat_inc unat_dec unat_gt_0)

section \<open>Many tasks\<close>

text \<open>Each task runs \<open>try_reserve\<close> (the fast path of \<open>reserve\<close> and a round of the waiting loop
  are the same two instructions) and later \<open>release\<close>.\<close>

datatype reserve_loc = Idle | Checked | Holding

record reserve_sys =
  rs_pending :: usize
  rs_loc :: "nat \<Rightarrow> reserve_loc"

inductive reserve_step :: "usize \<Rightarrow> nat \<Rightarrow> reserve_sys \<Rightarrow> reserve_sys \<Rightarrow> bool" for m n where
  load_free: "i < n \<Longrightarrow> rs_loc s i = Idle \<Longrightarrow> rs_pending s < m \<Longrightarrow>
     reserve_step m n s (s\<lparr>rs_loc := (rs_loc s)(i := Checked)\<rparr>)"
| load_full: "i < n \<Longrightarrow> rs_loc s i = Idle \<Longrightarrow> rs_pending s \<ge> m \<Longrightarrow> reserve_step m n s s"
| add: "i < n \<Longrightarrow> rs_loc s i = Checked \<Longrightarrow>
     reserve_step m n s
       (s\<lparr>rs_pending := rs_pending s + 1, rs_loc := (rs_loc s)(i := Holding)\<rparr>)"
| sub: "i < n \<Longrightarrow> rs_loc s i = Holding \<Longrightarrow>
     reserve_step m n s
       (s\<lparr>rs_pending := rs_pending s - 1, rs_loc := (rs_loc s)(i := Idle)\<rparr>)"

definition reserve_init :: "nat \<Rightarrow> reserve_sys \<Rightarrow> bool" where
  "reserve_init n s \<longleftrightarrow> n < 2 ^ 64 \<and> s = \<lparr>rs_pending = 0, rs_loc = (\<lambda>_. Idle)\<rparr>"

definition holders :: "nat \<Rightarrow> reserve_sys \<Rightarrow> nat set" where
  "holders n s = {i. i < n \<and> rs_loc s i = Holding}"

definition reserve_inv :: "nat \<Rightarrow> reserve_sys \<Rightarrow> bool" where
  "reserve_inv n s \<longleftrightarrow> n < 2 ^ 64 \<and> unat (rs_pending s) = card (holders n s)"

lemma finite_holders [simp]: "finite (holders n s)"
  by (simp add: holders_def)

lemma card_holders_le: "card (holders n s) \<le> n"
  using card_mono [of "{..<n}" "holders n s"] by (auto simp: holders_def)

lemma holders_update:
  "i < n \<Longrightarrow> holders n (s\<lparr>rs_loc := (rs_loc s)(i := l)\<rparr>) =
     (if l = Holding then insert i (holders n s) else holders n s - {i})"
  "i < n \<Longrightarrow> holders n (s\<lparr>rs_pending := p, rs_loc := (rs_loc s)(i := l)\<rparr>) =
     (if l = Holding then insert i (holders n s) else holders n s - {i})"
  by (auto simp: holders_def)

interpretation rsys: invariant_system "reserve_init n" "reserve_step m n" "reserve_inv n" for m n
proof
  fix s assume "reserve_init n s"
  then show "reserve_inv n s" by (simp add: reserve_init_def reserve_inv_def holders_def)
next
  fix s t assume inv: "reserve_inv n s" and st: "reserve_step m n s t"
  from st inv show "reserve_inv n t"
  proof cases
    case (add i)
    then have i: "i \<notin> holders n s" by (simp add: holders_def)
    then have "insert i (holders n s) \<subseteq> {..<n}" "card (insert i (holders n s)) = Suc (card (holders n s))"
      using add by (auto simp: holders_def)
    then have "card (holders n s) < n" by (metis card_lessThan card_mono finite_lessThan Suc_le_eq)
    with inv have "unat (rs_pending s) < 2 ^ 64 - 1" by (simp add: reserve_inv_def)
    then have "unat (rs_pending s + 1) = Suc (unat (rs_pending s))"
      by (intro unat_inc_bound) simp
    with add i inv show ?thesis by (simp add: reserve_inv_def holders_update)
  next
    case (sub i)
    then have "i \<in> holders n s" by (simp add: holders_def)
    then have "card (holders n s - {i}) = card (holders n s) - 1" "card (holders n s) \<noteq> 0"
      by auto
    moreover from this inv have "unat (rs_pending s - 1) = unat (rs_pending s) - 1"
      by (intro unat_dec) (auto simp: reserve_inv_def)
    ultimately show ?thesis using sub inv by (simp add: reserve_inv_def holders_update)
  next
    case (load_free i)
    then have "i \<notin> holders n s" by (simp add: holders_def)
    with load_free inv show ?thesis by (simp add: reserve_inv_def holders_update)
  qed simp
qed

inductive_cases reserve_stepE [elim]: "reserve_step m n s t"

text \<open>Run without interference, the two instructions of a task are \<open>try_reserve\<close>.\<close>

lemma reserve_step_alone:
  assumes "i < n" "rs_loc s i = Idle" "try_reserve c h = (Ok (), h')"
    "h (bp_pending c) = rs_pending s" "bp_max_pending c = m"
  shows "(reserve_step m n)\<^sup>*\<^sup>* s
    (s\<lparr>rs_pending := h' (bp_pending c), rs_loc := (rs_loc s)(i := Holding)\<rparr>)"
proof -
  from assms have lt: "rs_pending s < m" and h': "h' (bp_pending c) = rs_pending s + 1"
    by (auto simp: counter_defs not_le split: if_splits)
  let ?t = "s\<lparr>rs_loc := (rs_loc s)(i := Checked)\<rparr>"
  from assms lt have "reserve_step m n s ?t" by (intro load_free)
  moreover have "reserve_step m n ?t
      (?t\<lparr>rs_pending := rs_pending ?t + 1, rs_loc := (rs_loc ?t)(i := Holding)\<rparr>)"
    using assms(1) by (intro add) simp_all
  ultimately show ?thesis using h' by (auto intro: rtranclp.intros)
qed

section \<open>The waiting loop\<close>

text \<open>The heap after some rounds, as the other tasks left it, and the heap that the load of a round sees.\<close>

definition apply_others :: "wait_round list \<Rightarrow> heap \<Rightarrow> heap" where
  "apply_others obs h = fold (\<lambda>ob h. wr_between ob (wr_before ob h)) obs h"

definition load_sees :: "wait_round list \<Rightarrow> heap \<Rightarrow> nat \<Rightarrow> heap" where
  "load_sees obs h k = wr_before (obs ! k) (apply_others (take k obs) h)"

text \<open>The loop ends in the first round that sees room or, if that comes first, in the first that is past
  the timeout.\<close>

lemma wait_and_reserve_result:
  assumes "\<exists>k < length obs. bp_timeout c < wr_elapsed (obs ! k)"
  shows "\<exists>k < length obs. (\<forall>j < k. bp_max_pending c \<le> load_sees obs h j (bp_pending c) \<and> wr_elapsed (obs ! j) \<le> bp_timeout c)
    \<and> (load_sees obs h k (bp_pending c) < bp_max_pending c
         \<and> wait_and_reserve c h obs = (Some (Ok ()), fetch_add (bp_pending c) 1 (wr_between (obs ! k) (load_sees obs h k)))
       \<or> bp_max_pending c \<le> load_sees obs h k (bp_pending c) \<and> bp_timeout c < wr_elapsed (obs ! k)
         \<and> wait_and_reserve c h obs = (Some (Err BackpressureTimeout), wr_between (obs ! k) (load_sees obs h k)))"
  using assms
proof (induction obs arbitrary: h)
  case (Cons ob obs)
  let ?h = "wr_before ob h" and ?rest = "wr_between ob (wr_before ob h)"
  show ?case
  proof (cases "?h (bp_pending c) < bp_max_pending c \<or> bp_timeout c < wr_elapsed ob")
    case True
    then show ?thesis by (intro exI [of _ 0]) (auto simp: load_sees_def apply_others_def Let_def not_less)
  next
    case False
    with Cons.prems have "\<exists>k < length obs. bp_timeout c < wr_elapsed (obs ! k)"
      by (auto simp: less_Suc_eq_0_disj)
    from Cons.IH [OF this, of ?rest] obtain k where k: "k < length obs"
      "\<forall>j < k. bp_max_pending c \<le> load_sees obs ?rest j (bp_pending c) \<and> wr_elapsed (obs ! j) \<le> bp_timeout c"
      "load_sees obs ?rest k (bp_pending c) < bp_max_pending c
         \<and> wait_and_reserve c ?rest obs = (Some (Ok ()), fetch_add (bp_pending c) 1 (wr_between (obs ! k) (load_sees obs ?rest k)))
       \<or> bp_max_pending c \<le> load_sees obs ?rest k (bp_pending c) \<and> bp_timeout c < wr_elapsed (obs ! k)
         \<and> wait_and_reserve c ?rest obs = (Some (Err BackpressureTimeout), wr_between (obs ! k) (load_sees obs ?rest k))"
      by blast
    have sees: "load_sees (ob # obs) h (Suc j) = load_sees obs ?rest j" "load_sees (ob # obs) h 0 = ?h" for j
      by (simp_all add: load_sees_def apply_others_def)
    have "\<forall>j < Suc k. bp_max_pending c \<le> load_sees (ob # obs) h j (bp_pending c) \<and> wr_elapsed ((ob # obs) ! j) \<le> bp_timeout c"
      using k(2) False by (auto simp: less_Suc_eq_0_disj sees not_less)
    moreover have "wait_and_reserve c h (ob # obs) = wait_and_reserve c ?rest obs" using False by (simp add: Let_def)
    ultimately show ?thesis using k(1,3) by (intro exI [of _ "Suc k"]) (simp add: sees)
  qed
qed simp

lemma rounds_pass_timeout:
  assumes "\<forall>i < length obs. i * CHECK_INTERVAL \<le> wr_elapsed (obs ! i)"
    and "bp_timeout c + CHECK_INTERVAL < length obs * CHECK_INTERVAL"
  shows "\<exists>k < length obs. bp_timeout c < wr_elapsed (obs ! k)"
proof (intro exI conjI)
  have pos: "0 < length obs" using assms(2) by (auto intro: gr0I)
  then show "length obs - 1 < length obs" by simp
  have "bp_timeout c < (length obs - 1) * CHECK_INTERVAL" using assms(2) by (simp add: diff_mult_distrib)
  also have "\<dots> \<le> wr_elapsed (obs ! (length obs - 1))" using assms(1) pos by simp
  finally show "bp_timeout c < wr_elapsed (obs ! (length obs - 1))" .
qed

section \<open>Properties\<close>

text \<open>A single task that releases only slots it holds never passes the limit: after any
  sequence of \<open>try_reserve\<close> and \<open>release\<close> calls the counter is at most the maximum, and it is
  the initial count plus the successful reservations minus the releases.\<close>

theorem backpressure_single_task_within_limit:
  assumes "bp_pending_count c h \<le> bp_limit c"
    and "length (filter ((=) Release) ops) \<le> unat (bp_pending_count c h)"
    and "run_slots (try_reserve c) (release c) h ops = (rs, h')"
  shows "bp_pending_count c h' \<le> bp_limit c
    \<and> unat (bp_pending_count c h') + length (filter ((=) Release) ops)
        = unat (bp_pending_count c h) + length (filter id rs)"
  using bp.run_slots_within [where c = c and s = h and ops = ops and rs = rs and t = h'] assms
  by (simp add: bp_pending_count_def bp_limit_def word_le_nat_alt)

theorem backpressure_single_task_within_limit_witness:
  "let c = from_shared 0 2 0 in
   let h' = snd (run_slots (try_reserve c) (release c) (\<lambda>_. 1) [Reserve, Release, Reserve])
   in bp_pending_count c h' \<le> bp_limit c"
  unfolding Let_def
  by (rule backpressure_single_task_within_limit [THEN conjunct1, OF _ _ surjective_pairing])
    (simp_all add: bp_pending_count_def bp_limit_def from_shared_def)

text \<open>C36. \<open>reserve\<close> ends. Let the rounds of its waiting loop be at least one check interval apart, and let
  the other tasks change the counter at any point, also between a load and the increment behind it.
  Then \<open>reserve\<close> returns at the latest in the first round past the timeout, that is, within as many
  rounds as fit into the timeout, plus two. It returns a slot exactly if its fast path or one of
  these rounds sees the counter below the maximum, and then adds one to whatever the others have made
  of the counter since; it returns \<open>BackpressureTimeout\<close> only past the timeout, when
  no round has seen room, and leaves the counter as the others made it.\<close>

theorem reserve_returns:
  assumes "\<forall>i < length obs. i * CHECK_INTERVAL \<le> wr_elapsed (obs ! i)"
    and "bp_timeout c + CHECK_INTERVAL < length obs * CHECK_INTERVAL"
  shows "(h (bp_pending c) < bp_max_pending c \<and>
      reserve c between h obs = (Some (Ok ()), fetch_add (bp_pending c) 1 (between h)))
    \<or> (bp_max_pending c \<le> h (bp_pending c) \<and> (\<exists>k < length obs. let seen = load_sees obs (between h) in
        (\<forall>j < k. bp_max_pending c \<le> seen j (bp_pending c) \<and> wr_elapsed (obs ! j) \<le> bp_timeout c)
      \<and> (seen k (bp_pending c) < bp_max_pending c
           \<and> reserve c between h obs = (Some (Ok ()), fetch_add (bp_pending c) 1 (wr_between (obs ! k) (seen k)))
         \<or> bp_max_pending c \<le> seen k (bp_pending c) \<and> bp_timeout c < wr_elapsed (obs ! k)
           \<and> reserve c between h obs = (Some (Err BackpressureTimeout), wr_between (obs ! k) (seen k)))))"
  using wait_and_reserve_result [OF rounds_pass_timeout [OF assms], of "between h"]
  by (cases "h (bp_pending c) < bp_max_pending c") (simp_all add: reserve_def Let_def)

text \<open>Nobody else moves.\<close>

abbreviation quiet_round :: "duration \<Rightarrow> wait_round" where
  "quiet_round t \<equiv> \<lparr>wr_before = id, wr_between = id, wr_elapsed = t\<rparr>"

theorem reserve_returns_witness:
  "reserve (from_shared 0 1 0) id (\<lambda>_. 1) [quiet_round 0, quiet_round (from_micros 100), quiet_round (from_micros 250)]
    = (Some (Err BackpressureTimeout), \<lambda>_. 1)"
proof -
  let ?obs = "[quiet_round 0, quiet_round (from_micros 100), quiet_round (from_micros 250)]"
  have idle: "load_sees ?obs (id (\<lambda>_. 1)) k = (\<lambda>_. 1)" "wr_between (?obs ! k) (\<lambda>_. 1) = (\<lambda>_. 1)" if "k < 3" for k
    using that by (auto simp: load_sees_def apply_others_def less_Suc_eq numeral_3_eq_3)
  have pace: "\<forall>i < length ?obs. i * CHECK_INTERVAL \<le> wr_elapsed (?obs ! i)"
    by (simp add: from_micros_def CHECK_INTERVAL_def nth_Cons' less_Suc_eq all_conj_distrib)
  have "bp_timeout (from_shared 0 1 0) + CHECK_INTERVAL < length ?obs * CHECK_INTERVAL"
    by (simp add: from_shared_def from_micros_def CHECK_INTERVAL_def)
  from reserve_returns [OF pace this, of "\<lambda>_. 1" id] idle show ?thesis
    by (auto simp: from_shared_def Let_def)
qed

text \<open>No slot is lost and none is released twice: whatever the interleaving of the loads,
  increments and decrements of the tasks, the counter is the number of tasks that hold a slot.\<close>

theorem pending_counts_holders:
  assumes "n < 2 ^ 64"
    and "(reserve_step m n)\<^sup>*\<^sup>* \<lparr>rs_pending = 0, rs_loc = (\<lambda>_. Idle)\<rparr> s"
  shows "unat (rs_pending s) = card {i. i < n \<and> rs_loc s i = Holding}"
  using rsys.inv_reachable [OF _ assms(2)] assms(1)
  by (simp add: reserve_init_def reserve_inv_def holders_def)

theorem pending_counts_holders_witness:
  "unat (1 :: usize) = card {i. i < (2::nat) \<and> ((\<lambda>_. Idle)(1 := Holding)) i = Holding}"
proof -
  let ?s = "\<lparr>rs_pending = 0, rs_loc = (\<lambda>_. Idle)\<rparr>"
  have "try_reserve (from_shared 0 1 0) (\<lambda>_. 0) = (Ok (), (\<lambda>_. 0)(0 := 1))"
    by (simp add: counter_defs from_shared_def)
  from reserve_step_alone [of 1 2 ?s, OF _ _ this]
  have "(reserve_step 1 2)\<^sup>*\<^sup>* ?s \<lparr>rs_pending = 1, rs_loc = (\<lambda>_. Idle)(1 := Holding)\<rparr>"
    by (simp add: from_shared_def)
  from pending_counts_holders [OF _ this] show ?thesis by simp
qed

text \<open>The maximum is not a hard bound once two tasks reserve at the same time: with a limit
  of one, two tasks that both load the counter before either adds to it both obtain a slot.\<close>

theorem reserve_limit_can_be_passed:
  "\<exists>s. (reserve_step 1 2)\<^sup>*\<^sup>* \<lparr>rs_pending = 0, rs_loc = (\<lambda>_. Idle)\<rparr> s \<and> rs_pending s = 2
     \<and> rs_loc s 0 = Holding \<and> rs_loc s 1 = Holding"
proof -
  let ?l = "\<lambda>_::nat. Idle"
  let ?st = "\<lambda>p l. \<lparr>rs_pending = p, rs_loc = l\<rparr>"
  have "reserve_step 1 2 (?st 0 ?l) (?st 0 (?l(0 := Checked)))"
    using load_free [of 0 2 "?st 0 ?l" 1] by simp
  moreover have "reserve_step 1 2 (?st 0 (?l(0 := Checked))) (?st 0 (?l(0 := Checked, 1 := Checked)))"
    using load_free [of 1 2 "?st 0 (?l(0 := Checked))" 1] by simp
  moreover have "reserve_step 1 2 (?st 0 (?l(0 := Checked, 1 := Checked)))
      (?st 1 (?l(0 := Holding, 1 := Checked)))"
    using add [of 0 2 "?st 0 (?l(0 := Checked, 1 := Checked))" 1] by (simp add: fun_upd_twist)
  moreover have "reserve_step 1 2 (?st 1 (?l(0 := Holding, 1 := Checked)))
      (?st 2 (?l(0 := Holding, 1 := Holding)))"
    using add [of 1 2 "?st 1 (?l(0 := Holding, 1 := Checked))" 1] by simp
  ultimately have "(reserve_step 1 2)\<^sup>*\<^sup>* (?st 0 ?l) (?st 2 (?l(0 := Holding, 1 := Holding)))"
    by (meson rtranclp.intros)
  then show ?thesis by (intro exI conjI) auto
qed

end
