(* ===== verification/Write_Batch.thy ===== *)
theory Write_Batch
  imports Frames Backpressure
begin

text \<open>
  Scatter/gather writing (\<open>src/writer.rs\<close>): \<open>OutboundFrame\<close>, \<open>write_batch\<close> and
  \<open>build_remaining_slices\<close>. The writer \<open>W: AsyncWrite\<close> is not part of the repository: it is the
  record \<open>async_write\<close> of the two functions the code calls, an argument of every definition that
  writes, and \<open>async_write_contract\<close> states the documented behaviour the code relies on. Slice
  lengths are natural numbers, since the slices lie in memory.
\<close>

section \<open>Model\<close>

record OutboundFrame =
  of_header :: bytes
  of_payload :: bytes

definition OutboundFrame_new :: "Header \<Rightarrow> bytes \<Rightarrow> OutboundFrame" where
  "OutboundFrame_new h p = \<lparr>of_header = Header_encode h, of_payload = p\<rparr>"

definition OutboundFrame_empty :: "Header \<Rightarrow> OutboundFrame" where
  "OutboundFrame_empty h = \<lparr>of_header = Header_encode h, of_payload = []\<rparr>"

definition OutboundFrame_size :: "OutboundFrame \<Rightarrow> nat" where
  "OutboundFrame_size f = HEADER_SIZE + length (of_payload f)"

record 'w async_write =
  write_vectored :: "bytes list \<Rightarrow> 'w \<Rightarrow> (nat, io_error) result \<times> 'w"
  flush :: "'w \<Rightarrow> (unit, io_error) result \<times> 'w"

text \<open>One iteration of the loop over the batch, on the slices collected so far and the number of
  bytes before the frame.\<close>

definition remaining_step ::
  "nat \<Rightarrow> OutboundFrame \<Rightarrow> bytes list \<times> nat \<Rightarrow> bytes list \<times> nat" where
  "remaining_step skip_bytes frame = (\<lambda>(slices, skipped).
     let header_start = skipped;
         header_end = skipped + HEADER_SIZE;
         slices = (if skip_bytes < header_end
           then slices @ [drop (skip_bytes - header_start) (of_header frame)] else slices);
         skipped = header_end
     in if of_payload frame \<noteq> [] then
          let payload_start = skipped;
              payload_end = skipped + length (of_payload frame);
              slices = (if skip_bytes < payload_end
                then slices @ [drop (skip_bytes - payload_start) (of_payload frame)] else slices)
          in (slices, payload_end)
        else (slices, skipped))"

definition build_remaining_slices :: "OutboundFrame list \<Rightarrow> nat \<Rightarrow> bytes list" where
  "build_remaining_slices batch skip_bytes = fst (fold (remaining_step skip_bytes) batch ([], 0))"

definition batch_slices :: "OutboundFrame list \<Rightarrow> bytes list" where
  "batch_slices batch = fold (\<lambda>f slices.
     let slices = slices @ [of_header f] in
     if of_payload f \<noteq> [] then slices @ [of_payload f] else slices) batch []"

definition write_zero :: ProcwireError where
  "write_zero = Io (io_error_new WriteZero ''write_vectored returned 0'')"

definition flush_batch :: "'w async_write \<Rightarrow> 'w \<Rightarrow> (unit, ProcwireError) result \<times> 'w" where
  "flush_batch W w = (case flush W w of
     (Inl e, w) \<Rightarrow> (Err (Io e), w)
   | (Inr _, w) \<Rightarrow> (Ok (), w))"

function write_remaining ::
  "'w async_write \<Rightarrow> OutboundFrame list \<Rightarrow> nat \<Rightarrow> nat \<Rightarrow> 'w \<Rightarrow> (unit, ProcwireError) result \<times> 'w"
  where
  "write_remaining W batch total_size total_written w =
     (if total_written < total_size then
        let remaining_slices = build_remaining_slices batch total_written in
        if remaining_slices = [] then flush_batch W w
        else (case write_vectored W remaining_slices w of
            (Inl e, w) \<Rightarrow> (Err (Io e), w)
          | (Inr written, w) \<Rightarrow>
              if written = 0 then (Err write_zero, w)
              else write_remaining W batch total_size (total_written + written) w)
      else flush_batch W w)"
  by auto
termination
  by (relation "measure (\<lambda>(W, batch, total_size, total_written, w). total_size - total_written)")
    auto

declare write_remaining.simps [simp del]

definition write_batch ::
  "'w async_write \<Rightarrow> OutboundFrame list \<Rightarrow> 'w \<Rightarrow> (unit, ProcwireError) result \<times> 'w" where
  "write_batch W batch w =
     (if batch = [] then (Ok (), w)
      else
        let slices = batch_slices batch;
            total_size = sum_list (map OutboundFrame_size batch)
        in (case write_vectored W slices w of
            (Inl e, w) \<Rightarrow> (Err (Io e), w)
          | (Inr written, w) \<Rightarrow>
              if written = total_size then flush_batch W w
              else if written = 0 then (Err write_zero, w)
              else write_remaining W batch total_size written w))"

section \<open>What the batch puts on the wire\<close>

text \<open>A frame has an 11-byte header: \<open>OutboundFrame\<close> holds a \<open>[u8; HEADER_SIZE]\<close>.\<close>

definition outbound_ok :: "OutboundFrame \<Rightarrow> bool" where
  "outbound_ok f \<longleftrightarrow> length (of_header f) = HEADER_SIZE"

definition outbound_bytes :: "OutboundFrame \<Rightarrow> bytes" where
  "outbound_bytes f = of_header f @ of_payload f"

definition batch_bytes :: "OutboundFrame list \<Rightarrow> bytes" where
  "batch_bytes batch = concat (map outbound_bytes batch)"

lemma batch_bytes_simps [simp]:
  "batch_bytes [] = []"
  "batch_bytes (f # fs) = outbound_bytes f @ batch_bytes fs"
  "batch_bytes (fs @ gs) = batch_bytes fs @ batch_bytes gs"
  by (simp_all add: batch_bytes_def)

lemma outbound_new [simp]:
  "outbound_ok (OutboundFrame_new h p)" "outbound_bytes (OutboundFrame_new h p) = build_frame h p"
  "outbound_ok (OutboundFrame_empty h)" "outbound_bytes (OutboundFrame_empty h) = build_frame h []"
  by (simp_all add: outbound_ok_def outbound_bytes_def OutboundFrame_new_def OutboundFrame_empty_def
      build_frame_eq HEADER_SIZE_def)

lemma length_outbound_bytes: "outbound_ok f \<Longrightarrow> length (outbound_bytes f) = OutboundFrame_size f"
  by (simp add: outbound_ok_def outbound_bytes_def OutboundFrame_size_def)

lemma outbound_bytes_nonempty: "outbound_ok f \<Longrightarrow> outbound_bytes f \<noteq> []"
  by (auto simp: outbound_ok_def outbound_bytes_def HEADER_SIZE_def)

lemma total_size_eq:
  "list_all outbound_ok batch \<Longrightarrow> sum_list (map OutboundFrame_size batch) = length (batch_bytes batch)"
  by (induction batch) (simp_all add: length_outbound_bytes)

section \<open>The slices\<close>

lemma concat_batch_slices_fold:
  "concat (fold (\<lambda>f slices. let slices = slices @ [of_header f] in
     if of_payload f \<noteq> [] then slices @ [of_payload f] else slices) batch acc)
   = concat acc @ batch_bytes batch"
  by (induction batch arbitrary: acc) (auto simp: Let_def outbound_bytes_def)

lemma concat_batch_slices: "concat (batch_slices batch) = batch_bytes batch"
  by (simp add: batch_slices_def concat_batch_slices_fold)

lemma remaining_step_spec:
  assumes "outbound_ok f" and "[] \<notin> set slices"
  shows "\<exists>slices'. remaining_step n f (slices, k) = (slices', k + length (outbound_bytes f))
    \<and> concat slices' = concat slices @ drop (n - k) (outbound_bytes f) \<and> [] \<notin> set slices'"
  using assms
  by (auto simp: remaining_step_def outbound_ok_def outbound_bytes_def Let_def HEADER_SIZE_def)

lemma remaining_fold_spec:
  "list_all outbound_ok batch \<Longrightarrow> [] \<notin> set slices \<Longrightarrow>
   \<exists>slices'. fold (remaining_step n) batch (slices, k) = (slices', k + length (batch_bytes batch))
     \<and> concat slices' = concat slices @ drop (n - k) (batch_bytes batch) \<and> [] \<notin> set slices'"
proof (induction batch arbitrary: slices k)
  case (Cons f batch)
  then obtain s1 where s1: "remaining_step n f (slices, k) = (s1, k + length (outbound_bytes f))"
    "concat s1 = concat slices @ drop (n - k) (outbound_bytes f)" "[] \<notin> set s1"
    using remaining_step_spec [of f slices n k] by auto
  from Cons.IH [of s1 "k + length (outbound_bytes f)"] Cons.prems s1(3) obtain s2 where
    "fold (remaining_step n) batch (s1, k + length (outbound_bytes f))
       = (s2, k + length (outbound_bytes f) + length (batch_bytes batch))"
    "concat s2 = concat s1 @ drop (n - (k + length (outbound_bytes f))) (batch_bytes batch)"
    "[] \<notin> set s2"
    by auto
  with s1 show ?case by (simp add: add.assoc)
qed simp

lemma build_remaining_slices_spec:
  assumes "list_all outbound_ok batch"
  shows "concat (build_remaining_slices batch n) = drop n (batch_bytes batch)"
    and "[] \<notin> set (build_remaining_slices batch n)"
  using remaining_fold_spec [of batch "[]" n 0] assms by (auto simp: build_remaining_slices_def)

lemma build_remaining_slices_nonempty:
  "list_all outbound_ok batch \<Longrightarrow> n < length (batch_bytes batch) \<Longrightarrow>
   build_remaining_slices batch n \<noteq> []"
  using build_remaining_slices_spec(1) [of batch n] by force

section \<open>The writer's contract\<close>

text \<open>\<open>sink w\<close> is what the other side has been given so far. \<open>write_vectored\<close> accepts a prefix of
  the data and returns its length, or fails and accepts nothing; \<open>flush\<close> gives nothing new.\<close>

definition async_write_contract :: "'w async_write \<Rightarrow> ('w \<Rightarrow> bytes) \<Rightarrow> bool" where
  "async_write_contract W sink \<longleftrightarrow>
     (\<forall>ss w. case write_vectored W ss w of
        (Inl e, w') \<Rightarrow> sink w' = sink w
      | (Inr n, w') \<Rightarrow> n \<le> length (concat ss) \<and> sink w' = sink w @ take n (concat ss))
   \<and> (\<forall>w. sink (snd (flush W w)) = sink w)"

lemma contract_write:
  assumes "async_write_contract W sink"
  shows "write_vectored W ss w = (Inl e, w') \<Longrightarrow> sink w' = sink w"
    and "write_vectored W ss w = (Inr n, w') \<Longrightarrow> n \<le> length (concat ss)"
    and "write_vectored W ss w = (Inr n, w') \<Longrightarrow> sink w' = sink w @ take n (concat ss)"
proof -
  from assms have *: "case write_vectored W ss w of
      (Inl e, w') \<Rightarrow> sink w' = sink w
    | (Inr n, w') \<Rightarrow> n \<le> length (concat ss) \<and> sink w' = sink w @ take n (concat ss)"
    by (simp add: async_write_contract_def)
  show "write_vectored W ss w = (Inl e, w') \<Longrightarrow> sink w' = sink w"
    and "write_vectored W ss w = (Inr n, w') \<Longrightarrow> n \<le> length (concat ss)"
    and "write_vectored W ss w = (Inr n, w') \<Longrightarrow> sink w' = sink w @ take n (concat ss)"
    using * by simp_all
qed

lemma flush_batch_sink:
  assumes "async_write_contract W sink"
  shows "sink (snd (flush_batch W w)) = sink w"
proof -
  from assms have "sink (snd (flush W w)) = sink w" by (simp add: async_write_contract_def)
  then show ?thesis by (auto simp: flush_batch_def split: prod.split sum.split)
qed

text \<open>How a write of \<open>bs\<close> may end: all of it is in the sink, or, after an error, a prefix.\<close>

definition wrote :: "('w \<Rightarrow> bytes) \<Rightarrow> bytes \<Rightarrow> bytes \<Rightarrow> (unit, ProcwireError) result \<times> 'w \<Rightarrow> bool" where
  "wrote sink old bs out \<longleftrightarrow>
     (\<exists>k. sink (snd out) = old @ take k bs) \<and> (is_ok (fst out) \<longrightarrow> sink (snd out) = old @ bs)"

lemma wrote_err: "sink w = old @ take k bs \<Longrightarrow> wrote sink old bs (Err e, w)"
  by (auto simp: wrote_def)

lemma wrote_flush:
  "async_write_contract W sink \<Longrightarrow> sink w = old @ bs \<Longrightarrow> wrote sink old bs (flush_batch W w)"
  by (auto simp: wrote_def flush_batch_sink intro: exI [of _ "length bs"])

lemma write_remaining_wrote:
  assumes "async_write_contract W sink" and "list_all outbound_ok batch"
    and "sink w = old @ take k (batch_bytes batch)"
  shows "wrote sink old (batch_bytes batch)
    (write_remaining W batch (length (batch_bytes batch)) k w)"
  using assms
proof (induction W batch "length (batch_bytes batch)" k w rule: write_remaining.induct)
  case (1 W batch k w)
  note ctr = "1.prems"(1) and okb = "1.prems"(2)
  show ?case
  proof (cases "k < length (batch_bytes batch)")
    case True
    let ?ss = "build_remaining_slices batch k"
    have ne: "?ss \<noteq> []" using okb True by (rule build_remaining_slices_nonempty)
    obtain r w' where rw: "write_vectored W ?ss w = (r, w')" by fastforce
    show ?thesis
    proof (cases r)
      case (Inl e)
      with rw "1.prems" contract_write(1) [OF ctr] show ?thesis
        by (subst write_remaining.simps) (auto simp: True ne Let_def intro: wrote_err)
    next
      case (Inr n)
      have sink: "sink w' = old @ take (k + n) (batch_bytes batch)"
        using rw Inr "1.prems" contract_write(3) [OF ctr, of ?ss w n w']
        by (simp add: build_remaining_slices_spec take_add)
      show ?thesis
      proof (cases "n = 0")
        case True
        with sink rw Inr \<open>k < length (batch_bytes batch)\<close> show ?thesis
          by (subst write_remaining.simps) (auto simp: ne Let_def intro: wrote_err)
      next
        case False
        with "1.hyps" [OF True refl ne rw [symmetric] Inr False ctr okb sink] True rw Inr ne
        show ?thesis by (subst write_remaining.simps) (simp add: Let_def)
      qed
    qed
  next
    case False
    with "1.prems" show ?thesis
      by (subst write_remaining.simps) (auto intro: wrote_flush)
  qed
qed

lemma write_batch_wrote:
  assumes "async_write_contract W sink" and "list_all outbound_ok batch"
  shows "wrote sink (sink w) (batch_bytes batch) (write_batch W batch w)"
proof (cases "batch = []")
  case False
  obtain r w' where rw: "write_vectored W (batch_slices batch) w = (r, w')" by fastforce
  show ?thesis
  proof (cases r)
    case (Inl e)
    with rw assms contract_write(1) [OF assms(1) rw [unfolded Inl]] False show ?thesis
      by (auto simp: write_batch_def intro: wrote_err [where k = 0])
  next
    case (Inr n)
    have sink: "sink w' = sink w @ take n (batch_bytes batch)"
      using contract_write(3) [OF assms(1) rw [unfolded Inr]] by (simp add: concat_batch_slices)
    with assms rw Inr False show ?thesis
      by (auto simp: write_batch_def Let_def total_size_eq
          intro: wrote_flush wrote_err write_remaining_wrote)
  qed
qed (auto simp: write_batch_def wrote_def)

section \<open>Progress\<close>

text \<open>A writer that neither fails nor refuses all of a non-empty write.\<close>

definition async_write_progress :: "'w async_write \<Rightarrow> bool" where
  "async_write_progress W \<longleftrightarrow>
     (\<forall>ss w. concat ss \<noteq> [] \<longrightarrow> (\<exists>n w'. write_vectored W ss w = (Inr n, w') \<and> 0 < n))
   \<and> (\<forall>w. \<exists>w'. flush W w = (Inr (), w'))"

lemma flush_batch_progress: "async_write_progress W \<Longrightarrow> fst (flush_batch W w) = Ok ()"
proof -
  assume "async_write_progress W"
  then obtain w' where "flush W w = (Inr (), w')" unfolding async_write_progress_def by blast
  then show ?thesis by (simp add: flush_batch_def)
qed

lemma write_remaining_progress:
  assumes "async_write_progress W" and "list_all outbound_ok batch"
  shows "fst (write_remaining W batch (length (batch_bytes batch)) k w) = Ok ()"
  using assms
proof (induction W batch "length (batch_bytes batch)" k w rule: write_remaining.induct)
  case (1 W batch k w)
  show ?case
  proof (cases "k < length (batch_bytes batch)")
    case True
    let ?ss = "build_remaining_slices batch k"
    have ne: "?ss \<noteq> []" using "1.prems"(2) True by (rule build_remaining_slices_nonempty)
    have "concat ?ss \<noteq> []" unfolding build_remaining_slices_spec(1) [OF "1.prems"(2)] using True by simp
    with "1.prems"(1) obtain n w' where rw: "write_vectored W ?ss w = (Inr n, w')" and "0 < n"
      unfolding async_write_progress_def by blast
    then have rw: "write_vectored W ?ss w = (Inr n, w')" "n \<noteq> 0" by simp_all
    with "1.hyps" [OF True refl ne rw(1) [symmetric] refl rw(2) "1.prems"] True ne
    show ?thesis by (subst write_remaining.simps) (simp add: Let_def)
  qed (subst write_remaining.simps, simp add: flush_batch_progress "1.prems")
qed

lemma outbound_bytes_ne [simp]: "outbound_ok f \<Longrightarrow> outbound_bytes f \<noteq> []"
  by (auto simp: outbound_ok_def outbound_bytes_def HEADER_SIZE_def)

lemma write_batch_progress:
  assumes "async_write_progress W" and "list_all outbound_ok batch"
  shows "fst (write_batch W batch w) = Ok ()"
proof (cases batch)
  case (Cons f fs)
  then have "concat (batch_slices batch) \<noteq> []"
    using assms(2) by (simp add: concat_batch_slices)
  with assms(1) obtain n w' where "write_vectored W (batch_slices batch) w = (Inr n, w')" "0 < n"
    unfolding async_write_progress_def by blast
  with assms Cons show ?thesis
    by (simp add: write_batch_def Let_def total_size_eq [of "f # fs", simplified]
        flush_batch_progress write_remaining_progress [of W "f # fs", simplified])
qed (simp add: write_batch_def)

section \<open>Properties\<close>

text \<open>A writer that takes four bytes at a time, for concrete runs.\<close>

definition trickle :: "bytes async_write" where
  "trickle = \<lparr>write_vectored = (\<lambda>ss w. (Inr (min 4 (length (concat ss))), w @ take 4 (concat ss))),
     flush = (\<lambda>w. (Inr (), w))\<rparr>"

lemma trickle_contract [simp]: "async_write_contract trickle id" "async_write_progress trickle"
  by (simp_all add: async_write_contract_def async_write_progress_def trickle_def min_def)

text \<open>C21. After a partial write of \<open>n\<close> bytes the rebuilt slices are exactly the rest of the
  batch, in order, with no empty slice, wherever the \<open>n\<close> bytes end: inside a header, inside a
  payload or between two frames.\<close>

theorem remaining_slices_are_rest:
  assumes "\<forall>f \<in> set batch. length (of_header f) = HEADER_SIZE"
  shows "concat (build_remaining_slices batch n)
      = drop n (concat (map (\<lambda>f. of_header f @ of_payload f) batch))
    \<and> [] \<notin> set (build_remaining_slices batch n)"
  using build_remaining_slices_spec [of batch n] assms
  by (simp add: list_all_iff outbound_ok_def batch_bytes_def outbound_bytes_def [abs_def])

theorem remaining_slices_are_rest_witness:
  "concat (build_remaining_slices [OutboundFrame_new (Header_new 1 3 42 2) [7, 8]] 12) = [8]"
  using remaining_slices_are_rest [of "[OutboundFrame_new (Header_new 1 3 42 2) [7, 8]]" 12]
  by (simp add: OutboundFrame_new_def HEADER_SIZE_def)

text \<open>C20. \<open>write_batch\<close> on a writer that keeps the \<open>AsyncWrite\<close> contract: it always returns;
  when it returns \<open>Ok\<close> exactly the bytes of the batch were written, every frame's header followed
  by its payload, in order and once; when it fails, what was written is a prefix of them.\<close>

theorem write_batch_delivers:
  assumes "async_write_contract W sink"
    and "\<forall>f \<in> set batch. length (of_header f) = HEADER_SIZE"
    and "bs = concat (map (\<lambda>f. of_header f @ of_payload f) batch)"
    and "write_batch W batch w = (r, w')"
  shows "(\<exists>k. sink w' = sink w @ take k bs) \<and> (r = Ok () \<longrightarrow> sink w' = sink w @ bs)"
proof -
  from assms(2) have okb: "list_all outbound_ok batch" by (simp add: list_all_iff outbound_ok_def)
  show ?thesis
    using write_batch_wrote [OF assms(1) okb, of w] assms(3,4)
    by (simp add: wrote_def batch_bytes_def outbound_bytes_def [abs_def])
qed

theorem write_batch_delivers_witness:
  "\<exists>k. snd (write_batch trickle [OutboundFrame_new (Header_new 1 3 42 2) [7, 8]] [9])
     = [9] @ take k (Header_encode (Header_new 1 3 42 2) @ [7, 8])"
  using write_batch_delivers [of trickle id "[OutboundFrame_new (Header_new 1 3 42 2) [7, 8]]"
      "Header_encode (Header_new 1 3 42 2) @ [7, 8]" "[9]",
      OF _ _ _ surjective_pairing]
  by (simp add: OutboundFrame_new_def HEADER_SIZE_def)

text \<open>\<open>write_batch\<close> completes: on a writer that does not fail and takes at least one byte of
  every non-empty write, it writes the whole batch and returns \<open>Ok\<close>, however short the writes
  are.\<close>

theorem write_batch_completes:
  assumes "async_write_contract W sink" and "async_write_progress W"
    and "\<forall>f \<in> set batch. length (of_header f) = HEADER_SIZE"
  shows "\<exists>w'. write_batch W batch w = (Ok (), w')
    \<and> sink w' = sink w @ concat (map (\<lambda>f. of_header f @ of_payload f) batch)"
proof -
  from assms(3) have okb: "list_all outbound_ok batch" by (simp add: list_all_iff outbound_ok_def)
  show ?thesis
    using write_batch_wrote [OF assms(1) okb, of w] write_batch_progress [OF assms(2) okb, of w]
    by (cases "write_batch W batch w")
      (auto simp: wrote_def batch_bytes_def outbound_bytes_def [abs_def])
qed

theorem write_batch_completes_witness:
  "\<exists>w'. write_batch trickle [OutboundFrame_new (Header_new 1 3 42 2) [7, 8]] [9] = (Ok (), w')
    \<and> w' = [9] @ Header_encode (Header_new 1 3 42 2) @ [7, 8]"
  using write_batch_completes [of trickle id "[OutboundFrame_new (Header_new 1 3 42 2) [7, 8]]" "[9]"]
  by (simp add: OutboundFrame_new_def HEADER_SIZE_def)

end
