(* ===== verification/Writer.thy ===== *)
theory Writer
  imports Write_Batch
begin

text \<open>
  The writer task and its handle (\<open>src/writer.rs\<close>). What a call of \<open>send\<close> or \<open>try_send\<close> meets
  (the values its loads of the shared counter return, the elapsed times, the channel's answer) is
  its environment, an argument; what it does to the counter is the list of its atomic operations.
  The receiving half of the channel is not part of the repository: it is the record \<open>receiver\<close>
  of the two functions the loop calls, and \<open>mpsc_contract\<close> states that it hands out frames in
  order. The loop runs on fuel, and more fuel than there are frames is enough.
\<close>

section \<open>Model\<close>

definition DEFAULT_MAX_PENDING_FRAMES :: usize where
  "DEFAULT_MAX_PENDING_FRAMES = 1024"
definition DEFAULT_CHANNEL_CAPACITY :: usize where
  "DEFAULT_CHANNEL_CAPACITY = 1024"
definition DEFAULT_BACKPRESSURE_TIMEOUT :: duration where
  "DEFAULT_BACKPRESSURE_TIMEOUT = from_secs 5"
definition MAX_BATCH_SIZE :: nat where
  "MAX_BATCH_SIZE = 64"

record WriterConfig =
  max_pending_frames :: usize
  channel_capacity :: usize
  backpressure_timeout :: duration

definition WriterConfig_default :: WriterConfig where
  "WriterConfig_default = \<lparr>max_pending_frames = DEFAULT_MAX_PENDING_FRAMES,
     channel_capacity = DEFAULT_CHANNEL_CAPACITY,
     backpressure_timeout = DEFAULT_BACKPRESSURE_TIMEOUT\<rparr>"

text \<open>The sending half of a channel is known by an address.\<close>

type_synonym sender = nat

record WriterHandle =
  wh_tx :: sender
  wh_pending :: arc
  wh_max_pending :: usize
  wh_timeout :: duration

definition WriterHandle_new :: "sender \<Rightarrow> arc \<Rightarrow> usize \<Rightarrow> duration \<Rightarrow> WriterHandle" where
  "WriterHandle_new tx pending max_pending timeout =
     \<lparr>wh_tx = tx, wh_pending = pending, wh_max_pending = max_pending, wh_timeout = timeout\<rparr>"

datatype pend_op = FetchAdd usize | FetchSub usize

fun pend_apply :: "pend_op \<Rightarrow> usize \<Rightarrow> usize" where
  "pend_apply (FetchAdd n) p = p + n"
| "pend_apply (FetchSub n) p = p - n"

text \<open>The answer of the channel is absent while \<open>tx.send\<close> waits for room.\<close>

record send_env =
  env_load :: usize
  env_rounds :: "(usize \<times> duration) list"
  env_accepts :: "bool option"

record send_out =
  out_result :: "(unit, ProcwireError) result option"
  out_ops :: "pend_op list"
  out_sent :: "OutboundFrame list"

fun wait_for_backpressure ::
  "WriterHandle \<Rightarrow> (usize \<times> duration) list \<Rightarrow> (unit, ProcwireError) result option" where
  "wait_for_backpressure self [] = None"
| "wait_for_backpressure self ((pending, elapsed) # rounds) =
     (if pending < wh_max_pending self then Some (Ok ())
      else if elapsed > wh_timeout self then Some (Err BackpressureTimeout)
      else wait_for_backpressure self rounds)"

definition send_accepted :: "OutboundFrame \<Rightarrow> bool option \<Rightarrow> send_out" where
  "send_accepted frame answer = (case answer of
     None \<Rightarrow> \<lparr>out_result = None, out_ops = [FetchAdd 1], out_sent = []\<rparr>
   | Some True \<Rightarrow> \<lparr>out_result = Some (Ok ()), out_ops = [FetchAdd 1], out_sent = [frame]\<rparr>
   | Some False \<Rightarrow> \<lparr>out_result = Some (Err ConnectionClosed),
       out_ops = [FetchAdd 1, FetchSub 1], out_sent = []\<rparr>)"

definition WriterHandle_send :: "WriterHandle \<Rightarrow> OutboundFrame \<Rightarrow> send_env \<Rightarrow> send_out" where
  "WriterHandle_send self frame env =
     (let current = env_load env;
          waited = (if current \<ge> wh_max_pending self
            then wait_for_backpressure self (env_rounds env) else Some (Ok ()))
      in case waited of
           None \<Rightarrow> \<lparr>out_result = None, out_ops = [], out_sent = []\<rparr>
         | Some (Inl e) \<Rightarrow> \<lparr>out_result = Some (Err e), out_ops = [], out_sent = []\<rparr>
         | Some (Inr _) \<Rightarrow> send_accepted frame (env_accepts env))"

definition is_backpressure_active :: "WriterHandle \<Rightarrow> heap \<Rightarrow> bool" where
  "is_backpressure_active self h \<longleftrightarrow> h (wh_pending self) \<ge> wh_max_pending self"

definition WriterHandle_pending_count :: "WriterHandle \<Rightarrow> heap \<Rightarrow> usize" where
  "WriterHandle_pending_count self h = h (wh_pending self)"

datatype TrySendError = Full | Closed

definition WriterHandle_try_send ::
  "WriterHandle \<Rightarrow> OutboundFrame \<Rightarrow> usize \<Rightarrow> (unit, TrySendError) result \<Rightarrow> send_out" where
  "WriterHandle_try_send self frame current answer =
     (if current \<ge> wh_max_pending self
      then \<lparr>out_result = Some (Err BackpressureTimeout), out_ops = [], out_sent = []\<rparr>
      else (case answer of
          Inr _ \<Rightarrow> \<lparr>out_result = Some (Ok ()), out_ops = [FetchAdd 1], out_sent = [frame]\<rparr>
        | Inl e \<Rightarrow> \<lparr>out_result = Some (Err (case e of Full \<Rightarrow> BackpressureTimeout
              | Closed \<Rightarrow> ConnectionClosed)),
            out_ops = [FetchAdd 1, FetchSub 1], out_sent = []\<rparr>))"

text \<open>The channel constructor is the argument \<open>mpsc_channel\<close>; it panics on capacities it does not
  support. The task it spawns is \<open>writer_loop\<close>.\<close>

definition spawn_writer_task ::
  "(usize \<Rightarrow> (sender, fault) result) \<Rightarrow> WriterConfig \<Rightarrow> arc \<Rightarrow> heap \<Rightarrow>
     (WriterHandle \<times> heap, fault) result" where
  "spawn_writer_task mpsc_channel config a h =
     and_then (mpsc_channel (channel_capacity config)) (\<lambda>tx.
       Ok (WriterHandle_new tx a (max_pending_frames config) (backpressure_timeout config),
         h(a := 0)))"

definition spawn_writer_task_default ::
  "(usize \<Rightarrow> (sender, fault) result) \<Rightarrow> arc \<Rightarrow> heap \<Rightarrow> (WriterHandle \<times> heap, fault) result" where
  "spawn_writer_task_default mpsc_channel = spawn_writer_task mpsc_channel WriterConfig_default"

record 'c receiver =
  recv :: "'c \<Rightarrow> OutboundFrame option \<times> 'c"
  try_recv :: "'c \<Rightarrow> OutboundFrame option \<times> 'c"

function collect_batch ::
  "'c receiver \<Rightarrow> OutboundFrame list \<Rightarrow> 'c \<Rightarrow> OutboundFrame list \<times> 'c" where
  "collect_batch R batch c =
     (if length batch < MAX_BATCH_SIZE then
        (case try_recv R c of
           (Some frame, c) \<Rightarrow> collect_batch R (batch @ [frame]) c
         | (None, c) \<Rightarrow> (batch, c))
      else (batch, c))"
  by auto
termination
  by (relation "measure (\<lambda>(R, batch, c). MAX_BATCH_SIZE - length batch)") auto

declare collect_batch.simps [simp del]

fun writer_loop ::
  "nat \<Rightarrow> 'c receiver \<Rightarrow> 'w async_write \<Rightarrow> 'c \<Rightarrow> 'w \<Rightarrow>
     (unit, ProcwireError) result option \<times> pend_op list \<times> 'c \<times> 'w" where
  "writer_loop 0 R W c w = (None, [], c, w)"
| "writer_loop (Suc n) R W c w = (case recv R c of
     (None, c) \<Rightarrow> (Some (Ok ()), [], c, w)
   | (Some first, c) \<Rightarrow> (case collect_batch R [first] c of (batch, c) \<Rightarrow>
       (case write_batch W batch w of
          (Inl e, w) \<Rightarrow> (Some (Err e), [], c, w)
        | (Inr _, w) \<Rightarrow> (case writer_loop n R W c w of (r, ops, c, w) \<Rightarrow>
            (r, FetchSub (of_nat (length batch)) # ops, c, w)))))"

section \<open>Sending\<close>

fun net_pending :: "pend_op list \<Rightarrow> usize \<Rightarrow> usize" where
  "net_pending [] p = p"
| "net_pending (x # xs) p = net_pending xs (pend_apply x p)"

lemma wait_for_backpressure_result:
  "wait_for_backpressure self rounds = Some r \<Longrightarrow>
     r = Ok () \<and> (\<exists>x \<in> set rounds. fst x < wh_max_pending self)
   \<or> r = Err BackpressureTimeout \<and> (\<exists>x \<in> set rounds. wh_timeout self < snd x)"
  by (induction self rounds rule: wait_for_backpressure.induct) (auto split: if_splits)

lemma wait_for_backpressure_returns:
  "\<exists>x \<in> set rounds. fst x < wh_max_pending self \<or> wh_timeout self < snd x \<Longrightarrow>
   \<exists>r. wait_for_backpressure self rounds = Some r"
  by (induction self rounds rule: wait_for_backpressure.induct) auto

lemmas send_defs = WriterHandle_send_def send_accepted_def Let_def

lemma send_room:
  "env_load env < wh_max_pending self \<Longrightarrow> env_accepts env = Some True \<Longrightarrow>
   WriterHandle_send self frame env
     = \<lparr>out_result = Some (Ok ()), out_ops = [FetchAdd 1], out_sent = [frame]\<rparr>"
  by (auto simp: send_defs)

text \<open>How a finished send relates its result, its effect on the counter and the channel.\<close>

definition send_accounted :: "OutboundFrame \<Rightarrow> send_out \<Rightarrow> bool" where
  "send_accounted frame out \<longleftrightarrow> (case out_result out of
     None \<Rightarrow> out_sent out = []
   | Some (Inr _) \<Rightarrow> out_sent out = [frame] \<and> (\<forall>p. net_pending (out_ops out) p = p + 1)
   | Some (Inl e) \<Rightarrow> out_sent out = [] \<and> (\<forall>p. net_pending (out_ops out) p = p)
       \<and> e \<in> {BackpressureTimeout, ConnectionClosed})"

lemma send_accounted_send: "send_accounted frame (WriterHandle_send self frame env)"
  by (auto simp: send_accounted_def send_defs split: option.splits sum.splits bool.splits
      dest: wait_for_backpressure_result)

lemma send_accounted_try_send:
  "send_accounted frame (WriterHandle_try_send self frame current answer)"
  by (auto simp: send_accounted_def WriterHandle_try_send_def
      split: sum.splits TrySendError.splits)

section \<open>The interface of a sender\<close>

text \<open>What the users of a handle rely on, whichever way they send.\<close>

locale frame_sender =
  fixes snd_frame :: "OutboundFrame \<Rightarrow> 'env \<Rightarrow> send_out"
  assumes accounted: "send_accounted frame (snd_frame frame env)"
begin

lemma sent_eq:
  "out_sent (snd_frame f env) = (if out_result (snd_frame f env) = Some (Ok ()) then [f] else [])"
  using accounted [of f env] by (auto simp: send_accounted_def split: option.splits sum.splits)

lemma net_eq:
  "out_result (snd_frame f env) \<noteq> None \<Longrightarrow>
   net_pending (out_ops (snd_frame f env)) p = p + of_nat (length (out_sent (snd_frame f env)))"
  using accounted [of f env] by (auto simp: send_accounted_def split: option.splits sum.splits)

lemma error_cases:
  "out_result (snd_frame f env) = Some (Err e) \<Longrightarrow> e = BackpressureTimeout \<or> e = ConnectionClosed"
  using accounted [of f env] by (auto simp: send_accounted_def)

lemma net_pending_append: "net_pending (xs @ ys) p = net_pending ys (net_pending xs p)"
  by (induction xs arbitrary: p) auto

lemma send_many_net:
  "\<forall>(f, env) \<in> set fes. out_result (snd_frame f env) \<noteq> None \<Longrightarrow>
   net_pending (concat (map (\<lambda>(f, env). out_ops (snd_frame f env)) fes)) p
     = p + of_nat (length (concat (map (\<lambda>(f, env). out_sent (snd_frame f env)) fes)))"
  by (induction fes arbitrary: p) (auto simp: net_pending_append net_eq)

end

interpretation ws: frame_sender "WriterHandle_send self" for self
  by unfold_locales (rule send_accounted_send)

interpretation wts: frame_sender "\<lambda>f (current, answer). WriterHandle_try_send self f current answer"
  for self
  by unfold_locales (simp add: send_accounted_try_send split: prod.split)

section \<open>The receiving side\<close>

definition mpsc_contract :: "'c receiver \<Rightarrow> ('c \<Rightarrow> OutboundFrame list) \<Rightarrow> bool" where
  "mpsc_contract R q \<longleftrightarrow> (\<forall>c.
     (case recv R c of (Some f, c') \<Rightarrow> q c = f # q c' | (None, c') \<Rightarrow> q c = [] \<and> q c' = [])
   \<and> (case try_recv R c of (Some f, c') \<Rightarrow> q c = f # q c' | (None, c') \<Rightarrow> q c' = q c))"

lemma contract_recv:
  assumes "mpsc_contract R q"
  shows "recv R c = (Some f, c') \<Longrightarrow> q c = f # q c'"
    and "recv R c = (None, c') \<Longrightarrow> q c = [] \<and> q c' = []"
    and "try_recv R c = (Some f, c') \<Longrightarrow> q c = f # q c'"
    and "try_recv R c = (None, c') \<Longrightarrow> q c' = q c"
proof -
  from assms have
    "case recv R c of (Some f, c') \<Rightarrow> q c = f # q c' | (None, c') \<Rightarrow> q c = [] \<and> q c' = []"
    "case try_recv R c of (Some f, c') \<Rightarrow> q c = f # q c' | (None, c') \<Rightarrow> q c' = q c"
    by (simp_all add: mpsc_contract_def)
  then show "recv R c = (Some f, c') \<Longrightarrow> q c = f # q c'"
    and "recv R c = (None, c') \<Longrightarrow> q c = [] \<and> q c' = []"
    and "try_recv R c = (Some f, c') \<Longrightarrow> q c = f # q c'"
    and "try_recv R c = (None, c') \<Longrightarrow> q c' = q c"
    by simp_all
qed

lemma collect_batch_spec:
  assumes "mpsc_contract R q" and "collect_batch R batch c = (batch', c')"
    and "length batch \<le> MAX_BATCH_SIZE"
  shows "batch' @ q c' = batch @ q c \<and> length batch \<le> length batch'
    \<and> length batch' \<le> MAX_BATCH_SIZE"
  using assms
proof (induction R batch c rule: collect_batch.induct)
  case (1 R batch c)
  show ?case
  proof (cases "length batch < MAX_BATCH_SIZE")
    case True
    obtain o' c1 where t: "try_recv R c = (o', c1)" by fastforce
    show ?thesis
    proof (cases o')
      case None
      with t True "1.prems" contract_recv(4) [OF "1.prems"(1)] show ?thesis
        by (subst (asm) collect_batch.simps) auto
    next
      case (Some f)
      with "1.prems"(2) True t have "collect_batch R (batch @ [f]) c1 = (batch', c')"
        by (subst (asm) collect_batch.simps) simp
      with "1.IH" [OF True t [symmetric] Some "1.prems"(1)] True
        contract_recv(3) [OF "1.prems"(1) t [unfolded Some]]
      show ?thesis by simp
    qed
  next
    case False
    with "1.prems" show ?thesis by (subst (asm) collect_batch.simps) auto
  qed
qed

fun released :: "pend_op list \<Rightarrow> nat" where
  "released [] = 0"
| "released (FetchSub n # ops) = unat n + released ops"
| "released (FetchAdd n # ops) = released ops"

text \<open>How a run of the loop relates the frames to come (\<open>fs\<close>), the number of frames it has
  released in the counter and what it gave the writer.\<close>

definition delivered ::
  "OutboundFrame list \<Rightarrow> bytes \<Rightarrow> bytes \<Rightarrow> nat \<Rightarrow> bool" where
  "delivered fs old new m \<longleftrightarrow> m \<le> length fs \<and>
     (\<exists>rest suf. new = old @ batch_bytes (take m fs) @ rest
        \<and> batch_bytes (drop m fs) = rest @ suf)"

lemma delivered_batch:
  "delivered fs (old @ batch_bytes batch) new m \<Longrightarrow>
   delivered (batch @ fs) old new (length batch + m)"
  by (auto simp: delivered_def)

lemma delivered_zero: "new = old @ take k (batch_bytes batch) \<Longrightarrow> delivered (batch @ fs) old new 0"
  unfolding delivered_def by simp (metis append.assoc append_take_drop_id)

lemma delivered_refl: "delivered fs old old 0"
  by (auto simp: delivered_def)

lemma delivered_all: "delivered fs old new (length fs) \<Longrightarrow> new = old @ batch_bytes fs"
  by (auto simp: delivered_def)

lemma recv_batch:
  assumes "mpsc_contract R q" and "recv R c = (Some f, c1)" and "collect_batch R [f] c1 = (batch, c2)"
  shows "q c = batch @ q c2" and "unat (of_nat (length batch) :: usize) = length batch"
    and "length (q c2) < length (q c)"
proof -
  have b: "batch @ q c2 = [f] @ q c1 \<and> length [f] \<le> length batch \<and> length batch \<le> MAX_BATCH_SIZE"
    using collect_batch_spec [OF assms(1,3)] by (simp add: MAX_BATCH_SIZE_def)
  then show qc: "q c = batch @ q c2" using contract_recv(1) [OF assms(1,2)] by simp
  from b have "batch \<noteq> []" by auto
  then show "length (q c2) < length (q c)" unfolding qc by simp
  from b have "length batch < 2 ^ 64" by (simp add: MAX_BATCH_SIZE_def)
  then show "unat (of_nat (length batch) :: usize) = length batch"
    by (simp add: unat_of_nat take_bit_eq_mod)
qed

lemma writer_loop_delivered:
  assumes "mpsc_contract R q" and "async_write_contract W sink"
  shows "list_all outbound_ok (q c) \<Longrightarrow> writer_loop n R W c w = (r, ops, c', w') \<Longrightarrow>
    delivered (q c) (sink w) (sink w') (released ops)
    \<and> (r = Some (Ok ()) \<longrightarrow> released ops = length (q c)) \<and> (length (q c) < n \<longrightarrow> r \<noteq> None)"
proof (induction n arbitrary: c w r ops)
  case (Suc n)
  obtain x c1 where rv: "recv R c = (x, c1)" by fastforce
  show ?case
  proof (cases x)
    case None
    with rv Suc.prems contract_recv(2) [OF assms(1), of c c1] show ?thesis
      by (auto simp: delivered_refl)
  next
    case (Some f)
    obtain batch c2 where cb: "collect_batch R [f] c1 = (batch, c2)" by fastforce
    note b = recv_batch [OF assms(1) rv [unfolded Some] cb]
    obtain wr w2 where wb: "write_batch W batch w = (wr, w2)" by fastforce
    have wrote: "wrote sink (sink w) (batch_bytes batch) (wr, w2)"
      using write_batch_wrote [OF assms(2), of batch w] Suc.prems(1) b(1) wb by simp
    show ?thesis
    proof (cases wr)
      case (Inl e)
      with Suc.prems rv Some cb wb have "r = Some (Err e)" "ops = []" "w' = w2" by auto
      with wrote b(1) show ?thesis by (auto simp: wrote_def intro: delivered_zero)
    next
      case (Inr u)
      obtain ops2 where lp: "writer_loop n R W c2 w2 = (r, ops2, c', w')"
        and ops: "ops = FetchSub (of_nat (length batch)) # ops2"
        using Suc.prems(2) rv Some cb wb Inr by (auto split: prod.splits)
      have "sink w2 = sink w @ batch_bytes batch" using wrote Inr by (simp add: wrote_def)
      moreover have "list_all outbound_ok (q c2)" using Suc.prems(1) b(1) by simp
      moreover have "length (q c) < Suc n \<longrightarrow> length (q c2) < n" using b(3) by (simp del: length_append)
      ultimately show ?thesis
        using Suc.IH [OF _ lp] b(1,2) ops by (auto intro: delivered_batch)
    qed
  qed
qed (auto simp: delivered_refl)

lemma writer_loop_progress:
  assumes "mpsc_contract R q" and "async_write_progress W"
  shows "list_all outbound_ok (q c) \<Longrightarrow> length (q c) < n \<Longrightarrow>
    fst (writer_loop n R W c w) = Some (Ok ())"
proof (induction n arbitrary: c w)
  case (Suc n)
  obtain x c1 where rv: "recv R c = (x, c1)" by fastforce
  show ?case
  proof (cases x)
    case (Some f)
    obtain batch c2 where cb: "collect_batch R [f] c1 = (batch, c2)" by fastforce
    note b = recv_batch [OF assms(1) rv [unfolded Some] cb]
    obtain w2 where wb: "write_batch W batch w = (Inr (), w2)"
      using write_batch_progress [OF assms(2), of batch w] Suc.prems(1) b(1)
      by (cases "write_batch W batch w") auto
    have "length (q c2) < n" using Suc.prems(2) b(3) by (simp del: length_append)
    with Suc.IH [of c2 w2] Suc.prems(1) b(1) rv Some cb wb show ?thesis
      by (auto split: prod.splits)
  qed (simp add: rv)
qed simp

section \<open>Properties\<close>

text \<open>A channel that is closed after the frames it holds, for concrete runs.\<close>

definition drained :: "OutboundFrame list receiver" where
  "drained = \<lparr>recv = (\<lambda>fs. case fs of [] \<Rightarrow> (None, []) | f # fs \<Rightarrow> (Some f, fs)),
     try_recv = (\<lambda>fs. case fs of [] \<Rightarrow> (None, []) | f # fs \<Rightarrow> (Some f, fs))\<rparr>"

lemma drained_contract [simp]: "mpsc_contract drained id"
  by (simp add: mpsc_contract_def drained_def split: list.split)

text \<open>C22. Accounting of \<open>send\<close>: if it returns \<open>Ok\<close>, the frame is in the channel exactly once and
  the counter is up by one; if it returns an error, which is \<open>BackpressureTimeout\<close> or
  \<open>ConnectionClosed\<close>, the frame is not in the channel and its operations on the counter cancel
  out, also when the counter wraps around.\<close>

theorem send_accounting:
  "case WriterHandle_send self frame env of out \<Rightarrow> (case out_result out of
     None \<Rightarrow> out_sent out = []
   | Some (Inr _) \<Rightarrow> out_sent out = [frame] \<and> (\<forall>p. net_pending (out_ops out) p = p + 1)
   | Some (Inl e) \<Rightarrow> out_sent out = [] \<and> (\<forall>p. net_pending (out_ops out) p = p)
       \<and> e \<in> {BackpressureTimeout, ConnectionClosed})"
  using send_accounted_send [of frame self env] by (simp add: send_accounted_def)

text \<open>\<open>send\<close> does not wait for ever on backpressure: once one of its looks at the counter finds
  room, or one of its looks at the clock is past the timeout, the waiting is over; if every look
  found the counter at the maximum it ends with \<open>BackpressureTimeout\<close> and touches nothing.\<close>

theorem send_backpressure_timeout:
  assumes "wh_max_pending self \<le> env_load env"
    and "\<forall>x \<in> set (env_rounds env). wh_max_pending self \<le> fst x"
    and "\<exists>x \<in> set (env_rounds env). wh_timeout self < snd x"
  shows "WriterHandle_send self frame env
    = \<lparr>out_result = Some (Err BackpressureTimeout), out_ops = [], out_sent = []\<rparr>"
proof -
  from assms(3) obtain r where r: "wait_for_backpressure self (env_rounds env) = Some r"
    using wait_for_backpressure_returns by blast
  with wait_for_backpressure_result [OF r] assms(1,2) show ?thesis
    by (auto simp: send_defs not_le [symmetric])
qed

theorem send_backpressure_timeout_witness:
  "WriterHandle_send (WriterHandle_new 0 0 1 10) (OutboundFrame_empty (Header_new 1 35 42 0))
     \<lparr>env_load = 1, env_rounds = [(1, 0), (2, 11)], env_accepts = Some True\<rparr>
   = \<lparr>out_result = Some (Err BackpressureTimeout), out_ops = [], out_sent = []\<rparr>"
  by (rule send_backpressure_timeout) (simp_all add: WriterHandle_new_def)

text \<open>C18. The writer task, on any writer that keeps the \<open>AsyncWrite\<close> contract and any channel that
  hands out frames in order: with more fuel than frames it returns; the bytes written are the
  frames released in the counter, whole and in the order of the channel, followed by a prefix of
  the remaining ones, so nothing is written twice, reordered or released unwritten; and a clean
  return means that every frame was written and released.\<close>

theorem writer_loop_fifo:
  assumes "mpsc_contract R q" and "async_write_contract W sink"
    and "\<forall>f \<in> set (q c). length (of_header f) = HEADER_SIZE"
    and "writer_loop n R W c w = (r, ops, c', w')" and "length (q c) < n"
  shows "r \<noteq> None \<and> (\<exists>rest suf.
      sink w' = sink w @ batch_bytes (take (released ops) (q c)) @ rest
      \<and> batch_bytes (drop (released ops) (q c)) = rest @ suf)
    \<and> (r = Some (Ok ()) \<longrightarrow> released ops = length (q c) \<and> sink w' = sink w @ batch_bytes (q c))"
proof -
  from assms(3) have "list_all outbound_ok (q c)" by (simp add: list_all_iff outbound_ok_def)
  from writer_loop_delivered [OF assms(1,2) this assms(4)] assms(5)
  show ?thesis using delivered_all [of "q c" "sink w" "sink w'"] by (auto simp: delivered_def)
qed

theorem writer_loop_fifo_witness:
  "fst (writer_loop 3 drained trickle [OutboundFrame_empty (Header_new 1 35 42 0)] []) \<noteq> None"
proof -
  let ?fs = "[OutboundFrame_empty (Header_new 1 35 42 0)]"
  obtain r ops c' w' where e: "writer_loop 3 drained trickle ?fs [] = (r, ops, c', w')"
    by (rule prod_cases4)
  from writer_loop_fifo [OF drained_contract trickle_contract(1) _ e] e show ?thesis
    by (simp add: OutboundFrame_empty_def HEADER_SIZE_def)
qed

text \<open>C19. The writer task drains the channel: if the writer makes progress and the channel is
  closed after the frames it holds, the task writes all of them in order, releases each once and
  returns \<open>Ok\<close>.\<close>

theorem writer_loop_drains:
  assumes "mpsc_contract R q" and "async_write_contract W sink" and "async_write_progress W"
    and "\<forall>f \<in> set (q c). length (of_header f) = HEADER_SIZE" and "length (q c) < n"
  shows "\<exists>ops c' w'. writer_loop n R W c w = (Some (Ok ()), ops, c', w')
    \<and> released ops = length (q c) \<and> sink w' = sink w @ batch_bytes (q c)"
proof -
  from assms(4) have ok: "list_all outbound_ok (q c)" by (simp add: list_all_iff outbound_ok_def)
  obtain ops c' w' where e: "writer_loop n R W c w = (Some (Ok ()), ops, c', w')"
    using writer_loop_progress [OF assms(1,3) ok assms(5), of w]
    by (cases "writer_loop n R W c w") auto
  from writer_loop_delivered [OF assms(1,2) ok e] e show ?thesis
    using delivered_all [of "q c" "sink w" "sink w'"] by auto
qed

theorem writer_loop_drains_witness:
  "\<exists>ops c' w'. writer_loop 3 drained trickle [OutboundFrame_empty (Header_new 1 35 42 0)] []
      = (Some (Ok ()), ops, c', w')
    \<and> released ops = 1 \<and> w' = Header_encode (Header_new 1 35 42 0)"
  using writer_loop_drains [of drained id trickle id "[OutboundFrame_empty (Header_new 1 35 42 0)]"
      3 "[]"]
  by (simp add: build_frame_eq) (simp add: OutboundFrame_empty_def HEADER_SIZE_def)

end
