(* ===== verification/Codec.thy ===== *)
theory Codec
  imports Errors
begin

text \<open>
  The payload codecs (\<open>src/codec/raw.rs\<close>, \<open>src/codec/msgpack.rs\<close>). The serialiser \<open>rmp_serde\<close> is
  not part of the repository: its functions are fields of the record \<open>msgpack\<close>, an argument of
  the definitions that use it. Serde is generic in the value; the development has one type \<open>'v\<close> of
  values, and strings as a second instance, since error messages are strings.
\<close>

definition RawCodec_serialize :: "bytes \<Rightarrow> bytes" where
  "RawCodec_serialize data = data"
definition RawCodec_serialize_bytes :: "bytes \<Rightarrow> bytes" where
  "RawCodec_serialize_bytes data = data"
definition RawCodec_deserialize :: "bytes \<Rightarrow> bytes" where
  "RawCodec_deserialize data = data"
definition RawCodec_deserialize_bytes :: "bytes \<Rightarrow> bytes" where
  "RawCodec_deserialize_bytes data = data"

record 'v msgpack =
  to_vec_named :: "'v \<Rightarrow> (bytes, rstr) result"
  to_vec_named_str :: "rstr \<Rightarrow> (bytes, rstr) result"
  from_slice :: "bytes \<Rightarrow> ('v, rstr) result"

definition MsgPackCodec_encode :: "'v msgpack \<Rightarrow> 'v \<Rightarrow> (bytes, ProcwireError) result" where
  "MsgPackCodec_encode C v = (case to_vec_named C v of
     Inl e \<Rightarrow> Err (MsgPackEncode e) | Inr b \<Rightarrow> Ok b)"

definition MsgPackCodec_encode_str :: "'v msgpack \<Rightarrow> rstr \<Rightarrow> (bytes, ProcwireError) result" where
  "MsgPackCodec_encode_str C s = (case to_vec_named_str C s of
     Inl e \<Rightarrow> Err (MsgPackEncode e) | Inr b \<Rightarrow> Ok b)"

definition MsgPackCodec_decode :: "'v msgpack \<Rightarrow> bytes \<Rightarrow> ('v, ProcwireError) result" where
  "MsgPackCodec_decode C b = (case from_slice C b of
     Inl e \<Rightarrow> Err (MsgPackDecode e) | Inr v \<Rightarrow> Ok v)"

end
