(* ===== verification/Init_Message.thy ===== *)
theory Init_Message
  imports Errors
begin

text \<open>
  The \<open>$init\<close> message (\<open>src/control/init.rs\<close>). A \<open>HashMap\<close> is a finite map, and so is a JSON
  object, since the keys of a \<open>serde_json::Map\<close> are unique. \<open>serde_json::to_string\<close> is not part of
  the repository: it is an argument. The legacy structures are the values their derived
  \<open>Serialize\<close> gives.
\<close>

section \<open>Model\<close>

datatype ResponseType = RResult | RStream | RAck | RNone

datatype json =
    JNull
  | JBool bool
  | JNumber nat
  | JString rstr
  | JArray "json list"
  | JObject "rstr \<Rightarrow> json option"

text \<open>The derived \<open>Serialize\<close> with \<open>rename_all = "lowercase"\<close>.\<close>

definition ResponseType_serialize :: "ResponseType \<Rightarrow> json" where
  "ResponseType_serialize r = JString (case r of
     RResult \<Rightarrow> ''result'' | RStream \<Rightarrow> ''stream'' | RAck \<Rightarrow> ''ack'' | RNone \<Rightarrow> ''none'')"

record MethodSchema =
  ms_id :: u16
  ms_response :: ResponseType

record EventSchema =
  es_id :: u16

record InitSchema =
  schema_methods :: "rstr \<Rightarrow> MethodSchema option"
  schema_events :: "rstr \<Rightarrow> EventSchema option"

definition InitSchema_new :: InitSchema where
  "InitSchema_new = \<lparr>schema_methods = Map.empty, schema_events = Map.empty\<rparr>"

definition add_method :: "rstr \<Rightarrow> u16 \<Rightarrow> ResponseType \<Rightarrow> InitSchema \<Rightarrow> InitSchema" where
  "add_method name i response s =
     s\<lparr>schema_methods := (schema_methods s)(name \<mapsto> \<lparr>ms_id = i, ms_response = response\<rparr>)\<rparr>"

definition add_event :: "rstr \<Rightarrow> u16 \<Rightarrow> InitSchema \<Rightarrow> InitSchema" where
  "add_event name i s = s\<lparr>schema_events := (schema_events s)(name \<mapsto> \<lparr>es_id = i\<rparr>)\<rparr>"

definition get_method :: "rstr \<Rightarrow> InitSchema \<Rightarrow> MethodSchema option" where
  "get_method name s = schema_methods s name"

definition get_event :: "rstr \<Rightarrow> InitSchema \<Rightarrow> EventSchema option" where
  "get_event name s = schema_events s name"

definition InitSchema_is_empty :: "InitSchema \<Rightarrow> bool" where
  "InitSchema_is_empty s \<longleftrightarrow> schema_methods s = Map.empty \<and> schema_events s = Map.empty"

definition PROTOCOL_VERSION :: rstr where
  "PROTOCOL_VERSION = ''1.0.0''"

definition method_json :: "MethodSchema \<Rightarrow> json" where
  "method_json m = JObject [''id'' \<mapsto> JNumber (unat (ms_id m)),
     ''response'' \<mapsto> ResponseType_serialize (ms_response m)]"

definition event_json :: "EventSchema \<Rightarrow> json" where
  "event_json e = JObject [''id'' \<mapsto> JNumber (unat (es_id e))]"

definition init_value :: "rstr \<Rightarrow> InitSchema \<Rightarrow> json" where
  "init_value pipe_path schema =
     (let methods = (\<lambda>name. map_option method_json (schema_methods schema name));
          events = (\<lambda>name. map_option event_json (schema_events schema name))
      in JObject [
        ''jsonrpc'' \<mapsto> JString ''2.0'',
        ''method'' \<mapsto> JString ''$init'',
        ''params'' \<mapsto> JObject [
          ''pipe'' \<mapsto> JString pipe_path,
          ''schema'' \<mapsto> JObject [
            ''methods'' \<mapsto> JObject methods,
            ''events'' \<mapsto> JObject events],
          ''version'' \<mapsto> JString PROTOCOL_VERSION]])"

definition build_init_message ::
  "(json \<Rightarrow> (rstr, rstr) result) \<Rightarrow> rstr \<Rightarrow> InitSchema \<Rightarrow> (rstr, fault) result" where
  "build_init_message to_string pipe_path schema =
     (case to_string (init_value pipe_path schema) of
        Inl e \<Rightarrow> Err (Panic (''JSON serialization should not fail: '' @ e))
      | Inr s \<Rightarrow> Ok s)"

record MethodDef =
  md_id :: u16

record EventDef =
  ed_id :: u16

record Schema =
  legacy_methods :: "rstr \<Rightarrow> MethodDef option"
  legacy_events :: "rstr \<Rightarrow> EventDef option"

record InitParams =
  pipe_path :: rstr
  params_schema :: Schema

record InitMessage =
  im_jsonrpc :: rstr
  im_method :: rstr
  im_params :: InitParams

definition InitMessage_new :: "rstr \<Rightarrow> Schema \<Rightarrow> InitMessage" where
  "InitMessage_new p s = \<lparr>im_jsonrpc = ''2.0'', im_method = ''$init'',
     im_params = \<lparr>pipe_path = p, params_schema = s\<rparr>\<rparr>"

section \<open>Reading a message back\<close>

text \<open>What a reader of the message sees: \<open>Value::get\<close> on objects, and the path to an entry.\<close>

definition json_get :: "json \<Rightarrow> rstr \<Rightarrow> json option" where
  "json_get v k = (case v of JObject m \<Rightarrow> m k | _ \<Rightarrow> None)"

fun json_path :: "json \<Rightarrow> rstr list \<Rightarrow> json option" where
  "json_path v [] = Some v"
| "json_path v (k # ks) = (case json_get v k of None \<Rightarrow> None | Some v' \<Rightarrow> json_path v' ks)"

lemma json_get_simps [simp]:
  "json_get (JObject m) k = m k" "json_get (JString s) k = None" "json_get (JNumber n) k = None"
  by (simp_all add: json_get_def)

lemma ResponseType_serialize_inj: "ResponseType_serialize a = ResponseType_serialize b \<longleftrightarrow> a = b"
  by (cases a; cases b) (simp_all add: ResponseType_serialize_def)

lemma method_json_inj: "method_json a = method_json b \<longleftrightarrow> a = b"
proof
  assume "method_json a = method_json b"
  then have "json_get (method_json a) ''id'' = json_get (method_json b) ''id''"
    "json_get (method_json a) ''response'' = json_get (method_json b) ''response''"
    by simp_all
  then show "a = b"
    by (cases a; cases b) (simp add: method_json_def ResponseType_serialize_inj word_unat_eq_iff)
qed simp

lemma event_json_inj: "event_json a = event_json b \<longleftrightarrow> a = b"
proof
  assume "event_json a = event_json b"
  then have "json_get (event_json a) ''id'' = json_get (event_json b) ''id''" by simp
  then show "a = b" by (cases a; cases b) (simp add: event_json_def word_unat_eq_iff)
qed simp

lemma init_value_paths:
  "json_path (init_value p s) [''jsonrpc''] = Some (JString ''2.0'')"
  "json_path (init_value p s) [''method''] = Some (JString ''$init'')"
  "json_path (init_value p s) [''params'', ''pipe''] = Some (JString p)"
  "json_path (init_value p s) [''params'', ''version''] = Some (JString PROTOCOL_VERSION)"
  "json_path (init_value p s) [''params'', ''schema'', ''methods'', name]
     = map_option method_json (schema_methods s name)"
  "json_path (init_value p s) [''params'', ''schema'', ''events'', name]
     = map_option event_json (schema_events s name)"
  by (simp_all add: init_value_def Let_def split: option.split)

declare json_path.simps [simp del]

lemma init_value_inj: "init_value p s = init_value p' s' \<longleftrightarrow> p = p' \<and> s = s'"
proof
  assume eq: "init_value p s = init_value p' s'"
  have "p = p'" using arg_cong [OF eq, of "\<lambda>v. json_path v [''params'', ''pipe'']"]
    by (simp add: init_value_paths)
  moreover have "schema_methods s name = schema_methods s' name" for name
    using arg_cong [OF eq, of "\<lambda>v. json_path v [''params'', ''schema'', ''methods'', name]"]
    by (simp add: init_value_paths) (metis method_json_inj option.inj_map_strong)
  moreover have "schema_events s name = schema_events s' name" for name
    using arg_cong [OF eq, of "\<lambda>v. json_path v [''params'', ''schema'', ''events'', name]"]
    by (simp add: init_value_paths) (metis event_json_inj option.inj_map_strong)
  ultimately show "p = p' \<and> s = s'" by (simp add: fun_eq_iff)
qed simp

text \<open>What \<open>serde_json\<close> promises: parsing a printed value gives the value back.\<close>

definition json_roundtrip :: "(json \<Rightarrow> (rstr, rstr) result) \<Rightarrow> (rstr \<Rightarrow> (json, rstr) result) \<Rightarrow> bool" where
  "json_roundtrip to_string from_str \<longleftrightarrow> (\<forall>v s. to_string v = Inr s \<longrightarrow> from_str s = Inr v)"

section \<open>Properties\<close>

text \<open>C32. The \<open>$init\<close> message announces exactly the schema: whatever JSON printer and parser are
  used, if parsing gives back what was printed, then a reader of the message finds the pipe path,
  the protocol version and, under every name, the id and the response type of the method or event
  of that name and nothing else; in particular two different schemas or paths have different
  messages.\<close>

theorem init_message_announces_schema:
  assumes "json_roundtrip to_string from_str"
    and "build_init_message to_string pipe schema = Ok msg"
  shows "\<exists>v. from_str msg = Inr v
    \<and> json_path v [''method''] = Some (JString ''$init'')
    \<and> json_path v [''params'', ''pipe''] = Some (JString pipe)
    \<and> json_path v [''params'', ''version''] = Some (JString ''1.0.0'')
    \<and> (\<forall>name. json_path v [''params'', ''schema'', ''methods'', name]
         = map_option method_json (get_method name schema))
    \<and> (\<forall>name. json_path v [''params'', ''schema'', ''events'', name]
         = map_option event_json (get_event name schema))
    \<and> (\<forall>pipe' schema'. build_init_message to_string pipe' schema' = Ok msg
         \<longrightarrow> pipe' = pipe \<and> schema' = schema)"
proof -
  have msg: "from_str m = Inr (init_value p s)" if "build_init_message to_string p s = Ok m" for p s m
    using that assms(1) by (auto simp: build_init_message_def json_roundtrip_def split: sum.splits)
  show ?thesis
  proof (intro exI conjI allI impI)
    show "from_str msg = Inr (init_value pipe schema)" using assms(2) by (rule msg)
    fix pipe' schema' assume "build_init_message to_string pipe' schema' = Ok msg"
    from msg [OF this] msg [OF assms(2)] show "pipe' = pipe" "schema' = schema"
      by (simp_all add: init_value_inj)
  qed (simp_all only: init_value_paths PROTOCOL_VERSION_def get_method_def get_event_def)
qed

theorem init_message_announces_schema_witness:
  "\<exists>v. (\<lambda>_. Inr (init_value ''/tmp/p'' (add_method ''echo'' 1 RStream InitSchema_new))) ''m'' = Inr v
    \<and> json_path v [''params'', ''schema'', ''methods'', ''echo'']
       = Some (method_json \<lparr>ms_id = 1, ms_response = RStream\<rparr>)"
proof -
  let ?v = "init_value ''/tmp/p'' (add_method ''echo'' 1 RStream InitSchema_new)"
  let ?pr = "\<lambda>v. if v = ?v then Inr ''m'' else Inl ''other''"
  have "json_roundtrip ?pr (\<lambda>_. Inr ?v)" by (simp add: json_roundtrip_def)
  moreover have "build_init_message ?pr ''/tmp/p'' (add_method ''echo'' 1 RStream InitSchema_new) = Ok ''m''"
    by (simp add: build_init_message_def)
  ultimately obtain v where "Inr ?v = (Inr v :: rstr + json)"
    "json_path v [''params'', ''schema'', ''methods'', ''echo'']
       = map_option method_json (get_method ''echo'' (add_method ''echo'' 1 RStream InitSchema_new))"
    using init_message_announces_schema by blast
  then show ?thesis by (simp add: get_method_def add_method_def)
qed

end
