(* ===== verification/Request_Context.thy ===== *)
theory Request_Context
  imports Writer Codec Init_Message
begin

text \<open>
  The context handed to a handler (\<open>src/handler/context.rs\<close>). The shared \<open>responded\<close> flag and the
  cancellation token are known by addresses, so that clones of a context share them; the state
  says which flags are set, for which tokens \<open>cancel\<close> was called, which frames were put into the
  channel and which operations on the pending counter were made. Every operation takes the
  environment of the \<open>send\<close> it may end in; its result is absent while that send waits.
\<close>

section \<open>Model\<close>

record RequestContext =
  rc_method_id :: u16
  rc_request_id :: u32
  rc_response_type :: ResponseType
  rc_writer :: "WriterHandle option"
  rc_token :: arc
  rc_responded :: arc

record ctx_state =
  cs_responded :: "arc \<Rightarrow> bool"
  cs_cancelled :: "arc \<Rightarrow> bool"
  cs_sent :: "OutboundFrame list"
  cs_ops :: "pend_op list"

type_synonym ctx_result = "(unit, ProcwireError) result option \<times> ctx_state"

text \<open>\<open>CancellationToken::new\<close> and \<open>cancel\<close> on the token at address \<open>t\<close>, and a new \<open>responded\<close>
  flag at address \<open>a\<close>. The constructors allocate these addresses.\<close>

definition token_new :: "arc \<Rightarrow> ctx_state \<Rightarrow> ctx_state" where
  "token_new t st = st\<lparr>cs_cancelled := (cs_cancelled st)(t := False)\<rparr>"

definition token_cancel :: "arc \<Rightarrow> ctx_state \<Rightarrow> ctx_state" where
  "token_cancel t st = st\<lparr>cs_cancelled := (cs_cancelled st)(t := True)\<rparr>"

definition flag_new :: "arc \<Rightarrow> ctx_state \<Rightarrow> ctx_state" where
  "flag_new a st = st\<lparr>cs_responded := (cs_responded st)(a := False)\<rparr>"

definition RequestContext_new ::
  "u16 \<Rightarrow> u32 \<Rightarrow> arc \<Rightarrow> arc \<Rightarrow> ctx_state \<Rightarrow> RequestContext \<times> ctx_state" where
  "RequestContext_new m r t a st =
     (\<lparr>rc_method_id = m, rc_request_id = r, rc_response_type = RResult, rc_writer = None,
       rc_token = t, rc_responded = a\<rparr>, flag_new a (token_new t st))"

definition with_writer ::
  "u16 \<Rightarrow> u32 \<Rightarrow> WriterHandle \<Rightarrow> arc \<Rightarrow> arc \<Rightarrow> ctx_state \<Rightarrow> RequestContext \<times> ctx_state" where
  "with_writer m r w t a st =
     (\<lparr>rc_method_id = m, rc_request_id = r, rc_response_type = RResult, rc_writer = Some w,
       rc_token = t, rc_responded = a\<rparr>, flag_new a (token_new t st))"

definition with_response_type :: "RequestContext \<Rightarrow> ResponseType \<Rightarrow> RequestContext" where
  "with_response_type ctx r = ctx\<lparr>rc_response_type := r\<rparr>"

definition with_writer_and_token ::
  "u16 \<Rightarrow> u32 \<Rightarrow> ResponseType \<Rightarrow> WriterHandle \<Rightarrow> arc \<Rightarrow> arc \<Rightarrow> ctx_state \<Rightarrow>
     RequestContext \<times> ctx_state" where
  "with_writer_and_token m r rt w t a st =
     (\<lparr>rc_method_id = m, rc_request_id = r, rc_response_type = rt, rc_writer = Some w,
       rc_token = t, rc_responded = a\<rparr>, flag_new a st)"

definition RequestContext_method_id :: "RequestContext \<Rightarrow> u16" where
  "RequestContext_method_id ctx = rc_method_id ctx"
definition RequestContext_request_id :: "RequestContext \<Rightarrow> u32" where
  "RequestContext_request_id ctx = rc_request_id ctx"
definition RequestContext_response_type :: "RequestContext \<Rightarrow> ResponseType" where
  "RequestContext_response_type ctx = rc_response_type ctx"

definition has_responded :: "RequestContext \<Rightarrow> ctx_state \<Rightarrow> bool" where
  "has_responded ctx st = cs_responded st (rc_responded ctx)"

definition mark_responded ::
  "RequestContext \<Rightarrow> ctx_state \<Rightarrow> (unit, ProcwireError) result \<times> ctx_state" where
  "mark_responded ctx st =
     (let old = cs_responded st (rc_responded ctx);
          st = st\<lparr>cs_responded := (cs_responded st)(rc_responded ctx := True)\<rparr>
      in if old then (Err ResponseAlreadySent, st) else (Ok (), st))"

definition is_cancelled :: "RequestContext \<Rightarrow> ctx_state \<Rightarrow> bool" where
  "is_cancelled ctx st = cs_cancelled st (rc_token ctx)"

text \<open>The future of \<open>cancelled()\<close>: ready once the token is cancelled.\<close>

definition cancelled :: "RequestContext \<Rightarrow> ctx_state \<Rightarrow> unit option" where
  "cancelled ctx st = (if is_cancelled ctx st then Some () else None)"

definition cancellation_token :: "RequestContext \<Rightarrow> arc" where
  "cancellation_token ctx = rc_token ctx"

definition RequestContext_cancel :: "RequestContext \<Rightarrow> ctx_state \<Rightarrow> ctx_state" where
  "RequestContext_cancel ctx st = token_cancel (rc_token ctx) st"

definition send_via :: "WriterHandle \<Rightarrow> OutboundFrame \<Rightarrow> send_env \<Rightarrow> ctx_state \<Rightarrow> ctx_result" where
  "send_via w frame env st =
     (let out = WriterHandle_send w frame env in
      (out_result out, st\<lparr>cs_sent := cs_sent st @ out_sent out, cs_ops := cs_ops st @ out_ops out\<rparr>))"

definition send_frame ::
  "RequestContext \<Rightarrow> u8 \<Rightarrow> bytes \<Rightarrow> send_env \<Rightarrow> ctx_state \<Rightarrow> ctx_result" where
  "send_frame ctx frame_flags data env st = (case rc_writer ctx of
     None \<Rightarrow> (Some (Ok ()), st)
   | Some w \<Rightarrow>
       (let h = Header_new (rc_method_id ctx) frame_flags (rc_request_id ctx)
              (word_of_nat (length data));
            frame = OutboundFrame_new h data
        in send_via w frame env st))"

definition send_frame_empty :: "RequestContext \<Rightarrow> u8 \<Rightarrow> send_env \<Rightarrow> ctx_state \<Rightarrow> ctx_result" where
  "send_frame_empty ctx frame_flags env st = (case rc_writer ctx of
     None \<Rightarrow> (Some (Ok ()), st)
   | Some w \<Rightarrow>
       (let h = Header_new (rc_method_id ctx) frame_flags (rc_request_id ctx) 0;
            frame = OutboundFrame_empty h
        in send_via w frame env st))"

definition error_flags :: "RequestContext \<Rightarrow> u8" where
  "error_flags ctx =
     (if rc_response_type ctx = RStream then STREAM_ERROR_RESPONSE else ERROR_RESPONSE)"

text \<open>\<open>self.mark_responded()?\<close> and \<open>let data = MsgPackCodec::encode(..)?\<close> at the start of an
  operation.\<close>

definition marked :: "RequestContext \<Rightarrow> ctx_state \<Rightarrow> (ctx_state \<Rightarrow> ctx_result) \<Rightarrow> ctx_result" where
  "marked ctx st k = (case mark_responded ctx st of
     (Inl e, st) \<Rightarrow> (Some (Err e), st) | (Inr _, st) \<Rightarrow> k st)"

definition encoded ::
  "(bytes, ProcwireError) result \<Rightarrow> ctx_state \<Rightarrow> (bytes \<Rightarrow> ctx_result) \<Rightarrow> ctx_result" where
  "encoded r st k = (case r of Inl e \<Rightarrow> (Some (Err e), st) | Inr data \<Rightarrow> k data)"

definition respond ::
  "'v msgpack \<Rightarrow> RequestContext \<Rightarrow> 'v \<Rightarrow> send_env \<Rightarrow> ctx_state \<Rightarrow> ctx_result" where
  "respond C ctx v env st = marked ctx st (\<lambda>st.
     encoded (MsgPackCodec_encode C v) st (\<lambda>data. send_frame ctx RESPONSE data env st))"

definition respond_raw :: "RequestContext \<Rightarrow> bytes \<Rightarrow> send_env \<Rightarrow> ctx_state \<Rightarrow> ctx_result" where
  "respond_raw ctx data env st = marked ctx st (send_frame ctx RESPONSE data env)"

definition respond_bytes :: "RequestContext \<Rightarrow> bytes \<Rightarrow> send_env \<Rightarrow> ctx_state \<Rightarrow> ctx_result" where
  "respond_bytes ctx data env st = marked ctx st (send_frame ctx RESPONSE data env)"

definition ack :: "RequestContext \<Rightarrow> send_env \<Rightarrow> ctx_state \<Rightarrow> ctx_result" where
  "ack ctx env st = marked ctx st (send_frame_empty ctx ACK_RESPONSE env)"

definition chunk :: "'v msgpack \<Rightarrow> RequestContext \<Rightarrow> 'v \<Rightarrow> send_env \<Rightarrow> ctx_state \<Rightarrow> ctx_result" where
  "chunk C ctx v env st =
     encoded (MsgPackCodec_encode C v) st (\<lambda>data. send_frame ctx STREAM_CHUNK data env st)"

definition chunk_raw :: "RequestContext \<Rightarrow> bytes \<Rightarrow> send_env \<Rightarrow> ctx_state \<Rightarrow> ctx_result" where
  "chunk_raw ctx data env st = send_frame ctx STREAM_CHUNK data env st"

definition chunk_bytes :: "RequestContext \<Rightarrow> bytes \<Rightarrow> send_env \<Rightarrow> ctx_state \<Rightarrow> ctx_result" where
  "chunk_bytes ctx data env st = send_frame ctx STREAM_CHUNK data env st"

definition end_stream :: "RequestContext \<Rightarrow> send_env \<Rightarrow> ctx_state \<Rightarrow> ctx_result" where
  "end_stream ctx env st = marked ctx st (send_frame_empty ctx STREAM_END_RESPONSE env)"

definition send_error ::
  "'v msgpack \<Rightarrow> RequestContext \<Rightarrow> rstr \<Rightarrow> send_env \<Rightarrow> ctx_state \<Rightarrow> ctx_result" where
  "send_error C ctx message env st = marked ctx st (\<lambda>st.
     encoded (MsgPackCodec_encode_str C message) st
       (\<lambda>data. send_frame ctx (error_flags ctx) data env st))"

definition error_with ::
  "'v msgpack \<Rightarrow> RequestContext \<Rightarrow> 'v \<Rightarrow> send_env \<Rightarrow> ctx_state \<Rightarrow> ctx_result" where
  "error_with C ctx v env st = marked ctx st (\<lambda>st.
     encoded (MsgPackCodec_encode C v) st
       (\<lambda>data. send_frame ctx (error_flags ctx) data env st))"

record RawPayload =
  raw_payload :: bytes

definition RawPayload_new :: "bytes \<Rightarrow> RawPayload" where
  "RawPayload_new b = \<lparr>raw_payload = b\<rparr>"
definition as_bytes :: "RawPayload \<Rightarrow> bytes" where
  "as_bytes p = raw_payload p"
definition into_bytes :: "RawPayload \<Rightarrow> bytes" where
  "into_bytes p = raw_payload p"

section \<open>The operations as one\<close>

datatype 'v ctx_op =
    Respond 'v | RespondRaw bytes | RespondBytes bytes | Ack
  | Chunk 'v | ChunkRaw bytes | ChunkBytes bytes | EndStream
  | SendError rstr | ErrorWith 'v

fun do_op ::
  "'v msgpack \<Rightarrow> RequestContext \<Rightarrow> 'v ctx_op \<Rightarrow> send_env \<Rightarrow> ctx_state \<Rightarrow> ctx_result" where
  "do_op C ctx (Respond v) = respond C ctx v"
| "do_op C ctx (RespondRaw b) = respond_raw ctx b"
| "do_op C ctx (RespondBytes b) = respond_bytes ctx b"
| "do_op C ctx Ack = ack ctx"
| "do_op C ctx (Chunk v) = chunk C ctx v"
| "do_op C ctx (ChunkRaw b) = chunk_raw ctx b"
| "do_op C ctx (ChunkBytes b) = chunk_bytes ctx b"
| "do_op C ctx EndStream = end_stream ctx"
| "do_op C ctx (SendError m) = send_error C ctx m"
| "do_op C ctx (ErrorWith v) = error_with C ctx v"

fun op_terminal :: "'v ctx_op \<Rightarrow> bool" where
  "op_terminal (Chunk v) = False"
| "op_terminal (ChunkRaw b) = False"
| "op_terminal (ChunkBytes b) = False"
| "op_terminal _ = True"

fun op_flags :: "RequestContext \<Rightarrow> 'v ctx_op \<Rightarrow> u8" where
  "op_flags ctx Ack = ACK_RESPONSE"
| "op_flags ctx EndStream = STREAM_END_RESPONSE"
| "op_flags ctx (SendError m) = error_flags ctx"
| "op_flags ctx (ErrorWith v) = error_flags ctx"
| "op_flags ctx op = (if op_terminal op then RESPONSE else STREAM_CHUNK)"

fun op_payload :: "'v msgpack \<Rightarrow> 'v ctx_op \<Rightarrow> (bytes, ProcwireError) result" where
  "op_payload C (Respond v) = MsgPackCodec_encode C v"
| "op_payload C (RespondRaw b) = Ok b"
| "op_payload C (RespondBytes b) = Ok b"
| "op_payload C Ack = Ok []"
| "op_payload C (Chunk v) = MsgPackCodec_encode C v"
| "op_payload C (ChunkRaw b) = Ok b"
| "op_payload C (ChunkBytes b) = Ok b"
| "op_payload C EndStream = Ok []"
| "op_payload C (SendError m) = MsgPackCodec_encode_str C m"
| "op_payload C (ErrorWith v) = MsgPackCodec_encode C v"

definition ctx_frame :: "RequestContext \<Rightarrow> u8 \<Rightarrow> bytes \<Rightarrow> OutboundFrame" where
  "ctx_frame ctx fl data = OutboundFrame_new
     (Header_new (rc_method_id ctx) fl (rc_request_id ctx) (word_of_nat (length data))) data"

lemma send_frame_empty_eq: "send_frame_empty ctx fl = send_frame ctx fl []"
  by (simp add: fun_eq_iff send_frame_empty_def send_frame_def OutboundFrame_empty_def
      OutboundFrame_new_def Let_def split: option.split)

lemma marked_eq:
  "marked ctx st k =
     (if has_responded ctx st then (Some (Err ResponseAlreadySent), st)
      else k (st\<lparr>cs_responded := (cs_responded st)(rc_responded ctx := True)\<rparr>))"
  by (auto simp: marked_def mark_responded_def has_responded_def Let_def fun_upd_idem)

lemma encoded_Inr [simp]: "encoded (Inr data) st k = k data"
  by (simp add: encoded_def)

lemma do_op_eq:
  "do_op C ctx op env st =
     (if op_terminal op \<and> has_responded ctx st then (Some (Err ResponseAlreadySent), st)
      else
        let st = (if op_terminal op
              then st\<lparr>cs_responded := (cs_responded st)(rc_responded ctx := True)\<rparr> else st)
        in encoded (op_payload C op) st (\<lambda>data. send_frame ctx (op_flags ctx op) data env st))"
  by (cases op) (simp_all add: marked_eq respond_def respond_raw_def respond_bytes_def ack_def
      chunk_def chunk_raw_def chunk_bytes_def end_stream_def send_error_def error_with_def
      send_frame_empty_eq Let_def)

section \<open>What a context puts into the channel\<close>

lemma send_frame_sent:
  assumes "send_frame ctx fl data env st = (r, st')"
  shows "cs_responded st' = cs_responded st" and "cs_cancelled st' = cs_cancelled st"
    and "cs_sent st' = cs_sent st \<or> cs_sent st' = cs_sent st @ [ctx_frame ctx fl data]"
  using assms
  by (auto simp: send_frame_def send_via_def ctx_frame_def Let_def ws.sent_eq split: option.splits if_splits)

definition out_flags :: "OutboundFrame \<Rightarrow> u8" where
  "out_flags f = (case Header_decode (of_header f) of Some h \<Rightarrow> flags h | None \<Rightarrow> 0)"

definition is_terminal_frame :: "OutboundFrame \<Rightarrow> bool" where
  "is_terminal_frame f \<longleftrightarrow> out_flags f \<in>
     {RESPONSE, ACK_RESPONSE, STREAM_END_RESPONSE, ERROR_RESPONSE, STREAM_ERROR_RESPONSE}"

lemma out_flags_ctx_frame [simp]: "out_flags (ctx_frame ctx fl data) = fl"
  by (simp add: out_flags_def ctx_frame_def OutboundFrame_new_def Header_new_def)

lemma op_flags_terminal:
  "op_flags ctx op \<in>
     {RESPONSE, ACK_RESPONSE, STREAM_END_RESPONSE, ERROR_RESPONSE, STREAM_ERROR_RESPONSE}
   \<longleftrightarrow> op_terminal op"
  by (cases op) (auto simp: error_flags_def flag_combinations flag_bits)

lemma is_terminal_ctx_frame [simp]:
  "is_terminal_frame (ctx_frame ctx (op_flags ctx op) data) \<longleftrightarrow> op_terminal op"
  by (simp only: is_terminal_frame_def out_flags_ctx_frame op_flags_terminal)

lemma do_op_effect:
  assumes "do_op C ctx op env st = (r, st')"
  shows "(cs_sent st' = cs_sent st \<or> (\<exists>data. op_payload C op = Ok data
      \<and> cs_sent st' = cs_sent st @ [ctx_frame ctx (op_flags ctx op) data]
      \<and> \<not> (op_terminal op \<and> has_responded ctx st)))
    \<and> (has_responded ctx st' \<longleftrightarrow> has_responded ctx st \<or> op_terminal op)
    \<and> cs_cancelled st' = cs_cancelled st"
proof (cases "op_terminal op \<and> has_responded ctx st")
  case True
  with assms show ?thesis by (simp add: do_op_eq)
next
  case False
  define st1 where "st1 = (if op_terminal op
    then st\<lparr>cs_responded := (cs_responded st)(rc_responded ctx := True)\<rparr> else st)"
  have st1: "cs_sent st1 = cs_sent st" "cs_cancelled st1 = cs_cancelled st"
    "has_responded ctx st1 \<longleftrightarrow> has_responded ctx st \<or> op_terminal op"
    by (auto simp: st1_def has_responded_def)
  from assms False have
    run: "encoded (op_payload C op) st1 (\<lambda>data. send_frame ctx (op_flags ctx op) data env st1) = (r, st')"
    by (simp only: do_op_eq st1_def Let_def if_False)
  show ?thesis
  proof (cases "op_payload C op")
    case (Inl e)
    with run st1 show ?thesis by (simp add: encoded_def)
  next
    case (Inr data)
    with run have "send_frame ctx (op_flags ctx op) data env st1 = (r, st')" by simp
    from send_frame_sent [OF this] st1 Inr False show ?thesis
      by (auto simp: has_responded_def)
  qed
qed

text \<open>An operation that reports success has put exactly its frame into the channel, and one that does
  not has put nothing there.\<close>

lemma do_op_outcome:
  assumes "do_op C ctx op env st = (r, st')" and "rc_writer ctx = Some w"
  shows "(r = Some (Ok ()) \<and> (\<exists>data. op_payload C op = Ok data
      \<and> cs_sent st' = cs_sent st @ [ctx_frame ctx (op_flags ctx op) data]))
    \<or> (r \<noteq> Some (Ok ()) \<and> cs_sent st' = cs_sent st)"
  using assms
  by (auto simp: do_op_eq encoded_def send_frame_def send_via_def ctx_frame_def ws.sent_eq Let_def
      split: if_splits sum.splits)

lemma do_op_accepted:
  assumes "do_op C ctx op env st = (r, st')" and "rc_writer ctx = Some w"
    and "\<forall>f. out_result (WriterHandle_send w f env) = Some (Ok ())"
    and "\<not> (op_terminal op \<and> has_responded ctx st)" and "op_payload C op = Ok data"
  shows "r = Some (Ok ()) \<and> cs_sent st' = cs_sent st @ [ctx_frame ctx (op_flags ctx op) data]"
  using assms
  by (auto simp: do_op_eq send_frame_def send_via_def ctx_frame_def ws.sent_eq Let_def split: if_splits)

lemma do_op_other_flag:
  assumes "do_op C ctx op env st = (r, st')" and "a \<noteq> rc_responded ctx"
  shows "cs_responded st' a = cs_responded st a"
  using assms
  by (cases "op_payload C op")
    (auto simp: do_op_eq encoded_def Let_def dest: send_frame_sent(1) split: if_splits)

lemma do_op_returns:
  assumes "do_op C ctx op env st = (r, st')"
    and "\<forall>f w. rc_writer ctx = Some w \<longrightarrow> out_result (WriterHandle_send w f env) \<noteq> None"
  shows "r \<noteq> None"
  using assms
  by (auto simp: do_op_eq encoded_def send_frame_def send_via_def Let_def
      split: if_splits sum.splits option.splits)

text \<open>The rule the \<open>responded\<close> flag enforces: no terminal frame while it is clear, at most one
  ever; and every frame belongs to this request.\<close>

definition ctx_frame_of :: "RequestContext \<Rightarrow> OutboundFrame \<Rightarrow> bool" where
  "ctx_frame_of ctx f \<longleftrightarrow> (\<exists>fl data. f = ctx_frame ctx fl data
     \<and> fl \<in> {RESPONSE, ACK_RESPONSE, STREAM_CHUNK, STREAM_END_RESPONSE, error_flags ctx})"

definition ctx_inv :: "RequestContext \<Rightarrow> ctx_state \<Rightarrow> bool" where
  "ctx_inv ctx st \<longleftrightarrow>
     length (filter is_terminal_frame (cs_sent st)) \<le> of_bool (has_responded ctx st)
   \<and> (\<forall>f \<in> set (cs_sent st). ctx_frame_of ctx f)"

lemma op_flags_of: "ctx_frame_of ctx (ctx_frame ctx (op_flags ctx op) data)"
  by (cases op) (auto simp: ctx_frame_of_def)

lemma ctx_inv_do_op:
  assumes "ctx_inv ctx st" and "do_op C ctx op env st = (r, st')"
  shows "ctx_inv ctx st'"
  using do_op_effect [OF assms(2)] assms(1)
  by (auto simp: ctx_inv_def op_flags_of)

text \<open>Operations made one after the other, through any clones of the context.\<close>

fun run_ops ::
  "'v msgpack \<Rightarrow> RequestContext \<Rightarrow> ('v ctx_op \<times> send_env) list \<Rightarrow> ctx_state \<Rightarrow>
     (unit, ProcwireError) result option list \<times> ctx_state" where
  "run_ops C ctx [] st = ([], st)"
| "run_ops C ctx ((op, env) # ops) st = (case do_op C ctx op env st of (r, st) \<Rightarrow>
     (case run_ops C ctx ops st of (rs, st) \<Rightarrow> (r # rs, st)))"

lemma run_ops_inv: "run_ops C ctx ops st = (rs, st') \<Longrightarrow> ctx_inv ctx st \<Longrightarrow> ctx_inv ctx st'"
  by (induction C ctx ops st arbitrary: rs rule: run_ops.induct)
    (auto split: prod.splits dest: ctx_inv_do_op)

lemma run_ops_length: "run_ops C ctx ops st = (rs, st') \<Longrightarrow> length rs = length ops"
  by (induction C ctx ops st arbitrary: rs rule: run_ops.induct) (auto split: prod.splits)

lemma run_ops_responded:
  "run_ops C ctx ops st = (rs, st') \<Longrightarrow> has_responded ctx st \<Longrightarrow> i < length ops \<Longrightarrow>
   op_terminal (fst (ops ! i)) \<Longrightarrow> rs ! i = Some (Err ResponseAlreadySent)"
proof (induction C ctx ops st arbitrary: rs i rule: run_ops.induct)
  case (2 C ctx op env ops st)
  obtain r st1 where d: "do_op C ctx op env st = (r, st1)" by fastforce
  with "2.prems"(1) obtain rs1 where r: "run_ops C ctx ops st1 = (rs1, st')" "rs = r # rs1"
    by (auto split: prod.splits)
  have "has_responded ctx st1" using do_op_effect [OF d] "2.prems"(2) by blast
  then show ?case
    using "2.IH" [OF d [symmetric] r(1)] "2.prems" r(2) d
    by (cases i) (auto simp: do_op_eq)
qed simp

lemma run_ops_second_terminal:
  "run_ops C ctx ops st = (rs, st') \<Longrightarrow> j < i \<Longrightarrow> i < length ops \<Longrightarrow>
   op_terminal (fst (ops ! j)) \<Longrightarrow> op_terminal (fst (ops ! i)) \<Longrightarrow>
   rs ! i = Some (Err ResponseAlreadySent)"
proof (induction C ctx ops st arbitrary: rs i j rule: run_ops.induct)
  case (2 C ctx op env ops st)
  obtain r st1 where d: "do_op C ctx op env st = (r, st1)" by fastforce
  with "2.prems"(1) obtain rs1 where r: "run_ops C ctx ops st1 = (rs1, st')" "rs = r # rs1"
    by (auto split: prod.splits)
  obtain i' where i: "i = Suc i'" using "2.prems"(2) by (cases i) auto
  show ?case
  proof (cases j)
    case 0
    then have "has_responded ctx st1" using do_op_effect [OF d] "2.prems"(4) by simp
    with run_ops_responded [OF r(1)] "2.prems" i r(2) show ?thesis by simp
  next
    case (Suc j')
    with "2.IH" [OF d [symmetric] r(1), of j' i'] "2.prems" i r(2) show ?thesis by simp
  qed
qed simp


section \<open>Properties\<close>

definition sample_codec :: "nat msgpack" where
  "sample_codec = \<lparr>to_vec_named = (\<lambda>n. if n < 128 then Inr [word_of_nat n] else Inl ''too large''),
     to_vec_named_str = (\<lambda>s. Inr []), from_slice = (\<lambda>b. case b of [x] \<Rightarrow> Inr (unat x) | _ \<Rightarrow> Inl ''eof'')\<rparr>"

abbreviation sample_ctx :: RequestContext where
  "sample_ctx \<equiv> \<lparr>rc_method_id = 7, rc_request_id = 42, rc_response_type = RStream,
     rc_writer = Some (WriterHandle_new 0 0 4 10), rc_token = 0, rc_responded = 0\<rparr>"

abbreviation sample_cs :: ctx_state where
  "sample_cs \<equiv> \<lparr>cs_responded = (\<lambda>_. False), cs_cancelled = (\<lambda>_. False), cs_sent = [], cs_ops = []\<rparr>"

abbreviation sample_env :: send_env where
  "sample_env \<equiv> \<lparr>env_load = 0, env_rounds = [], env_accepts = Some True\<rparr>"

text \<open>C12. One terminal response per request: whatever operations are made through a fresh context
  and its clones, in whatever order and with whatever outcomes of encoding and sending, at most one
  terminal frame (response, acknowledgement, end of stream or error) is put into the channel, and
  every terminal operation after the first one fails with \<open>ResponseAlreadySent\<close>.\<close>

theorem single_terminal_response:
  assumes "\<not> has_responded ctx st" and "cs_sent st = []"
    and "run_ops C ctx ops st = (rs, st')"
  shows "length (filter is_terminal_frame (cs_sent st')) \<le> 1
    \<and> (\<forall>i < length ops. \<forall>j < i. op_terminal (fst (ops ! j)) \<and> op_terminal (fst (ops ! i))
         \<longrightarrow> rs ! i = Some (Err ResponseAlreadySent))"
proof -
  have "ctx_inv ctx st'" using run_ops_inv [OF assms(3)] assms(1,2) by (simp add: ctx_inv_def)
  then have "length (filter is_terminal_frame (cs_sent st')) \<le> 1"
    by (cases "has_responded ctx st'") (simp_all add: ctx_inv_def)
  with run_ops_second_terminal [OF assms(3)] show ?thesis by blast
qed

theorem single_terminal_response_witness:
  "length (filter is_terminal_frame (cs_sent (snd (run_ops sample_codec sample_ctx
     [(Respond 5, sample_env), (Ack, sample_env)] sample_cs)))) \<le> 1"
  by (rule single_terminal_response [THEN conjunct1, OF _ _ surjective_pairing])
    (simp_all add: has_responded_def)



text \<open>C35. An encoding failure silences the request: when the value given to \<open>respond\<close> cannot be
  encoded, no frame is sent, yet the request counts as answered, so that every later terminal
  operation, an error report included, is refused.\<close>

theorem respond_encode_failure_silences:
  assumes "\<not> has_responded ctx st" and "to_vec_named C v = Inl e"
    and "respond C ctx v env st = (r, st')" and "op_terminal op"
  shows "r = Some (Err (MsgPackEncode e)) \<and> cs_sent st' = cs_sent st
    \<and> do_op C ctx op env' st' = (Some (Err ResponseAlreadySent), st')"
  using assms
  by (auto simp: respond_def marked_eq encoded_def MsgPackCodec_encode_def do_op_eq has_responded_def)

theorem respond_encode_failure_silences_witness:
  "do_op sample_codec sample_ctx (SendError ''failed'') sample_env
     (snd (respond sample_codec sample_ctx 200 sample_env sample_cs))
   = (Some (Err ResponseAlreadySent), snd (respond sample_codec sample_ctx 200 sample_env sample_cs))"
  by (rule respond_encode_failure_silences [THEN conjunct2, THEN conjunct2, OF _ _ surjective_pairing])
    (simp_all add: has_responded_def sample_codec_def)

text \<open>The length of a payload of 4 GiB or more is cut to 32 bits: the header of such a response
  announces the length modulo \<open>2 ^ 32\<close>, and the bytes beyond it are read as the next frame.\<close>

theorem payload_length_truncated:
  assumes "rc_writer ctx = Some w" and "env_load env < wh_max_pending w"
    and "env_accepts env = Some True" and "\<not> has_responded ctx st"
  shows "\<exists>h. cs_sent (snd (respond_bytes ctx data env st)) = cs_sent st @ [OutboundFrame_new h data]
    \<and> unat (payload_length h) = length data mod 2 ^ 32"
  using assms
  by (auto simp: respond_bytes_def marked_eq send_frame_def send_via_def send_defs Header_new_def
      unat_of_nat take_bit_eq_mod)

theorem payload_length_truncated_witness:
  "\<exists>h. cs_sent (snd (respond_bytes sample_ctx (replicate (2 ^ 32) 0) sample_env sample_cs))
      = [OutboundFrame_new h (replicate (2 ^ 32) 0)]
    \<and> unat (payload_length h) = 0"
  using payload_length_truncated [of sample_ctx "WriterHandle_new 0 0 4 10" sample_env sample_cs
      "replicate (2 ^ 32) 0"]
  by (simp only: length_replicate) (simp add: has_responded_def WriterHandle_new_def)

text \<open>An abort does not silence a request: cancelling its token changes neither what any operation of its
  context returns nor what it sends, so the handler, or the dispatcher's error report, still answers
  a request that has been aborted.\<close>

theorem abort_does_not_silence:
  "do_op C ctx op env (RequestContext_cancel ctx st) = map_prod id (RequestContext_cancel ctx) (do_op C ctx op env st)"
  by (simp add: do_op_eq encoded_def send_frame_def send_via_def RequestContext_cancel_def token_cancel_def
      has_responded_def Let_def split: sum.split option.split)

end
