(* ===== verification/Registry.thy ===== *)
theory Registry
  imports Request_Context
begin

text \<open>
  The handler registry (\<open>src/handler/registry.rs\<close>). A handler's future is a program: a tree whose
  nodes are the calls it makes on its context, each continuing with the call's result, and whose
  leaves are the results it returns; what it computes in between is in the choice of the tree. The
  tree has no node for a panic: \<open>Client_System\<close> lets a task panic at any point of its program. A
  \<open>HashMap\<close> is a map, and where the code iterates over one, the iteration is a list, an argument.
  The ids are 16-bit words whose increment panics or wraps around on overflow, as the build's
  overflow checks say.
\<close>

section \<open>Handlers\<close>

datatype 'v hprog =
    HDone "(unit, ProcwireError) result"
  | HOp "'v ctx_op" "(unit, ProcwireError) result \<Rightarrow> 'v hprog"
  | HIsCancelled "bool \<Rightarrow> 'v hprog"
  | HCancelled "'v hprog"
  | HHasResponded "bool \<Rightarrow> 'v hprog"

type_synonym 'v handler = "'v \<Rightarrow> RequestContext \<Rightarrow> 'v hprog"

record 'v TypedHandler =
  th_handler :: "'v handler"

definition TypedHandler_new :: "'v handler \<Rightarrow> 'v TypedHandler" where
  "TypedHandler_new h = \<lparr>th_handler = h\<rparr>"

definition TypedHandler_call ::
  "'v msgpack \<Rightarrow> 'v TypedHandler \<Rightarrow> bytes \<Rightarrow> RequestContext \<Rightarrow> 'v hprog" where
  "TypedHandler_call C self data ctx = (case MsgPackCodec_decode C data of
     Inr v \<Rightarrow> th_handler self v ctx
   | Inl e \<Rightarrow> HDone (Err e))"

text \<open>What a step of the program meets: the environment of a send, and whether an ABORT for the
  request arrived before it.\<close>

record step_env =
  se_send :: send_env
  se_abort :: bool

definition abort_point :: "RequestContext \<Rightarrow> step_env \<Rightarrow> ctx_state \<Rightarrow> ctx_state" where
  "abort_point ctx e st = (if se_abort e then RequestContext_cancel ctx st else st)"

primrec run_prog ::
  "'v hprog \<Rightarrow> 'v msgpack \<Rightarrow> RequestContext \<Rightarrow> (nat \<Rightarrow> step_env) \<Rightarrow> nat \<Rightarrow> ctx_state \<Rightarrow> ctx_result"
  where
  "run_prog (HDone r) C ctx envs n st = (Some r, abort_point ctx (envs n) st)"
| "run_prog (HOp op k) C ctx envs n st =
     (case do_op C ctx op (se_send (envs n)) (abort_point ctx (envs n) st) of
        (Some r, st) \<Rightarrow> run_prog (k r) C ctx envs (Suc n) st
      | (None, st) \<Rightarrow> (None, st))"
| "run_prog (HIsCancelled k) C ctx envs n st =
     (let st = abort_point ctx (envs n) st
      in run_prog (k (is_cancelled ctx st)) C ctx envs (Suc n) st)"
| "run_prog (HCancelled p) C ctx envs n st =
     (let st = abort_point ctx (envs n) st
      in case cancelled ctx st of
           Some _ \<Rightarrow> run_prog p C ctx envs (Suc n) st
         | None \<Rightarrow> (None, st))"
| "run_prog (HHasResponded k) C ctx envs n st =
     (let st = abort_point ctx (envs n) st
      in run_prog (k (has_responded ctx st)) C ctx envs (Suc n) st)"

section \<open>Registry\<close>

record 'v MethodEntry =
  me_handler :: "'v TypedHandler"
  me_response_type :: ResponseType
  me_id :: u16

record 'v HandlerRegistry =
  reg_methods :: "rstr \<Rightarrow> 'v MethodEntry option"
  reg_events :: "rstr \<Rightarrow> u16 option"
  next_method_id :: u16
  next_event_id :: u16
  id_to_name :: "u16 \<Rightarrow> rstr option"

definition HandlerRegistry_new :: "'v HandlerRegistry" where
  "HandlerRegistry_new = \<lparr>reg_methods = Map.empty, reg_events = Map.empty, next_method_id = 1,
     next_event_id = 1, id_to_name = Map.empty\<rparr>"

text \<open>\<open>x += 1\<close> on a \<open>u16\<close>.\<close>

definition u16_inc :: "bool \<Rightarrow> u16 \<Rightarrow> (u16, fault) result" where
  "u16_inc overflow_checks x =
     (if overflow_checks \<and> x = 0xFFFF then Err (Panic ''attempt to add with overflow'')
      else Ok (x + 1))"

definition register ::
  "bool \<Rightarrow> rstr \<Rightarrow> ResponseType \<Rightarrow> 'v handler \<Rightarrow> 'v HandlerRegistry \<Rightarrow>
     ('v HandlerRegistry, fault) result" where
  "register overflow_checks name response_type h reg =
     (let i = next_method_id reg in
      and_then (u16_inc overflow_checks i) (\<lambda>nxt.
        let typed = TypedHandler_new h in
        Ok (reg\<lparr>next_method_id := nxt,
          reg_methods := (reg_methods reg)(name \<mapsto>
            \<lparr>me_handler = typed, me_response_type = response_type, me_id = i\<rparr>),
          id_to_name := (id_to_name reg)(i \<mapsto> name)\<rparr>)))"

definition register_event ::
  "bool \<Rightarrow> rstr \<Rightarrow> 'v HandlerRegistry \<Rightarrow> ('v HandlerRegistry, fault) result" where
  "register_event overflow_checks name reg =
     (let i = next_event_id reg in
      and_then (u16_inc overflow_checks i) (\<lambda>nxt.
        Ok (reg\<lparr>next_event_id := nxt, reg_events := (reg_events reg)(name \<mapsto> i)\<rparr>)))"

definition get_handler :: "'v HandlerRegistry \<Rightarrow> rstr \<Rightarrow> 'v TypedHandler option" where
  "get_handler reg name = map_option me_handler (reg_methods reg name)"

definition get_handler_by_id :: "'v HandlerRegistry \<Rightarrow> u16 \<Rightarrow> 'v TypedHandler option" where
  "get_handler_by_id reg i =
     map_option me_handler (Option.bind (id_to_name reg i) (reg_methods reg))"

definition get_method_name :: "'v HandlerRegistry \<Rightarrow> u16 \<Rightarrow> rstr option" where
  "get_method_name reg i = id_to_name reg i"

definition get_method_id :: "'v HandlerRegistry \<Rightarrow> rstr \<Rightarrow> u16 option" where
  "get_method_id reg name = map_option me_id (reg_methods reg name)"

definition get_event_id :: "'v HandlerRegistry \<Rightarrow> rstr \<Rightarrow> u16 option" where
  "get_event_id reg name = reg_events reg name"

definition get_response_type :: "'v HandlerRegistry \<Rightarrow> rstr \<Rightarrow> ResponseType option" where
  "get_response_type reg name = map_option me_response_type (reg_methods reg name)"

definition get_response_type_by_id :: "'v HandlerRegistry \<Rightarrow> u16 \<Rightarrow> ResponseType option" where
  "get_response_type_by_id reg i =
     map_option me_response_type (Option.bind (id_to_name reg i) (reg_methods reg))"

text \<open>The two \<open>for\<close> loops run over the entries of the maps in the order of the lists.\<close>

definition build_schema ::
  "(rstr \<times> 'v MethodEntry) list \<Rightarrow> (rstr \<times> u16) list \<Rightarrow> InitSchema" where
  "build_schema methods events =
     (let schema = InitSchema_new;
          schema = fold (\<lambda>(name, e). add_method name (me_id e) (me_response_type e)) methods schema
      in fold (\<lambda>(name, i). add_event name i) events schema)"

definition dispatch ::
  "'v msgpack \<Rightarrow> 'v HandlerRegistry \<Rightarrow> u16 \<Rightarrow> bytes \<Rightarrow> RequestContext \<Rightarrow> 'v hprog" where
  "dispatch C reg i data ctx = (case get_handler_by_id reg i of
     None \<Rightarrow> HDone (Err (HandlerNotFound i))
   | Some h \<Rightarrow> TypedHandler_call C h data ctx)"

definition HandlerRegistry_default :: "'v HandlerRegistry" where
  "HandlerRegistry_default = HandlerRegistry_new"

section \<open>What a program does to its context\<close>

lemma abort_point_simps [simp]:
  "cs_sent (abort_point ctx e st) = cs_sent st" "cs_responded (abort_point ctx e st) = cs_responded st"
  "cs_ops (abort_point ctx e st) = cs_ops st"
  "has_responded ctx' (abort_point ctx e st) = has_responded ctx' st"
  "ctx_inv ctx' (abort_point ctx e st) = ctx_inv ctx' st"
  by (simp_all add: abort_point_def RequestContext_cancel_def token_cancel_def has_responded_def ctx_inv_def)

text \<open>A property of a request's state that no operation and no ABORT destroys survives every
  handler.\<close>

locale request_invariant =
  fixes ctx :: RequestContext and P :: "ctx_state \<Rightarrow> bool" and C :: "'v msgpack"
  assumes keeps_op: "P st \<Longrightarrow> do_op C ctx op env st = (r, st') \<Longrightarrow> P st'"
    and keeps_cancel: "P st \<Longrightarrow> P (RequestContext_cancel ctx st)"
begin

lemma keeps_abort_point: "P st \<Longrightarrow> P (abort_point ctx e st)"
  by (simp add: abort_point_def keeps_cancel)

lemma keeps_run_prog: "run_prog p C ctx envs n st = (r, st') \<Longrightarrow> P st \<Longrightarrow> P st'"
proof (induction p arbitrary: n st)
  case (HOp op k)
  obtain x st1 where d: "do_op C ctx op (se_send (envs n)) (abort_point ctx (envs n) st) = (x, st1)"
    by fastforce
  have "P st1" using keeps_op [OF keeps_abort_point d] HOp.prems(2) .
  with HOp.IH [OF rangeI] HOp.prems d show ?case by (auto split: option.splits)
next
  case (HIsCancelled k)
  from HIsCancelled.IH [OF rangeI] HIsCancelled.prems keeps_abort_point
  show ?case by (auto simp: Let_def)
next
  case (HCancelled p)
  from HCancelled.IH HCancelled.prems keeps_abort_point
  show ?case by (auto simp: Let_def split: option.splits)
next
  case (HHasResponded k)
  from HHasResponded.IH [OF rangeI] HHasResponded.prems keeps_abort_point
  show ?case by (auto simp: Let_def)
qed (auto intro: keeps_abort_point)

end

lemma cancel_simps [simp]:
  "has_responded ctx (RequestContext_cancel ctx st) = has_responded ctx st"
  "ctx_inv ctx (RequestContext_cancel ctx st) = ctx_inv ctx st"
  by (simp_all add: RequestContext_cancel_def token_cancel_def has_responded_def ctx_inv_def)

text \<open>A program whose sends all return ends, if the request is aborted at the start or the program
  never waits for the abort.\<close>

primrec awaits_abort :: "'v hprog \<Rightarrow> bool" where
  "awaits_abort (HDone r) = False"
| "awaits_abort (HOp op k) = (\<exists>r. awaits_abort (k r))"
| "awaits_abort (HIsCancelled k) = (\<exists>b. awaits_abort (k b))"
| "awaits_abort (HCancelled p) = True"
| "awaits_abort (HHasResponded k) = (\<exists>b. awaits_abort (k b))"

lemma is_cancelled_abort_point:
  "is_cancelled ctx (abort_point ctx e st) \<longleftrightarrow> se_abort e \<or> is_cancelled ctx st"
  by (simp add: abort_point_def RequestContext_cancel_def token_cancel_def is_cancelled_def)

lemma run_prog_ends:
  "\<forall>n f w. rc_writer ctx = Some w \<longrightarrow> out_result (WriterHandle_send w f (se_send (envs n))) \<noteq> None \<Longrightarrow>
   awaits_abort p \<longrightarrow> se_abort (envs n) \<or> is_cancelled ctx st \<Longrightarrow>
   \<exists>r. fst (run_prog p C ctx envs n st) = Some r"
proof (induction p arbitrary: n st)
  case (HOp op k)
  obtain x st1 where d: "do_op C ctx op (se_send (envs n)) (abort_point ctx (envs n) st) = (x, st1)"
    by fastforce
  have "x \<noteq> None" using do_op_returns [OF d] HOp.prems(1) by blast
  then obtain r where x: "x = Some r" by blast
  have "cs_cancelled st1 = cs_cancelled (abort_point ctx (envs n) st)" using do_op_effect [OF d] by blast
  then have "is_cancelled ctx st1 \<longleftrightarrow> se_abort (envs n) \<or> is_cancelled ctx st"
    using is_cancelled_abort_point [of ctx "envs n" st] by (simp add: is_cancelled_def)
  with HOp.IH [OF rangeI HOp.prems(1), of r "Suc n" st1] HOp.prems(2) d x show ?case by auto
next
  case (HIsCancelled k)
  show ?case
    using HIsCancelled.IH [OF rangeI HIsCancelled.prems(1)] HIsCancelled.prems(2)
    by (auto simp: Let_def is_cancelled_abort_point)
next
  case (HCancelled p)
  then show ?case
    using HCancelled.IH [OF HCancelled.prems(1), of "Suc n" "abort_point ctx (envs n) st"]
    by (simp add: Let_def cancelled_def is_cancelled_abort_point)
next
  case (HHasResponded k)
  show ?case
    using HHasResponded.IH [OF rangeI HHasResponded.prems(1)] HHasResponded.prems(2)
    by (auto simp: Let_def is_cancelled_abort_point)
qed simp

interpretation cinv: request_invariant ctx "ctx_inv ctx" C for ctx C
  by unfold_locales (auto intro: ctx_inv_do_op)

section \<open>Registering a list of methods\<close>

fun register_all ::
  "bool \<Rightarrow> (rstr \<times> ResponseType \<times> 'v handler) list \<Rightarrow> 'v HandlerRegistry \<Rightarrow>
     ('v HandlerRegistry, fault) result" where
  "register_all oc [] reg = Ok reg"
| "register_all oc ((name, rt, h) # ms) reg =
     and_then (register oc name rt h reg) (register_all oc ms)"

text \<open>Invariant after \<open>n\<close> registrations: the ids handed out are 1 to \<open>n\<close>, and the entry of a name
  is the one its id leads to.\<close>

definition reg_inv :: "nat \<Rightarrow> 'v HandlerRegistry \<Rightarrow> bool" where
  "reg_inv n reg \<longleftrightarrow> n \<le> 65534 \<and> unat (next_method_id reg) = Suc n
   \<and> (\<forall>i name. id_to_name reg i = Some name \<longrightarrow> i \<noteq> 0 \<and> i < next_method_id reg \<and> reg_methods reg name \<noteq> None)
   \<and> (\<forall>name e. reg_methods reg name = Some e \<longrightarrow> id_to_name reg (me_id e) = Some name)"

lemma reg_inv_new: "reg_inv 0 HandlerRegistry_new"
  by (simp add: reg_inv_def HandlerRegistry_new_def)

lemma u16_inc_Ok:
  assumes "unat x < 65535"
  shows "u16_inc oc x = Ok (x + 1)" and "unat (x + 1) = Suc (unat x)"
proof -
  from assms have "x < 0xFFFF" by (simp add: word_less_nat_alt)
  then show "u16_inc oc x = Ok (x + 1)" and "unat (x + 1) = Suc (unat x)"
    by (auto simp: u16_inc_def intro: unat_inc)
qed

lemma register_inv:
  assumes "reg_inv n reg" and "n < 65534"
  shows "\<exists>reg'. register oc name rt h reg = Ok reg' \<and> reg_inv (Suc n) reg'
    \<and> reg_methods reg' = (reg_methods reg)(name \<mapsto>
        \<lparr>me_handler = TypedHandler_new h, me_response_type = rt, me_id = next_method_id reg\<rparr>)"
proof -
  let ?i = "next_method_id reg"
  from assms have i: "unat ?i = Suc n" by (simp add: reg_inv_def)
  with assms(2) have inc: "u16_inc oc ?i = Ok (?i + 1)" "unat (?i + 1) = Suc (Suc n)"
    using u16_inc_Ok [of ?i] by simp_all
  have ne: "?i \<noteq> 0" using i by auto
  have lt: "j < ?i + 1" if "j < ?i \<or> j = ?i" for j
    using that i inc(2) by (auto simp: word_less_nat_alt)
  let ?e = "\<lparr>me_handler = TypedHandler_new h, me_response_type = rt, me_id = ?i\<rparr>"
  let ?reg = "reg\<lparr>next_method_id := ?i + 1, reg_methods := (reg_methods reg)(name \<mapsto> ?e),
    id_to_name := (id_to_name reg)(?i \<mapsto> name)\<rparr>"
  have ids: "id_to_name reg ?i = None"
    using assms(1) by (cases "id_to_name reg ?i") (auto simp: reg_inv_def)
  have "register oc name rt h reg = Ok ?reg" by (simp add: register_def inc(1) Let_def)
  moreover have "reg_inv (Suc n) ?reg"
    unfolding reg_inv_def
  proof (intro conjI allI impI)
    fix nm e assume "reg_methods ?reg nm = Some e"
    moreover from this have "nm \<noteq> name \<Longrightarrow> id_to_name reg (me_id e) = Some nm"
      using assms(1) by (simp add: reg_inv_def)
    ultimately show "id_to_name ?reg (me_id e) = Some nm"
      using ids by (cases "nm = name") auto
  qed (use assms inc(2) ne lt in \<open>auto simp: reg_inv_def split: if_splits\<close>)
  ultimately show ?thesis by simp
qed

lemma register_all_inv:
  "reg_inv n reg \<Longrightarrow> n + length ms \<le> 65534 \<Longrightarrow>
   \<exists>reg'. register_all oc ms reg = Ok reg' \<and> reg_inv (n + length ms) reg'
     \<and> (\<forall>name. map_option (\<lambda>e. (me_response_type e, me_handler e)) (reg_methods reg' name) =
          (case map_of (rev ms) name of
             None \<Rightarrow> map_option (\<lambda>e. (me_response_type e, me_handler e)) (reg_methods reg name)
           | Some (rt, h) \<Rightarrow> Some (rt, TypedHandler_new h)))"
proof (induction ms arbitrary: n reg)
  case (Cons m ms)
  obtain name rt h where m: "m = (name, rt, h)" by (cases m)
  from Cons.prems register_inv [of n reg oc name rt h] obtain reg1 where
    r1: "register oc name rt h reg = Ok reg1" "reg_inv (Suc n) reg1"
      "reg_methods reg1 = (reg_methods reg)(name \<mapsto>
        \<lparr>me_handler = TypedHandler_new h, me_response_type = rt, me_id = next_method_id reg\<rparr>)"
    by auto
  from Cons.IH [OF r1(2)] Cons.prems obtain reg2 where
    r2: "register_all oc ms reg1 = Ok reg2" "reg_inv (Suc n + length ms) reg2"
      "\<forall>nm. map_option (\<lambda>e. (me_response_type e, me_handler e)) (reg_methods reg2 nm) =
          (case map_of (rev ms) nm of
             None \<Rightarrow> map_option (\<lambda>e. (me_response_type e, me_handler e)) (reg_methods reg1 nm)
           | Some (rt, h) \<Rightarrow> Some (rt, TypedHandler_new h))"
    by auto
  have "map_option (\<lambda>e. (me_response_type e, me_handler e)) (reg_methods reg2 nm) =
      (case map_of (rev (m # ms)) nm of
         None \<Rightarrow> map_option (\<lambda>e. (me_response_type e, me_handler e)) (reg_methods reg nm)
       | Some (rt, h) \<Rightarrow> Some (rt, TypedHandler_new h))" for nm
    using r2(3) [rule_format, of nm] r1(3)
    by (auto simp: m map_add_def split: option.splits)
  with r1(1) r2(1,2) show ?case by (auto simp: m)
qed simp

lemma schema_methods_fold:
  "distinct (map fst ms) \<Longrightarrow>
   schema_methods (fold (\<lambda>(name, e). add_method name (me_id e) (me_response_type e)) ms s) name =
     (case map_of ms name of None \<Rightarrow> schema_methods s name
      | Some e \<Rightarrow> Some \<lparr>ms_id = me_id e, ms_response = me_response_type e\<rparr>)"
proof (induction ms arbitrary: s)
  case (Cons m ms)
  then show ?case
    by (cases m) (auto simp: add_method_def split: option.splits dest: map_of_SomeD intro: rev_image_eqI)
qed simp

lemma schema_methods_events [simp]:
  "schema_methods (fold (\<lambda>(name, i). add_event name i) evs s) = schema_methods s"
  by (induction evs arbitrary: s) (auto simp: add_event_def)

lemma build_schema_methods:
  "distinct (map fst ms) \<Longrightarrow> schema_methods (build_schema ms evs) name =
     map_option (\<lambda>e. \<lparr>ms_id = me_id e, ms_response = me_response_type e\<rparr>) (map_of ms name)"
  by (simp add: build_schema_def schema_methods_fold InitSchema_new_def split: option.split)

lemma schema_events_fold:
  "distinct (map fst evs) \<Longrightarrow> schema_events (fold (\<lambda>(name, i). add_event name i) evs s) name =
     (case map_of evs name of None \<Rightarrow> schema_events s name | Some i \<Rightarrow> Some \<lparr>es_id = i\<rparr>)"
proof (induction evs arbitrary: s)
  case (Cons e evs)
  then show ?case
    by (cases e) (auto simp: add_event_def split: option.splits dest: map_of_SomeD intro: rev_image_eqI)
qed simp

lemma schema_events_methods [simp]:
  "schema_events (fold (\<lambda>(name, e). add_method name (me_id e) (me_response_type e)) ms s) = schema_events s"
  by (induction ms arbitrary: s) (auto simp: add_method_def)

lemma build_schema_announces:
  assumes "lists_map ms (reg_methods reg)" and "lists_map evs (reg_events reg)"
  shows "get_method name (build_schema ms evs) =
      map_option (\<lambda>e. \<lparr>ms_id = me_id e, ms_response = me_response_type e\<rparr>) (reg_methods reg name)"
    and "get_event name (build_schema ms evs) = map_option EventSchema.make (get_event_id reg name)"
proof -
  show "get_method name (build_schema ms evs) =
      map_option (\<lambda>e. \<lparr>ms_id = me_id e, ms_response = me_response_type e\<rparr>) (reg_methods reg name)"
    using assms(1) by (simp add: lists_map_def get_method_def build_schema_methods)
  show "get_event name (build_schema ms evs) = map_option EventSchema.make (get_event_id reg name)"
    using assms(2)
    by (simp add: lists_map_def get_event_def get_event_id_def EventSchema.make_def build_schema_def
        schema_events_fold InitSchema_new_def split: option.split)
qed

lemma next_id_bounds:
  assumes "reg_inv n reg" and "reg_methods reg name = Some e"
  shows "1 \<le> unat (me_id e) \<and> unat (me_id e) \<le> n"
proof -
  from assms have "id_to_name reg (me_id e) = Some name" "unat (next_method_id reg) = Suc n"
    by (simp_all add: reg_inv_def)
  with assms(1) have "me_id e \<noteq> 0" "me_id e < next_method_id reg" by (auto simp: reg_inv_def)
  with \<open>unat (next_method_id reg) = Suc n\<close> show ?thesis
    by (simp add: word_less_nat_alt unat_gt_0 Suc_le_eq)
qed

section \<open>Properties\<close>

text \<open>C28. What the registry announces is what it dispatches: after registering a list of at most
  65533 methods no call has panicked; whichever way the maps are iterated, the schema announces a
  method exactly if it was registered; the id announced for it is between 1 and the number of
  registrations (so none of the reserved ids), belongs to no other name, and leads the dispatcher
  to the handler and the response type of the last registration under that name.\<close>

theorem registry_announces_dispatch:
  assumes "length ms \<le> 65533" and "register_all oc ms HandlerRegistry_new = r"
  shows "\<exists>reg. r = Ok reg \<and> (\<forall>it evs name. lists_map it (reg_methods reg) \<longrightarrow>
      (case get_method name (build_schema it evs) of
         None \<Rightarrow> map_of (rev ms) name = None
       | Some m \<Rightarrow> (\<exists>rt h. map_of (rev ms) name = Some (rt, h)
           \<and> 1 \<le> unat (ms_id m) \<and> unat (ms_id m) \<le> length ms
           \<and> ms_id m \<notin> {RESERVED_METHOD_ID, AUTH_METHOD_ID, ABORT_METHOD_ID}
           \<and> get_method_name reg (ms_id m) = Some name
           \<and> get_handler_by_id reg (ms_id m) = Some (TypedHandler_new h)
           \<and> ms_response m = rt \<and> get_response_type_by_id reg (ms_id m) = Some rt)))"
proof -
  obtain reg where reg: "r = Ok reg" "reg_inv (length ms) reg" and
    all: "\<forall>name. map_option (\<lambda>e. (me_response_type e, me_handler e)) (reg_methods reg name) =
      (case map_of (rev ms) name of
         None \<Rightarrow> map_option (\<lambda>e. (me_response_type e, me_handler e)) (reg_methods HandlerRegistry_new name)
       | Some (rt, h) \<Rightarrow> Some (rt, TypedHandler_new h))"
    using register_all_inv [OF reg_inv_new, of ms oc] assms by auto
  have meth: "map_option (\<lambda>e. (me_response_type e, me_handler e)) (reg_methods reg name) =
      map_option (\<lambda>(rt, h). (rt, TypedHandler_new h)) (map_of (rev ms) name)" for name
    using all [rule_format, of name]
    by (simp add: HandlerRegistry_new_def split: option.splits prod.splits)
  show ?thesis
  proof (intro exI conjI allI impI)
    fix it evs name assume "lists_map it (reg_methods reg)"
    then have it: "distinct (map fst it)" "map_of it = reg_methods reg" by (simp_all add: lists_map_def)
    show "case get_method name (build_schema it evs) of
         None \<Rightarrow> map_of (rev ms) name = None
       | Some m \<Rightarrow> (\<exists>rt h. map_of (rev ms) name = Some (rt, h)
           \<and> 1 \<le> unat (ms_id m) \<and> unat (ms_id m) \<le> length ms
           \<and> ms_id m \<notin> {RESERVED_METHOD_ID, AUTH_METHOD_ID, ABORT_METHOD_ID}
           \<and> get_method_name reg (ms_id m) = Some name
           \<and> get_handler_by_id reg (ms_id m) = Some (TypedHandler_new h)
           \<and> ms_response m = rt \<and> get_response_type_by_id reg (ms_id m) = Some rt)"
    proof (cases "reg_methods reg name")
      case None
      with it meth [of name] show ?thesis by (simp add: get_method_def build_schema_methods)
    next
      case (Some e)
      with meth [of name] obtain h where h: "map_of (rev ms) name = Some (me_response_type e, h)"
        "me_handler e = TypedHandler_new h" by (auto simp: map_option_case split: option.splits)
      have b: "1 \<le> unat (me_id e)" "unat (me_id e) \<le> length ms"
        using next_id_bounds [OF reg(2) Some] by auto
      then have "me_id e \<notin> {RESERVED_METHOD_ID, AUTH_METHOD_ID, ABORT_METHOD_ID}"
        using assms(1) by (auto simp: RESERVED_METHOD_ID_def AUTH_METHOD_ID_def ABORT_METHOD_ID_def)
      moreover have "id_to_name reg (me_id e) = Some name"
        using reg(2) Some by (simp add: reg_inv_def)
      ultimately show ?thesis
        using it Some h b
        by (simp add: get_method_def build_schema_methods get_method_name_def
            get_handler_by_id_def get_response_type_by_id_def)
    qed
  qed (rule reg(1))
qed

theorem registry_announces_dispatch_witness:
  "\<exists>reg. register_all True [(''echo'', RResult, \<lambda>(v :: nat) ctx. HDone (Ok ()))] HandlerRegistry_new
      = Ok reg
    \<and> get_handler_by_id reg 1 = Some (TypedHandler_new (\<lambda>v ctx. HDone (Ok ())))
    \<and> get_response_type_by_id reg 1 = Some RResult"
proof -
  let ?h = "\<lambda>(v :: nat) ctx. HDone (Ok ())"
  let ?e = "\<lparr>me_handler = TypedHandler_new ?h, me_response_type = RResult, me_id = 1\<rparr>"
  obtain reg where reg: "register_all True [(''echo'', RResult, ?h)] HandlerRegistry_new = Ok reg"
    "reg_methods reg = [''echo'' \<mapsto> ?e]"
    by (simp add: register_def u16_inc_def HandlerRegistry_new_def Let_def)
  then have it: "lists_map [(''echo'', ?e)] (reg_methods reg)" by (simp add: lists_map_def)
  have len: "length [(''echo'', RResult, ?h)] \<le> 65533" by simp
  from registry_announces_dispatch [OF len reg(1)] show ?thesis
  proof (elim exE conjE, goal_cases)
    case (1 reg')
    from 1(2) [rule_format, of "[(''echo'', ?e)]" "''echo''" "[]"] 1(1) it reg(1) show ?case
      by (simp add: get_method_def build_schema_methods)
  qed
qed

text \<open>The ids run into the reserved ones: the 65534th registration succeeds and its method is
  registered under the id that the protocol reserves for AUTH frames.\<close>

theorem registry_assigns_reserved_ids:
  assumes "length ms = 65533"
  shows "\<exists>reg reg'. register_all oc ms HandlerRegistry_new = Ok reg
    \<and> register oc name rt h reg = Ok reg' \<and> get_method_id reg' name = Some AUTH_METHOD_ID"
proof -
  from register_all_inv [OF reg_inv_new, of ms oc] assms obtain reg where
    reg: "register_all oc ms HandlerRegistry_new = Ok reg" "reg_inv 65533 reg" by auto
  then have "unat (next_method_id reg) = unat AUTH_METHOD_ID"
    by (simp add: reg_inv_def AUTH_METHOD_ID_def)
  then have "next_method_id reg = AUTH_METHOD_ID" by (simp add: word_unat_eq_iff)
  moreover obtain reg' where "register oc name rt h reg = Ok reg'"
    "reg_methods reg' = (reg_methods reg)(name \<mapsto>
        \<lparr>me_handler = TypedHandler_new h, me_response_type = rt, me_id = next_method_id reg\<rparr>)"
    using register_inv [OF reg(2), of oc name rt h] by auto
  ultimately show ?thesis using reg(1) by (simp add: get_method_id_def)
qed

theorem registry_assigns_reserved_ids_witness:
  "\<exists>reg reg'. register_all True (replicate 65533 (''a'', RAck, \<lambda>(v :: nat) ctx. HDone (Ok ())))
       HandlerRegistry_new = Ok reg
    \<and> register True ''b'' RAck (\<lambda>v ctx. HDone (Ok ())) reg = Ok reg'
    \<and> get_method_id reg' ''b'' = Some AUTH_METHOD_ID"
  by (rule registry_assigns_reserved_ids) (simp only: length_replicate)

end
