(* ===== verification/Frame_Buffer.thy ===== *)
theory Frame_Buffer
  imports Frames
begin

text \<open>
  The frame buffer (\<open>src/protocol/frame_buffer.rs\<close>): the accumulating byte buffer, the
  two-state parser and its operations, with \<open>push\<close> as the loop of the source. The buffer's
  capacity only affects allocation and is not part of the state.

  The specification is the stateless parser \<open>parse_all\<close>, which splits a byte sequence into
  frames, an optional framing error and the bytes left over. \<open>push\<close> refines it through the
  abstraction \<open>unread\<close> (the bytes received and not yet returned in a frame); from that follow
  the independence of the results from how the stream is fragmented, the round trip with
  \<open>build_frame\<close>, the validity of every returned frame, and that a framing error is sticky.
\<close>

section \<open>Model\<close>

datatype State = WaitingForHeader | WaitingForPayload (wp_header: Header) (wp_remaining: u32)

record FrameBuffer =
  buffer :: bytes
  state :: State
  max_payload_size :: u32

definition FrameBuffer_new :: FrameBuffer where
  "FrameBuffer_new =
     \<lparr>buffer = [], state = WaitingForHeader, max_payload_size = DEFAULT_MAX_PAYLOAD_SIZE\<rparr>"

definition FrameBuffer_with_max_payload :: "u32 \<Rightarrow> FrameBuffer" where
  "FrameBuffer_with_max_payload m =
     \<lparr>buffer = [], state = WaitingForHeader, max_payload_size = m\<rparr>"

definition FrameBuffer_default :: FrameBuffer where
  "FrameBuffer_default = FrameBuffer_new"

definition FrameBuffer_with_capacity_and_max_payload :: "nat \<Rightarrow> u32 \<Rightarrow> FrameBuffer" where
  "FrameBuffer_with_capacity_and_max_payload capacity m =
     \<lparr>buffer = [], state = WaitingForHeader, max_payload_size = m\<rparr>"

function try_extract_one :: "FrameBuffer \<Rightarrow> (Frame option, fault) result \<times> FrameBuffer" where
  "try_extract_one fb = (case state fb of
      WaitingForHeader \<Rightarrow>
        if length (buffer fb) < HEADER_SIZE then (Ok None, fb)
        else (case Header_decode (take HEADER_SIZE (buffer fb)) of
            None \<Rightarrow> (Err (Panic ''Buffer has enough bytes''), fb)
          | Some h \<Rightarrow> (case Header_validate h (max_payload_size fb) of
                Inl e \<Rightarrow> (Err (Fail e), fb)
              | Inr _ \<Rightarrow>
                  let fb = fb\<lparr>buffer := drop HEADER_SIZE (buffer fb)\<rparr> in
                  if payload_length h = 0 then (Ok (Some (Frame_new h [])), fb)
                  else try_extract_one
                    (fb\<lparr>state := WaitingForPayload h (payload_length h)\<rparr>)))
    | WaitingForPayload h remaining \<Rightarrow>
        let remaining = unat remaining in
        if length (buffer fb) < remaining then (Ok None, fb)
        else let p = take remaining (buffer fb) in
          (Ok (Some (Frame_new h p)),
           fb\<lparr>buffer := drop remaining (buffer fb), state := WaitingForHeader\<rparr>))"
  by pat_completeness auto
termination
  by (relation "measure (\<lambda>fb. case state fb of WaitingForHeader \<Rightarrow> 1 | _ \<Rightarrow> 0)") auto

declare try_extract_one.simps [simp del]

text \<open>What the loop of \<open>push\<close> consumes: the bytes in the buffer, and those of a header that
  has been taken out already.\<close>

definition unread :: "FrameBuffer \<Rightarrow> bytes" where
  "unread fb = (case state fb of
      WaitingForHeader \<Rightarrow> buffer fb
    | WaitingForPayload h _ \<Rightarrow> Header_encode h @ buffer fb)"

lemma try_extract_one_WaitingForPayload:
  "try_extract_one (fb\<lparr>state := WaitingForPayload h r\<rparr>) =
     (if length (buffer fb) < unat r then (Ok None, fb\<lparr>state := WaitingForPayload h r\<rparr>)
      else (Ok (Some (Frame_new h (take (unat r) (buffer fb)))),
        fb\<lparr>buffer := drop (unat r) (buffer fb), state := WaitingForHeader\<rparr>))"
  by (subst try_extract_one.simps) (simp add: Let_def)

lemma try_extract_one_progress:
  assumes "try_extract_one fb = (Ok (Some f), fb')"
  shows "length (unread fb') < length (unread fb)"
proof (cases "state fb")
  case WaitingForHeader
  with assms show ?thesis
    by (subst (asm) try_extract_one.simps)
      (auto simp: unread_def HEADER_SIZE_def Let_def try_extract_one_WaitingForPayload
        split: if_splits option.splits sum.splits)
next
  case (WaitingForPayload h r)
  with assms show ?thesis
    by (subst (asm) try_extract_one.simps) (auto simp: unread_def Let_def split: if_splits)
qed

function push_loop :: "FrameBuffer \<Rightarrow> Frame list \<Rightarrow> (Frame list, fault) result \<times> FrameBuffer"
  where
  "push_loop fb frames = (case try_extract_one fb of
      (Inl e, fb') \<Rightarrow> (Err e, fb')
    | (Inr None, fb') \<Rightarrow> (Ok frames, fb')
    | (Inr (Some f), fb') \<Rightarrow> push_loop fb' (frames @ [f]))"
  by pat_completeness auto
termination
  by (relation "measure (\<lambda>(fb, _). length (unread fb))") (auto dest: try_extract_one_progress [OF sym])

declare push_loop.simps [simp del]

definition push :: "FrameBuffer \<Rightarrow> bytes \<Rightarrow> (Frame list, fault) result \<times> FrameBuffer" where
  "push fb data = push_loop (fb\<lparr>buffer := buffer fb @ data\<rparr>) []"

definition try_extract :: "FrameBuffer \<Rightarrow> Frame option \<times> FrameBuffer" where
  "try_extract fb = (case try_extract_one fb of
      (Inr r, fb') \<Rightarrow> (r, fb') | (Inl _, fb') \<Rightarrow> (None, fb'))"

definition extend :: "FrameBuffer \<Rightarrow> bytes \<Rightarrow> FrameBuffer" where
  "extend fb data = fb\<lparr>buffer := buffer fb @ data\<rparr>"

definition FrameBuffer_len :: "FrameBuffer \<Rightarrow> nat" where
  "FrameBuffer_len fb = length (buffer fb)"

definition FrameBuffer_is_empty :: "FrameBuffer \<Rightarrow> bool" where
  "FrameBuffer_is_empty fb \<longleftrightarrow> buffer fb = []"

definition FrameBuffer_clear :: "FrameBuffer \<Rightarrow> FrameBuffer" where
  "FrameBuffer_clear fb = fb\<lparr>buffer := [], state := WaitingForHeader\<rparr>"

definition state_name :: "FrameBuffer \<Rightarrow> rstr" where
  "state_name fb = (case state fb of
      WaitingForHeader \<Rightarrow> ''WaitingForHeader'' | WaitingForPayload _ _ \<Rightarrow> ''WaitingForPayload'')"

section \<open>Specification: the stateless parser\<close>

definition parse_one :: "u32 \<Rightarrow> bytes \<Rightarrow> ((Frame \<times> bytes) option, ProcwireError) result" where
  "parse_one m bs = (case Header_decode bs of
      None \<Rightarrow> Ok None
    | Some h \<Rightarrow> (case Header_validate h m of
          Inl e \<Rightarrow> Err e
        | Inr _ \<Rightarrow>
            let n = HEADER_SIZE + unat (payload_length h) in
            Ok (if length bs < n then None
                else Some (Frame_new h (drop HEADER_SIZE (take n bs)), drop n bs))))"

lemma parse_one_shorter:
  "parse_one m bs = Ok (Some (f, rest)) \<Longrightarrow> length rest < length bs"
  by (auto simp: parse_one_def HEADER_SIZE_def Let_def split: option.splits sum.splits if_splits)

function parse_all :: "u32 \<Rightarrow> bytes \<Rightarrow> Frame list \<times> ProcwireError option \<times> bytes" where
  "parse_all m bs = (case parse_one m bs of
      Inl e \<Rightarrow> ([], Some e, bs)
    | Inr None \<Rightarrow> ([], None, bs)
    | Inr (Some (f, rest)) \<Rightarrow> (case parse_all m rest of (fs, e, r) \<Rightarrow> (f # fs, e, r)))"
  by pat_completeness auto
termination
  by (relation "measure (\<lambda>(_, bs). length bs)") (auto dest: parse_one_shorter)

declare parse_all.simps [simp del]

lemma parse_all_simps [frame_simps]:
  "parse_one m bs = Err e \<Longrightarrow> parse_all m bs = ([], Some e, bs)"
  "parse_one m bs = Ok None \<Longrightarrow> parse_all m bs = ([], None, bs)"
  "parse_one m bs = Ok (Some (f, rest)) \<Longrightarrow>
     parse_all m bs = (case parse_all m rest of (fs, e, r) \<Rightarrow> (f # fs, e, r))"
  by (simp_all add: parse_all.simps [of m bs])

lemma parse_one_Nil [simp]: "parse_one m [] = Ok None"
  by (simp add: parse_one_def Header_decode_def HEADER_SIZE_def)

lemma parse_one_cases:
  obtains (error) e where "parse_one m bs = Err e"
  | (need_more) "parse_one m bs = Ok None"
  | (frame) f rest where "parse_one m bs = Ok (Some (f, rest))"
  by (cases "parse_one m bs") (auto, metis option.exhaust surj_pair)

text \<open>The buffer after all complete frames of \<open>bs\<close> are gone: a valid header is held in the
  state, anything else stays in the buffer.\<close>

definition settle :: "u32 \<Rightarrow> bytes \<Rightarrow> FrameBuffer" where
  "settle m bs = (case Header_decode bs of
      Some h \<Rightarrow> if Header_validate h m = Ok ()
        then \<lparr>buffer = drop HEADER_SIZE bs, state = WaitingForPayload h (payload_length h),
              max_payload_size = m\<rparr>
        else \<lparr>buffer = bs, state = WaitingForHeader, max_payload_size = m\<rparr>
    | None \<Rightarrow> \<lparr>buffer = bs, state = WaitingForHeader, max_payload_size = m\<rparr>)"

text \<open>The invariant of the parser state: a held header has been validated, announces a payload,
  and the length still to come is the announced one.\<close>

definition fb_inv :: "FrameBuffer \<Rightarrow> bool" where
  "fb_inv fb \<longleftrightarrow> (case state fb of
      WaitingForHeader \<Rightarrow> True
    | WaitingForPayload h r \<Rightarrow> Header_validate h (max_payload_size fb) = Ok ()
        \<and> r = payload_length h \<and> r \<noteq> 0)"

section \<open>Refinement\<close>

lemma Header_decode_take [simp]: "Header_decode (take 11 bs) = Header_decode bs"
  by (auto simp: Header_decode_def HEADER_SIZE_def)

lemma parse_one_encode:
  "Header_validate h m = Ok () \<Longrightarrow>
   parse_one m (Header_encode h @ bs) =
     Ok (if length bs < unat (payload_length h) then None
         else Some (Frame_new h (take (unat (payload_length h)) bs),
                    drop (unat (payload_length h)) bs))"
  by (simp add: parse_one_def HEADER_SIZE_def Let_def)

lemma Header_split:
  assumes "Header_decode bs = Some h"
  obtains rest where "bs = Header_encode h @ rest"
  using Header_encode_decode [OF assms] by (metis append_take_drop_id)

lemma try_extract_one_spec:
  assumes "fb_inv fb"
  shows "try_extract_one fb = (case parse_one (max_payload_size fb) (unread fb) of
      Inl e \<Rightarrow> (Err (Fail e), settle (max_payload_size fb) (unread fb))
    | Inr None \<Rightarrow> (Ok None, settle (max_payload_size fb) (unread fb))
    | Inr (Some (f, rest)) \<Rightarrow> (Ok (Some f),
        \<lparr>buffer = rest, state = WaitingForHeader, max_payload_size = max_payload_size fb\<rparr>))"
proof (cases "state fb")
  case (WaitingForPayload h r)
  with assms have h: "Header_validate h (max_payload_size fb) = Ok ()" and r: "r = payload_length h"
    by (auto simp: fb_inv_def)
  show ?thesis
    by (subst try_extract_one.simps)
      (simp add: WaitingForPayload h r unread_def parse_one_encode settle_def HEADER_SIZE_def
        Let_def)
next
  case WaitingForHeader
  let ?bs = "buffer fb"
  have fb: "fb = \<lparr>buffer = ?bs, state = WaitingForHeader, max_payload_size = max_payload_size fb\<rparr>"
    using WaitingForHeader by simp
  have u: "unread fb = ?bs" by (simp add: unread_def WaitingForHeader)
  show ?thesis
  proof (cases "Header_decode ?bs")
    case None
    then have "length ?bs < 11" by (simp add: Header_decode_None_iff)
    with None fb show ?thesis
      by (subst try_extract_one.simps)
        (simp add: WaitingForHeader u parse_one_def settle_def HEADER_SIZE_def)
  next
    case (Some h)
    then obtain rest where bs: "?bs = Header_encode h @ rest" by (rule Header_split)
    show ?thesis
    proof (cases "Header_validate h (max_payload_size fb)")
      case (Inl e)
      with Some bs fb show ?thesis
        by (subst try_extract_one.simps)
          (simp add: WaitingForHeader u parse_one_def settle_def HEADER_SIZE_def)
    next
      case (Inr v)
      then have v: "Header_validate h (max_payload_size fb) = Ok ()" by simp
      from Some bs fb v show ?thesis
        by (subst try_extract_one.simps)
          (simp add: WaitingForHeader u parse_one_encode settle_def HEADER_SIZE_def Let_def
            try_extract_one_WaitingForPayload)
    qed
  qed
qed

lemma push_loop_spec:
  assumes "fb_inv fb"
  shows "push_loop fb acc = (case parse_all (max_payload_size fb) (unread fb) of (fs, e, rest) \<Rightarrow>
      ((case e of None \<Rightarrow> Ok (acc @ fs) | Some e \<Rightarrow> Err (Fail e)),
       settle (max_payload_size fb) rest))"
  using assms
proof (induction fb acc rule: push_loop.induct)
  case (1 fb acc)
  let ?m = "max_payload_size fb"
  note spec = try_extract_one_spec [OF "1.prems"]
  show ?case
  proof (cases ?m "unread fb" rule: parse_one_cases)
    case (frame f rest)
    let ?fb = "\<lparr>buffer = rest, state = WaitingForHeader, max_payload_size = ?m\<rparr>"
    from frame have t: "try_extract_one fb = (Ok (Some f), ?fb)" by (simp add: spec)
    have "fb_inv ?fb" "unread ?fb = rest" by (simp_all add: fb_inv_def unread_def)
    with "1.IH" [OF t [symmetric]] frame t show ?thesis
      by (subst push_loop.simps) (simp add: frame_simps split: prod.splits option.splits)
  qed (subst push_loop.simps, simp add: spec frame_simps)+
qed

lemma fb_inv_buffer [simp]: "fb_inv (fb\<lparr>buffer := b\<rparr>) = fb_inv fb"
  by (simp add: fb_inv_def split: State.splits)

lemma unread_append: "unread (fb\<lparr>buffer := buffer fb @ data\<rparr>) = unread fb @ data"
  by (simp add: unread_def split: State.splits)

lemma push_spec:
  "fb_inv fb \<Longrightarrow>
   push fb data = (case parse_all (max_payload_size fb) (unread fb @ data) of (fs, e, rest) \<Rightarrow>
      ((case e of None \<Rightarrow> Ok fs | Some e \<Rightarrow> Err (Fail e)), settle (max_payload_size fb) rest))"
  using push_loop_spec [of "fb\<lparr>buffer := buffer fb @ data\<rparr>" "[]"]
  by (simp add: push_def unread_append split: prod.splits option.splits)

lemma settle_simps [simp]:
  "max_payload_size (settle m bs) = m" "unread (settle m bs) = bs"
  by (auto simp: settle_def unread_def HEADER_SIZE_def Header_encode_decode
      split: option.splits)

section \<open>The stateless parser\<close>

lemma parse_one_append:
  "parse_one m a = Ok (Some (f, rest)) \<Longrightarrow> parse_one m (a @ b) = Ok (Some (f, rest @ b))"
  "parse_one m a = Err e \<Longrightarrow> parse_one m (a @ b) = Err e"
proof -
  have d: "Header_decode (a @ b) = Some h" if "Header_decode a = Some h" for h
    using that by (auto elim: Header_split)
  show "parse_one m a = Ok (Some (f, rest)) \<Longrightarrow> parse_one m (a @ b) = Ok (Some (f, rest @ b))"
    by (auto simp: parse_one_def Let_def d split: option.splits sum.splits if_splits)
  show "parse_one m a = Err e \<Longrightarrow> parse_one m (a @ b) = Err e"
    by (auto simp: parse_one_def Let_def d split: option.splits sum.splits if_splits)
qed

lemma parse_all_rest:
  "parse_all m bs = (fs, e, rest) \<Longrightarrow>
     parse_one m rest = (case e of None \<Rightarrow> Ok None | Some x \<Rightarrow> Err x)"
proof (induction m bs arbitrary: fs rule: parse_all.induct)
  case (1 m bs)
  show ?case
  proof (cases m bs rule: parse_one_cases)
    case (frame f r)
    with "1.prems" "1.IH" [OF frame refl refl] show ?thesis
      by (auto simp: frame_simps split: prod.splits)
  qed (use "1.prems" in \<open>auto simp: frame_simps\<close>)
qed

lemma parse_all_rest_None: "parse_all m bs = (fs, None, rest) \<Longrightarrow> parse_one m rest = Ok None"
  using parse_all_rest [of m bs fs None rest] by simp

lemma parse_all_rest_Some: "parse_all m bs = (fs, Some e, rest) \<Longrightarrow> parse_one m rest = Err e"
  using parse_all_rest [of m bs fs "Some e" rest] by simp

lemma parse_all_append:
  "parse_all m (a @ b) = (case parse_all m a of
      (fs, None, rest) \<Rightarrow> (case parse_all m (rest @ b) of (gs, e, r) \<Rightarrow> (fs @ gs, e, r))
    | (fs, Some e, rest) \<Rightarrow> (fs, Some e, rest @ b))"
proof (induction m a rule: parse_all.induct)
  case (1 m a)
  show ?case
  proof (cases m a rule: parse_one_cases)
    case (frame f rest)
    with "1.IH" [OF frame refl refl] show ?thesis
      by (simp add: frame_simps parse_one_append split: prod.splits option.splits)
  next
    case (error e)
    then show ?thesis by (simp add: frame_simps parse_one_append)
  next
    case need_more
    then show ?thesis by (simp add: frame_simps split: prod.splits)
  qed
qed

lemma parse_one_frame:
  "frame_ok m f \<Longrightarrow> parse_one m (frame_bytes f @ rest) = Ok (Some (f, rest))"
  by (simp add: frame_ok_def frame_bytes_eq parse_one_encode)

lemma parse_one_sound:
  assumes "parse_one m bs = Ok (Some (f, rest))"
  shows "frame_ok m f \<and> bs = frame_bytes f @ rest"
proof -
  from assms obtain h where h: "Header_decode bs = Some h" "Header_validate h m = Ok ()"
    by (auto simp: parse_one_def split: option.splits sum.splits)
  from h(1) obtain r where "bs = Header_encode h @ r" by (rule Header_split)
  with assms h(2) show ?thesis
    by (auto simp: parse_one_encode frame_ok_def frame_bytes_eq split: if_splits)
qed

lemma parse_all_frames:
  "list_all (frame_ok m) fs \<Longrightarrow> parse_all m (concat (map frame_bytes fs)) = (fs, None, [])"
proof (induction fs)
  case Nil
  show ?case by (simp add: frame_simps)
next
  case (Cons f fs)
  then have "parse_one m (concat (map frame_bytes (f # fs))) =
      Ok (Some (f, concat (map frame_bytes fs)))"
    by (simp add: parse_one_frame)
  with Cons show ?case by (simp add: frame_simps del: concat.simps list.map)
qed

lemma parse_all_sound:
  "parse_all m bs = (fs, e, rest) \<Longrightarrow>
     list_all (frame_ok m) fs \<and> bs = concat (map frame_bytes fs) @ rest"
proof (induction m bs arbitrary: fs rule: parse_all.induct)
  case (1 m bs)
  show ?case
  proof (cases m bs rule: parse_one_cases)
    case (frame f r)
    with "1.prems" "1.IH" [OF frame refl refl] parse_one_sound [OF frame] show ?thesis
      by (auto simp: frame_simps split: prod.splits)
  qed (use "1.prems" in \<open>auto simp: frame_simps\<close>)
qed

lemma parse_all_short: "length bs < 11 \<Longrightarrow> parse_all m bs = ([], None, bs)"
  by (rule parse_all_simps) (simp add: parse_one_def Header_decode_def HEADER_SIZE_def)

lemma parse_all_frames_tail:
  "list_all (frame_ok m) fs \<Longrightarrow> length bs < 11 \<Longrightarrow>
     parse_all m (concat (map frame_bytes fs) @ bs) = (fs, None, bs)"
  using parse_all_append [of m "concat (map frame_bytes fs)" bs]
  by (simp add: parse_all_frames parse_all_short)

lemma parse_all_prefix:
  assumes "parse_all m (a @ b) = (fs, None, r)"
  obtains gs hs r' where "parse_all m a = (gs, None, r')" and "fs = gs @ hs"
  using assms parse_all_append [of m a b]
  by (cases "parse_all m a") (auto split: option.splits prod.splits)

section \<open>Interfaces of the buffer\<close>

definition take_frame :: "u32 \<Rightarrow> bytes \<Rightarrow> (Frame \<times> bytes) option" where
  "take_frame m bs = (case parse_one m bs of Inr r \<Rightarrow> r | Inl _ \<Rightarrow> None)"

interpretation frm: prefix_codec frame_bytes "take_frame m" "frame_ok m" for m
  by unfold_locales (simp_all add: take_frame_def parse_one_frame)

definition fb_idle :: "FrameBuffer \<Rightarrow> bool" where
  "fb_idle fb \<longleftrightarrow> fb = settle (max_payload_size fb) (unread fb)
     \<and> parse_one (max_payload_size fb) (unread fb) = Ok None"

lemma fb_inv_settle:
  assumes "parse_one m bs = Ok None \<or> (\<exists>e. parse_one m bs = Err e)"
  shows "fb_inv (settle m bs)"
proof (cases "Header_decode bs")
  case None
  then show ?thesis by (simp add: settle_def fb_inv_def)
next
  case (Some h)
  then obtain rest where "bs = Header_encode h @ rest" by (rule Header_split)
  with assms Some show ?thesis
    by (auto simp: settle_def fb_inv_def parse_one_encode split: if_splits)
qed

lemma fb_inv_idle: "fb_idle fb \<Longrightarrow> fb_inv fb"
  unfolding fb_idle_def by (metis fb_inv_settle)

lemma fb_idle_settle: "parse_one m bs = Ok None \<Longrightarrow> fb_idle (settle m bs)"
  by (simp add: fb_idle_def)

lemma with_max_payload_eq: "FrameBuffer_with_max_payload m = settle m []"
  by (simp add: FrameBuffer_with_max_payload_def settle_def Header_decode_def HEADER_SIZE_def)

lemma fb_idle_with_max_payload [simp]: "fb_idle (FrameBuffer_with_max_payload m)"
  unfolding with_max_payload_eq
  by (rule fb_idle_settle) simp

lemma with_max_payload_simps [simp]:
  "max_payload_size (FrameBuffer_with_max_payload m) = m"
  "unread (FrameBuffer_with_max_payload m) = []"
  "fb_inv (FrameBuffer_with_max_payload m)"
  by (simp_all add: FrameBuffer_with_max_payload_def unread_def fb_inv_def)

lemma push_Ok_iff:
  assumes "fb_inv fb"
  shows "push fb c = (Ok fs, fb') \<longleftrightarrow>
    (\<exists>rest. parse_all (max_payload_size fb) (unread fb @ c) = (fs, None, rest)
       \<and> fb' = settle (max_payload_size fb) rest)"
  by (auto simp: push_spec [OF assms] split: prod.splits option.splits)

lemma push_Err_iff:
  assumes "fb_inv fb"
  shows "push fb c = (Err x, fb') \<longleftrightarrow>
    (\<exists>fs e rest. parse_all (max_payload_size fb) (unread fb @ c) = (fs, Some e, rest)
       \<and> x = Fail e \<and> fb' = settle (max_payload_size fb) rest)"
  by (auto simp: push_spec [OF assms] split: prod.splits option.splits)

interpretation fbuf: framer push fb_idle
proof
  fix b :: FrameBuffer
  assume "fb_idle b"
  then show "push b [] = (Ok [], b)"
    by (simp add: push_Ok_iff fb_inv_idle frame_simps fb_idle_def)
next
  fix b c fs b'
  assume "fb_idle b" "push b c = (Ok fs, b')"
  then show "fb_idle b'"
    by (auto simp: push_Ok_iff fb_inv_idle intro: fb_idle_settle [OF parse_all_rest_None])
next
  fix b c fs b' d
  assume b: "fb_idle b" and p: "push b c = (Ok fs, b')"
  then obtain rest where r: "parse_all (max_payload_size b) (unread b @ c) = (fs, None, rest)"
    and b': "b' = settle (max_payload_size b) rest" by (auto simp: push_Ok_iff fb_inv_idle)
  from r have "fb_inv b'" 
    unfolding b' by (intro fb_inv_settle disjI1) (rule parse_all_rest_None)
  then show "push b (c @ d) = map_prod (map_sum id ((@) fs)) id (push b' d)"
    using b r parse_all_append [of "max_payload_size b" "unread b @ c" d]
    by (simp add: push_spec fb_inv_idle b' split: prod.splits option.splits)
next
  fix b c e b' d
  assume b: "fb_idle b" and p: "push b c = (Err e, b')"
  then show "fst (push b (c @ d)) = Err e"
    using parse_all_append [of "max_payload_size b" "unread b @ c" d]
    by (auto simp: push_spec fb_inv_idle split: prod.splits option.splits)
qed

text \<open>A frame buffer that has given out all complete frames it holds, fed with chunks: without a framing
  error it returns the frames of the stream. With one it returns the frames of the chunks before the
  one that completes the bad header.\<close>

abbreviation drained_buffer :: "FrameBuffer \<Rightarrow> bool" where
  "drained_buffer fb \<equiv> fb_inv fb \<and> parse_one (max_payload_size fb) (unread fb) = Ok None"

lemma feed_parse_all:
  assumes "drained_buffer fb" and "parse_all (max_payload_size fb) (unread fb @ concat chunks) = (fs, e, r)"
  shows "\<exists>gs fb'. feed push fb chunks = (gs, map_option Fail e, fb') \<and> (case e of
      None \<Rightarrow> gs = fs \<and> unread fb' = r \<and> drained_buffer fb' \<and> max_payload_size fb' = max_payload_size fb
    | Some x \<Rightarrow> \<exists>pre c post r0 r1. chunks = pre @ c # post
        \<and> parse_all (max_payload_size fb) (unread fb @ concat pre) = (gs, None, r0)
        \<and> parse_all (max_payload_size fb) (unread fb @ concat pre @ c) = (fs, Some x, r1))"
  using assms
proof (induction chunks arbitrary: fb fs)
  case Nil
  then show ?case by (auto simp: frame_simps)
next
  case (Cons c chunks)
  let ?m = "max_payload_size fb"
  obtain xs x r1 where c: "parse_all ?m (unread fb @ c) = (xs, x, r1)" by (rule prod_cases3)
  note more = parse_all_append [of ?m "unread fb @ c"]
  show ?case
  proof (cases x)
    case (Some y)
    then have "fs = xs" "e = Some y" using Cons.prems(2) more [of "concat chunks"] c by auto
    moreover have "push fb c = (Err (Fail y), settle ?m r1)"
      using Cons.prems(1) c Some by (auto simp: push_spec)
    moreover have "parse_all ?m (unread fb) = ([], None, unread fb)" using Cons.prems(1) by (simp add: frame_simps)
    moreover have "c # chunks = [] @ c # chunks" by simp
    ultimately show ?thesis using c Some
      by (intro exI [of _ "[]"] exI [of _ "settle ?m r1"]) (simp, metis append_Nil concat.simps(1) append_Nil2)
  next
    case None
    let ?fb = "settle ?m r1"
    have push: "push fb c = (Ok xs, ?fb)" using Cons.prems(1) c None by (auto simp: push_spec)
    have drained: "drained_buffer ?fb" using parse_all_rest_None [of ?m] c None by (auto simp: fb_inv_settle)
    obtain ys where ys: "parse_all ?m (r1 @ concat chunks) = (ys, e, r)" "fs = xs @ ys"
      using Cons.prems(2) more [of "concat chunks"] c None by (auto split: prod.splits)
    have pre: "parse_all ?m (unread fb @ c @ a) = (case parse_all ?m (r1 @ a) of (zs, e, r) \<Rightarrow> (xs @ zs, e, r))" for a
      using more [of a] c None by simp
    from Cons.IH [OF drained, unfolded settle_simps, OF ys(1)] obtain gs fb' where ih: "feed push ?fb chunks = (gs, map_option Fail e, fb')"
      "case e of None \<Rightarrow> gs = ys \<and> unread fb' = r \<and> drained_buffer fb' \<and> max_payload_size fb' = ?m
        | Some x \<Rightarrow> \<exists>pre d post r0 r2. chunks = pre @ d # post \<and> parse_all ?m (r1 @ concat pre) = (gs, None, r0)
            \<and> parse_all ?m (r1 @ concat pre @ d) = (ys, Some x, r2)" by blast
    show ?thesis
    proof (cases e)
      case None
      with ih push ys(2) show ?thesis by auto
    next
      case (Some z)
      with ih(2) obtain pre' d post r0 r2 where d: "chunks = pre' @ d # post"
        "parse_all ?m (r1 @ concat pre') = (gs, None, r0)" "parse_all ?m (r1 @ concat pre' @ d) = (ys, Some z, r2)" by auto
      then have "c # chunks = (c # pre') @ d # post"
        "parse_all ?m (unread fb @ concat (c # pre')) = (xs @ gs, None, r0)"
        "parse_all ?m (unread fb @ concat (c # pre') @ d) = (fs, Some z, r2)"
        using pre ys(2) by simp_all
      moreover have "feed push fb (c # chunks) = (xs @ gs, map_option Fail e, fb')" using push ih(1) by simp
      ultimately show ?thesis unfolding Some option.case by blast
    qed
  qed
qed

lemma feed_prefix:
  assumes "drained_buffer fb" and "parse_all (max_payload_size fb) (unread fb @ concat chunks) = (fs, e, r)"
  obtains gs hs fb' where "feed push fb chunks = (gs, map_option Fail e, fb')" and "fs = gs @ hs"
    and "e = None \<longrightarrow> hs = [] \<and> unread fb' = r \<and> drained_buffer fb' \<and> max_payload_size fb' = max_payload_size fb"
proof -
  from feed_parse_all [OF assms] obtain gs fb' where f: "feed push fb chunks = (gs, map_option Fail e, fb')"
    and c: "case e of
      None \<Rightarrow> gs = fs \<and> unread fb' = r \<and> drained_buffer fb' \<and> max_payload_size fb' = max_payload_size fb
    | Some x \<Rightarrow> \<exists>pre c post r0 r1. chunks = pre @ c # post
        \<and> parse_all (max_payload_size fb) (unread fb @ concat pre) = (gs, None, r0)
        \<and> parse_all (max_payload_size fb) (unread fb @ concat pre @ c) = (fs, Some x, r1)" by blast
  show thesis
  proof (cases e)
    case None
    with c f show thesis by (intro that [of gs fb' "[]"]) auto
  next
    case (Some x)
    with c obtain pre d r0 r1 where "parse_all (max_payload_size fb) (unread fb @ concat pre) = (gs, None, r0)"
      "parse_all (max_payload_size fb) (unread fb @ concat pre @ d) = (fs, Some x, r1)" by auto
    with parse_all_append [of "max_payload_size fb" "unread fb @ concat pre" d] have "\<exists>hs. fs = gs @ hs"
      by (auto split: prod.splits)
    with f Some show thesis by (auto intro: that)
  qed
qed

section \<open>Properties\<close>

abbreviation sample_frame :: Frame where
  "sample_frame \<equiv> Frame_new (Header_new 1 0 42 2) [104, 105]"

lemma sample_frame_ok: "frame_ok 100 sample_frame"
  by (simp add: frame_ok_def Header_validate_def Header_new_def RESERVED_METHOD_ID_def
      ABSOLUTE_MAX_PAYLOAD_SIZE_def RESERVED_MASK_def)

lemma parse_one_error: "parse_one m bs = Err e \<Longrightarrow> \<exists>msg. e = Protocol msg"
  by (auto simp: parse_one_def Let_def dest: Header_validate_Err split: option.splits sum.splits)

lemma length_buffer_settle:
  assumes "parse_one m bs = Ok None"
  shows "length (buffer (settle m bs)) < max 11 (min (unat m) (2 ^ 31 - 1))"
proof (cases "Header_decode bs")
  case None
  with Header_decode_None_iff [of bs] show ?thesis by (simp add: settle_def)
next
  case (Some h)
  then obtain rest where bs: "bs = Header_encode h @ rest" by (rule Header_split)
  from assms Some have v: "Header_validate h m = Ok ()"
    by (auto simp: parse_one_def split: sum.splits)
  with assms bs have "length rest < unat (payload_length h)"
    by (auto simp: parse_one_encode split: if_splits)
  moreover from v have "unat (payload_length h) \<le> min (unat m) (2 ^ 31 - 1)"
    by (simp add: Header_validate_Ok_iff ABSOLUTE_MAX_PAYLOAD_SIZE_def word_le_nat_alt)
  ultimately have "length rest < max 11 (min (unat m) (2 ^ 31 - 1))" by linarith
  then show ?thesis by (simp add: settle_def Some v bs HEADER_SIZE_def)
qed

text \<open>C3. \<open>push\<close> implements the stateless parser: on any buffer whose parser state is
  consistent, its result is what \<open>parse_all\<close> makes of the bytes received and not yet returned
  followed by the new ones, the bytes left over are exactly the parser's, and the buffer is
  consistent again; it never panics.\<close>

theorem push_refines_parse_all:
  assumes "fb_inv fb" and "push fb data = (r, fb')"
    and "parse_all (max_payload_size fb) (unread fb @ data) = (fs, e, rest)"
  shows "r = (case e of None \<Rightarrow> Ok fs | Some x \<Rightarrow> Err (Fail x)) \<and> unread fb' = rest
    \<and> max_payload_size fb' = max_payload_size fb \<and> fb_inv fb'"
proof -
  from assms have r: "r = (case e of None \<Rightarrow> Ok fs | Some x \<Rightarrow> Err (Fail x))"
    and fb': "fb' = settle (max_payload_size fb) rest"
    by (auto simp: push_spec)
  have "fb_inv fb'"
    unfolding fb' using parse_all_rest [OF assms(3)] by (intro fb_inv_settle) (cases e, auto)
  with r fb' show ?thesis by simp
qed

theorem push_refines_parse_all_witness:
  "unread (snd (push (FrameBuffer_with_max_payload 100) (frame_bytes sample_frame @ [0, 7])))
   = [0, 7]"
proof -
  have "parse_all (max_payload_size (FrameBuffer_with_max_payload 100))
      (unread (FrameBuffer_with_max_payload 100) @ frame_bytes sample_frame @ [0, 7])
      = ([sample_frame], None, [0, 7])"
    using parse_all_frames_tail [of 100 "[sample_frame]" "[0, 7]"] sample_frame_ok by simp
  from push_refines_parse_all [OF with_max_payload_simps(3) surjective_pairing this]
  show ?thesis by simp
qed

text \<open>C4. Fragmentation does not matter until a framing error: a fresh buffer given a byte stream in any
  chunks, one \<open>push\<close> after the other until one fails, returns exactly the frames of the stream and
  ends as after one \<open>push\<close> of the whole, if the stream has no framing error. If it has one, the same
  error is reported for every choice of chunks, and what has been returned is a prefix of the frames
  before it: exactly the frames of the chunks before the one that completes the bad header.\<close>

theorem push_fragmentation_independent:
  assumes "parse_all m (concat chunks) = (fs, e, r)"
  shows "\<exists>gs fb. feed push (FrameBuffer_with_max_payload m) chunks = (gs, map_option Fail e, fb)
    \<and> (case e of None \<Rightarrow> gs = fs \<and> push (FrameBuffer_with_max_payload m) (concat chunks) = (Ok fs, fb)
       | Some x \<Rightarrow> fst (push (FrameBuffer_with_max_payload m) (concat chunks)) = Err (Fail x)
           \<and> (\<exists>pre c post r0 r1 hs. chunks = pre @ c # post \<and> parse_all m (concat pre) = (gs, None, r0)
                \<and> parse_all m (concat pre @ c) = (fs, Some x, r1) \<and> fs = gs @ hs))"
proof (cases e)
  case None
  with assms have "push (FrameBuffer_with_max_payload m) (concat chunks) = (Ok fs, settle m r)" by (simp add: push_spec)
  with fbuf.feed_Ok [OF fb_idle_with_max_payload this] None show ?thesis by simp
next
  case (Some x)
  from feed_parse_all [of "FrameBuffer_with_max_payload m" chunks fs e r] assms Some
  obtain gs fb pre c post r0 r1 where f: "feed push (FrameBuffer_with_max_payload m) chunks = (gs, Some (Fail x), fb)"
    "chunks = pre @ c # post" "parse_all m (concat pre) = (gs, None, r0)" "parse_all m (concat pre @ c) = (fs, Some x, r1)"
    by auto
  moreover have "\<exists>hs. fs = gs @ hs"
    using parse_all_append [of m "concat pre" c] f(3,4) by (auto split: prod.splits)
  moreover have "fst (push (FrameBuffer_with_max_payload m) (concat chunks)) = Err (Fail x)"
    using assms Some by (simp add: push_spec)
  ultimately show ?thesis using Some by auto
qed

theorem push_fragmentation_independent_witness:
  "\<exists>fb. feed push (FrameBuffer_with_max_payload 100) [frame_bytes sample_frame @ [0], [7]] = ([sample_frame], None, fb)"
proof -
  have "parse_all 100 (concat [frame_bytes sample_frame @ [0], [7]]) = ([sample_frame], None, [0, 7])"
    using parse_all_frames_tail [of 100 "[sample_frame]" "[0, 7]"] sample_frame_ok by simp
  from push_fragmentation_independent [OF this] show ?thesis by auto
qed

text \<open>C13. Round trip: the concatenated \<open>build_frame\<close> images of well-formed frames are parsed
  back to exactly these frames, in order, and leave the buffer as it was created.\<close>

theorem push_build_frame_roundtrip:
  assumes "list_all (frame_ok m) fs"
  shows "push (FrameBuffer_with_max_payload m)
      (concat (map (\<lambda>f. build_frame (header f) (payload f)) fs))
    = (Ok fs, FrameBuffer_with_max_payload m)"
  using parse_all_frames [OF assms]
  by (simp add: push_Ok_iff frame_bytes_def [abs_def] flip: with_max_payload_eq)

theorem push_build_frame_roundtrip_witness:
  "push (FrameBuffer_with_max_payload 100)
     (concat (map (\<lambda>f. build_frame (header f) (payload f)) [sample_frame, sample_frame]))
   = (Ok [sample_frame, sample_frame], FrameBuffer_with_max_payload 100)"
  by (rule push_build_frame_roundtrip) (simp add: sample_frame_ok)

text \<open>C14. Nothing is lost or invented: after a successful \<open>push\<close> the bytes received so far are
  the wire images of the returned frames followed by the bytes still held, and every returned
  frame has a valid header and a payload of the announced length.\<close>

theorem push_conserves_bytes:
  assumes "fb_inv fb" and "push fb data = (Ok fs, fb')"
  shows "unread fb @ data = concat (map frame_bytes fs) @ unread fb'
    \<and> list_all (frame_ok (max_payload_size fb)) fs"
  using assms by (auto simp: push_Ok_iff dest!: parse_all_sound)

theorem push_conserves_bytes_witness:
  "frame_bytes sample_frame @ [0, 7] = concat (map frame_bytes [sample_frame])
     @ unread (snd (push (FrameBuffer_with_max_payload 100) (frame_bytes sample_frame @ [0, 7])))"
proof -
  have "push (FrameBuffer_with_max_payload 100) (frame_bytes sample_frame @ [0, 7])
      = (Ok [sample_frame], settle 100 [0, 7])"
    using parse_all_frames_tail [of 100 "[sample_frame]" "[0, 7]"] sample_frame_ok
    by (simp add: push_Ok_iff)
  from push_conserves_bytes [OF with_max_payload_simps(3) this] this show ?thesis by simp
qed

text \<open>C17. A framing error is a protocol error and is final: once a \<open>push\<close> has failed, every
  later \<open>push\<close> fails with the same error, whatever bytes arrive.\<close>

theorem push_error_sticky:
  assumes "fb_inv fb" and "push fb data = (Err x, fb')"
  shows "(\<exists>msg. x = Fail (Protocol msg)) \<and> fst (push fb' later) = Err x"
proof -
  from assms obtain fs e rest where
    p: "parse_all (max_payload_size fb) (unread fb @ data) = (fs, Some e, rest)"
    and x: "x = Fail e" and fb': "fb' = settle (max_payload_size fb) rest"
    by (auto simp: push_Err_iff)
  from p have e: "parse_one (max_payload_size fb) rest = Err e" by (rule parse_all_rest_Some)
  then have "fb_inv fb'" unfolding fb' by (intro fb_inv_settle) simp
  then show ?thesis
    using parse_one_error [OF e] parse_one_append(2) [OF e]
    by (auto simp: push_spec fb' x frame_simps)
qed

theorem push_error_sticky_witness:
  "fst (push (snd (push (FrameBuffer_with_max_payload 100) (Header_encode (Header_new 0 0 1 0))))
     [1, 2, 3])
   = Err (Fail (Protocol ''Method ID 0 is reserved''))"
proof -
  let ?fb = "FrameBuffer_with_max_payload 100" and ?bs = "Header_encode (Header_new 0 0 1 0)"
  have "parse_one 100 ?bs = Err (Protocol ''Method ID 0 is reserved'')"
    by (simp add: parse_one_def Header_validate_def Header_new_def RESERVED_METHOD_ID_def)
  then have "push ?fb ?bs = (Err (Fail (Protocol ''Method ID 0 is reserved'')), settle 100 ?bs)"
    by (simp add: push_Err_iff frame_simps)
  from push_error_sticky [OF with_max_payload_simps(3) this] this show ?thesis by simp
qed

text \<open>C40. Memory stays bounded: after a successful \<open>push\<close> the buffer holds fewer bytes than one
  header or one payload of the largest size that passes validation.\<close>

theorem push_buffer_bounded:
  assumes "fb_inv fb" and "push fb data = (Ok fs, fb')"
  shows "FrameBuffer_len fb'
    < max HEADER_SIZE (min (unat (max_payload_size fb)) (unat ABSOLUTE_MAX_PAYLOAD_SIZE))"
  using assms
  by (auto simp: push_Ok_iff FrameBuffer_len_def HEADER_SIZE_def ABSOLUTE_MAX_PAYLOAD_SIZE_def
      dest!: parse_all_rest_None length_buffer_settle)

theorem push_buffer_bounded_witness:
  "FrameBuffer_len (snd (push (FrameBuffer_with_max_payload 100) [0, 7])) < 100"
proof -
  have "push (FrameBuffer_with_max_payload 100) [0, 7] = (Ok [], settle 100 [0, 7])"
    by (simp add: push_Ok_iff parse_all_short)
  from push_buffer_bounded [OF with_max_payload_simps(3) this] this show ?thesis
    by (simp add: HEADER_SIZE_def)
qed

text \<open>The framing is unambiguous: two sequences of well-formed frames with the same wire
  bytes are the same sequence.\<close>

theorem frame_stream_unambiguous:
  assumes "list_all (frame_ok m) fs" and "list_all (frame_ok m) gs"
    and "concat (map frame_bytes fs) = concat (map frame_bytes gs)"
  shows "fs = gs"
  using assms by (rule frm.stream_unique)

theorem frame_stream_unambiguous_witness: "[sample_frame] = [sample_frame]"
  by (rule frame_stream_unambiguous [of 100]) (simp_all add: sample_frame_ok)

end
