(* ===== verification/Auth.thy ===== *)
theory Auth
  imports Frame_Buffer
begin

text \<open>
  The authentication of a data-plane connection (\<open>constant_time_eq\<close> and \<open>run_auth_handshake\<close> of
  \<open>src/client.rs\<close>). What the reads of the connection return is a list, an argument; the result is
  absent while the handshake waits for the next read.
\<close>

section \<open>Model\<close>

definition constant_time_eq :: "bytes \<Rightarrow> bytes \<Rightarrow> bool" where
  "constant_time_eq a b =
     (if length a \<noteq> length b then False
      else
        let diff = fold (\<lambda>(x, y) diff. diff OR (x XOR y)) (zip a b) (0 :: u8)
        in diff = 0)"

text \<open>\<open>Read []\<close> is \<open>Ok(0)\<close>: the peer has closed the connection.\<close>

datatype read_outcome = Read bytes | ReadFail io_error

datatype AuthOutcome = Adopted FrameBuffer "Frame list" | Rejected

definition str_bytes :: "rstr \<Rightarrow> bytes" where
  "str_bytes s = map (\<lambda>c. word_of_nat (of_char c)) s"

fun auth_loop ::
  "FrameBuffer \<Rightarrow> rstr \<Rightarrow> read_outcome list \<Rightarrow> AuthOutcome option \<times> read_outcome list" where
  "auth_loop fb token [] = (None, [])"
| "auth_loop fb token (ReadFail e # reads) = (Some Rejected, reads)"
| "auth_loop fb token (Read data # reads) =
     (if data = [] then (Some Rejected, reads)
      else (case push fb data of
          (Inl e, fb) \<Rightarrow> (Some Rejected, reads)
        | (Inr [], fb) \<Rightarrow> auth_loop fb token reads
        | (Inr (first # frames), fb) \<Rightarrow>
            if method_id (header first) = AUTH_METHOD_ID
               \<and> constant_time_eq (payload first) (str_bytes token)
            then (Some (Adopted fb frames), reads)
            else (Some Rejected, reads)))"

definition run_auth_handshake ::
  "read_outcome list \<Rightarrow> rstr \<Rightarrow> u32 \<Rightarrow> AuthOutcome option \<times> read_outcome list" where
  "run_auth_handshake reads token m = auth_loop (FrameBuffer_with_max_payload m) token reads"

section \<open>Comparison\<close>

lemma or_eq_0: "(x :: u8) OR y = 0 \<longleftrightarrow> x = 0 \<and> y = 0"
  by (auto simp: bit_eq_iff bit_or_iff)

lemma xor_eq_0: "(x :: u8) XOR y = 0 \<longleftrightarrow> x = y"
  by (auto simp: bit_eq_iff bit_xor_iff)

lemma fold_diff:
  "length a = length b \<Longrightarrow>
   fold (\<lambda>(x, y) diff. diff OR (x XOR y)) (zip a b) d = (0 :: u8) \<longleftrightarrow> d = 0 \<and> a = b"
  by (induction a b arbitrary: d rule: list_induct2) (auto simp: or_eq_0 xor_eq_0)

lemma constant_time_eq_iff: "constant_time_eq a b \<longleftrightarrow> a = b"
  by (auto simp: constant_time_eq_def fold_diff)

section \<open>The handshake\<close>

text \<open>What the loop has read when it adopts a connection.\<close>

lemma auth_loop_adopted:
  assumes "auth_loop fb token reads = (Some (Adopted fb' frames), rest)" and "fb_inv fb"
    and "parse_one (max_payload_size fb) (unread fb) = Ok None"
  shows "\<exists>chunks first. reads = map Read chunks @ rest \<and> [] \<notin> set chunks \<and> fb_inv fb'
    \<and> max_payload_size fb' = max_payload_size fb
    \<and> parse_all (max_payload_size fb) (unread fb @ concat chunks) = (first # frames, None, unread fb')
    \<and> method_id (header first) = AUTH_METHOD_ID \<and> payload first = str_bytes token"
  using assms
proof (induction fb token reads rule: auth_loop.induct)
  case (3 fb token data reads)
  let ?m = "max_payload_size fb"
  obtain fs fb1 where p: "push fb data = (Inr fs, fb1)"
    using "3.prems"(1) by (auto split: if_splits prod.splits sum.splits)
  then obtain rest1 where r1: "parse_all ?m (unread fb @ data) = (fs, None, rest1)"
    "fb1 = settle ?m rest1"
    using push_Ok_iff [OF "3.prems"(2)] by auto
  have none: "parse_one ?m rest1 = Ok None" using parse_all_rest_None [OF r1(1)] .
  then have inv: "fb_inv fb1" using fb_inv_settle r1(2) by blast
  show ?case
  proof (cases fs)
    case Nil
    with p "3.prems"(1) have rec: "auth_loop fb1 token reads = (Some (Adopted fb' frames), rest)"
      by (auto split: if_splits)
    have ne: "data \<noteq> []" using "3.prems"(1) by auto
    have par: "parse_one (max_payload_size fb1) (unread fb1) = Ok None" using none r1(2) by simp
    have "unread fb @ data = rest1" using parse_all_sound [OF r1(1)] Nil by simp
    with "3.IH" [OF ne p [symmetric] refl Nil rec inv par] r1(2) obtain chunks first where
      "reads = map Read chunks @ rest" "[] \<notin> set chunks" "fb_inv fb'" "max_payload_size fb' = ?m"
      "parse_all ?m (unread fb @ data @ concat chunks) = (first # frames, None, unread fb')"
      "method_id (header first) = AUTH_METHOD_ID" "payload first = str_bytes token"
      by auto
    with ne show ?thesis by (intro exI [of _ "data # chunks"] exI [of _ first]) auto
  next
    case (Cons first frames')
    with p "3.prems"(1) have "data \<noteq> []" "fb' = fb1" "frames' = frames" "rest = reads"
      "method_id (header first) = AUTH_METHOD_ID" "payload first = str_bytes token"
      by (auto simp: constant_time_eq_iff split: if_splits)
    with r1 Cons inv show ?thesis by (intro exI [of _ "[data]"] exI [of _ first]) auto
  qed
qed simp_all

text \<open>A valid stream that starts with the right AUTH frame is adopted, however it is cut.\<close>

lemma auth_loop_adopts:
  assumes "fb_inv fb" and "parse_all (max_payload_size fb) (unread fb @ concat chunks) = (first # fs, None, r)"
    and "parse_one (max_payload_size fb) (unread fb) = Ok None"
    and "method_id (header first) = AUTH_METHOD_ID" and "payload first = str_bytes token"
    and "[] \<notin> set chunks"
  shows "\<exists>fb' frames rest. auth_loop fb token (map Read chunks @ later) = (Some (Adopted fb' frames), rest)"
  using assms
proof (induction chunks arbitrary: fb)
  case Nil
  then show ?case by (simp add: frame_simps)
next
  case (Cons data chunks)
  let ?m = "max_payload_size fb"
  obtain gs e rest1 where pa: "parse_all ?m (unread fb @ data) = (gs, e, rest1)" by (rule prod_cases3)
  have split: "parse_all ?m ((unread fb @ data) @ concat chunks) = (first # fs, None, r)"
    using Cons.prems(2) by simp
  then have "e = None" using pa parse_all_append [of ?m "unread fb @ data" "concat chunks"]
    by (auto split: option.splits prod.splits)
  with pa have pa: "parse_all ?m (unread fb @ data) = (gs, None, rest1)" by simp
  then have p: "push fb data = (Ok gs, settle ?m rest1)" using push_Ok_iff [OF Cons.prems(1)] by auto
  have none: "parse_one ?m rest1 = Ok None" using parse_all_rest_None [OF pa] .
  show ?case
  proof (cases gs)
    case Nil
    then have eq: "unread fb @ data = rest1" using parse_all_sound [OF pa] by simp
    have "\<exists>fb' frames rest. auth_loop (settle ?m rest1) token (map Read chunks @ later)
        = (Some (Adopted fb' frames), rest)"
      using Cons.prems split eq none fb_inv_settle by (intro Cons.IH) auto
    with Cons.prems(6) p Nil show ?thesis by auto
  next
    case (Cons g gs')
    then have "g = first"
      using split pa parse_all_append [of ?m "unread fb @ data" "concat chunks"]
      by (auto split: prod.splits)
    with Cons Cons.prems p show ?thesis by (auto simp: constant_time_eq_iff)
  qed
qed

section \<open>Properties\<close>

abbreviation sample_auth :: Frame where
  "sample_auth \<equiv> Frame_new (Header_new AUTH_METHOD_ID 0 0 2) [104, 105]"

lemma sample_auth_ok: "frame_ok 100 sample_auth"
  by (simp add: frame_ok_def Header_validate_def Header_new_def RESERVED_METHOD_ID_def
      ABSOLUTE_MAX_PAYLOAD_SIZE_def RESERVED_MASK_def AUTH_METHOD_ID_def)

lemma sample_auth_adopted:
  "\<exists>fb frames rest. run_auth_handshake [Read (frame_bytes sample_auth)] ''hi'' 100
     = (Some (Adopted fb frames), rest)"
  using auth_loop_adopts [of "FrameBuffer_with_max_payload 100" "[frame_bytes sample_auth]"
      sample_auth "[]" "[]" "''hi''" "[]"] parse_all_frames [of 100 "[sample_auth]"] sample_auth_ok
  by (auto simp: run_auth_handshake_def str_bytes_def Header_new_def frame_bytes_eq)

text \<open>The comparison that looks at every byte decides equality.\<close>

theorem constant_time_eq_correct: "constant_time_eq a b \<longleftrightarrow> a = b"
  by (rule constant_time_eq_iff)

text \<open>C11. A connection is adopted only if it proves the token: the bytes read so far start with a
  valid AUTH frame whose payload is the token. Nothing behind that frame is lost: the frames
  returned and the bytes left in the frame buffer are the rest of what was read.\<close>

theorem auth_adopts_only_token:
  assumes "run_auth_handshake reads token m = (Some (Adopted fb frames), rest)"
  shows "\<exists>chunks first. reads = map Read chunks @ rest
    \<and> method_id (header first) = AUTH_METHOD_ID \<and> payload first = str_bytes token
    \<and> list_all (frame_ok m) (first # frames)
    \<and> concat chunks = frame_bytes first @ concat (map frame_bytes frames) @ unread fb
    \<and> max_payload_size fb = m \<and> fb_inv fb"
proof -
  from auth_loop_adopted [OF assms [unfolded run_auth_handshake_def]] obtain chunks first where
    *: "reads = map Read chunks @ rest" "fb_inv fb" "max_payload_size fb = m"
      "parse_all m (concat chunks) = (first # frames, None, unread fb)"
      "method_id (header first) = AUTH_METHOD_ID" "payload first = str_bytes token"
    by auto
  with parse_all_sound [OF *(4)] show ?thesis by auto
qed

theorem auth_adopts_only_token_witness:
  "\<exists>fb frames rest. run_auth_handshake [Read (frame_bytes sample_auth)] ''hi'' 100
     = (Some (Adopted fb frames), rest) \<and> fb_inv fb"
proof -
  obtain fb frames rest where r: "run_auth_handshake [Read (frame_bytes sample_auth)] ''hi'' 100
      = (Some (Adopted fb frames), rest)"
    using sample_auth_adopted by blast
  from auth_adopts_only_token [OF r] r show ?thesis by blast
qed

text \<open>C30. The real parent is always adopted: if what it sends is a valid stream that starts with
  an AUTH frame carrying the token, it is adopted, however the stream is cut into reads.\<close>

theorem auth_adopts_parent:
  assumes "concat chunks = concat (map frame_bytes (first # fs))" and "[] \<notin> set chunks"
    and "list_all (frame_ok m) (first # fs)"
    and "method_id (header first) = AUTH_METHOD_ID" and "payload first = str_bytes token"
  shows "\<exists>fb frames rest.
    run_auth_handshake (map Read chunks @ later) token m = (Some (Adopted fb frames), rest)"
  unfolding run_auth_handshake_def
  using parse_all_frames [OF assms(3)] assms by (intro auth_loop_adopts) auto

theorem auth_adopts_parent_witness:
  "\<exists>fb frames rest. run_auth_handshake [Read (frame_bytes sample_auth)] ''hi'' 100
     = (Some (Adopted fb frames), rest)"
  using auth_adopts_parent [of "[frame_bytes sample_auth]" sample_auth "[]" 100 "''hi''" "[]"]
    sample_auth_ok
  by (simp add: str_bytes_def Header_new_def frame_bytes_eq)

end
