(* ===== verification/Dispatcher.thy ===== *)
theory Dispatcher
  imports Registry Auth
begin

text \<open>
  Reading and dispatching requests (\<open>read_loop\<close> and \<open>dispatch_frame\<close> of \<open>src/client.rs\<close>, with the
  task that \<open>dispatch_frame\<close> spawns). The semaphore is its number of free permits and the map of
  active contexts is a map from request ids to tokens. \<open>dispatch_frame\<close> returns the task it spawns;
  \<open>handler_task\<close> is that task run by itself, and theory \<open>Request_System\<close> interleaves the tasks.
\<close>

section \<open>Model\<close>

record ActiveContext =
  ac_token :: arc

text \<open>The semaphore, the map of active contexts, and the state all contexts share (flags, tokens and
  the channel). \<open>ds_fresh\<close> is the next unused address, for tokens and flags; \<open>ds_started\<close> is a
  history variable, the frames a task was spawned for, which no operation reads.\<close>

record disp_state =
  ds_permits :: nat
  ds_active :: "u32 \<Rightarrow> ActiveContext option"
  ds_ctx :: ctx_state
  ds_fresh :: arc
  ds_started :: "Frame list"

datatype tk_status = Handling | Waiting | Ended

record 'v task =
  tk_ctx :: RequestContext
  tk_prog :: "'v hprog"
  tk_status :: tk_status

definition dispatch_frame ::
  "'v msgpack \<Rightarrow> 'v HandlerRegistry \<Rightarrow> WriterHandle \<Rightarrow> Frame \<Rightarrow> disp_state \<Rightarrow>
     'v task option \<times> disp_state" where
  "dispatch_frame C reg w frame ds =
     (let h = header frame in
      if method_id h = ABORT_METHOD_ID then
        (case ds_active ds (request_id h) of
           Some ac \<Rightarrow> (None, ds\<lparr>ds_ctx := token_cancel (ac_token ac) (ds_ctx ds)\<rparr>)
         | None \<Rightarrow> (None, ds))
      else if method_id h = AUTH_METHOD_ID then (None, ds)
      else if Header_is_response h then (None, ds)
      else if ds_permits ds = 0 then (None, ds)
      else
        let t = ds_fresh ds;
            st = token_new t (ds_ctx ds);
            active = (ds_active ds)(request_id h \<mapsto> \<lparr>ac_token = t\<rparr>);
            response_type = (case get_response_type_by_id reg (method_id h) of
              Some rt \<Rightarrow> rt | None \<Rightarrow> RResult);
            (ctx, st) = with_writer_and_token (method_id h) (request_id h) response_type w t t st
        in (Some \<lparr>tk_ctx = ctx, tk_prog = dispatch C reg (method_id h) (payload frame) ctx,
              tk_status = Handling\<rparr>,
            ds\<lparr>ds_permits := ds_permits ds - 1, ds_active := active, ds_ctx := st,
               ds_fresh := t + 1, ds_started := ds_started ds @ [frame]\<rparr>))"

text \<open>The body of the spawned task: what the handler does, and the error report. The result says
  whether the task has reached its end; \<open>last_env\<close> is what the error report's send meets.\<close>

definition handler_task ::
  "'v msgpack \<Rightarrow> 'v task \<Rightarrow> (nat \<Rightarrow> step_env) \<Rightarrow> send_env \<Rightarrow> ctx_state \<Rightarrow> bool \<times> ctx_state" where
  "handler_task C tk envs last_env st =
     (case run_prog (tk_prog tk) C (tk_ctx tk) envs 0 st of
        (None, st) \<Rightarrow> (False, st)
      | (Some (Inr _), st) \<Rightarrow> (True, st)
      | (Some (Inl e), st) \<Rightarrow>
          if \<not> has_responded (tk_ctx tk) st then
            (case send_error C (tk_ctx tk) (ProcwireError_to_string e) last_env st of
               (None, st) \<Rightarrow> (False, st)
             | (Some _, st) \<Rightarrow> (True, st))
          else (True, st))"

text \<open>The end of the task: the active context is removed and the permit returned.\<close>

definition finish_task :: "'v task \<Rightarrow> disp_state \<Rightarrow> disp_state" where
  "finish_task tk ds =
     ds\<lparr>ds_active := (ds_active ds)(rc_request_id (tk_ctx tk) := None),
        ds_permits := ds_permits ds + 1\<rparr>"

text \<open>\<open>read_loop\<close> over what the reads return; \<open>disp\<close> is the effect of dispatching a frame.\<close>

fun read_loop_from ::
  "(Frame \<Rightarrow> 's \<Rightarrow> 's) \<Rightarrow> read_outcome list \<Rightarrow> FrameBuffer \<Rightarrow> 's \<Rightarrow>
     (unit, fault) result option \<times> 's" where
  "read_loop_from disp [] fb s = (None, s)"
| "read_loop_from disp (ReadFail e # reads) fb s = (Some (Err (Fail (Io e))), s)"
| "read_loop_from disp (Read data # reads) fb s =
     (if data = [] then (Some (Ok ()), s)
      else (case push fb data of
          (Inl e, fb) \<Rightarrow> (Some (Err e), s)
        | (Inr frames, fb) \<Rightarrow> read_loop_from disp reads fb (fold disp frames s)))"

definition read_loop ::
  "(Frame \<Rightarrow> 's \<Rightarrow> 's) \<Rightarrow> read_outcome list \<Rightarrow> FrameBuffer \<Rightarrow> Frame list \<Rightarrow> 's \<Rightarrow>
     (unit, fault) result option \<times> 's" where
  "read_loop disp reads fb initial_frames s =
     read_loop_from disp reads fb (fold disp initial_frames s)"

text \<open>Dispatching into the list of running tasks.\<close>

definition dispatch_into ::
  "'v msgpack \<Rightarrow> 'v HandlerRegistry \<Rightarrow> WriterHandle \<Rightarrow> Frame \<Rightarrow> 'v task list \<times> disp_state \<Rightarrow>
     'v task list \<times> disp_state" where
  "dispatch_into C reg w frame = (\<lambda>(tasks, ds). case dispatch_frame C reg w frame ds of
     (None, ds) \<Rightarrow> (tasks, ds)
   | (Some tk, ds) \<Rightarrow> (tasks @ [tk], ds))"

definition disp_init :: "nat \<Rightarrow> disp_state" where
  "disp_init limit = \<lparr>ds_permits = limit, ds_active = Map.empty,
     ds_ctx = \<lparr>cs_responded = (\<lambda>_. False), cs_cancelled = (\<lambda>_. False), cs_sent = [], cs_ops = []\<rparr>,
     ds_fresh = 0, ds_started = []\<rparr>"

section \<open>The task\<close>

lemma send_error_eq: "send_error C ctx m = do_op C ctx (SendError m)"
  by simp

section \<open>The read loop\<close>

text \<open>The loop feeds its frame buffer and dispatches what the buffer returns.\<close>

lemma read_loop_from_feed:
  "[] \<notin> set chunks \<Longrightarrow> read_loop_from disp (map Read chunks @ reads) fb s = (case feed push fb chunks of
      (gs, None, fb') \<Rightarrow> read_loop_from disp reads fb' (fold disp gs s)
    | (gs, Some e, fb') \<Rightarrow> (Some (Err e), fold disp gs s))"
  by (induction chunks arbitrary: fb s) (auto split: prod.splits sum.splits option.splits)

lemma read_loop_from_parses:
  assumes "drained_buffer fb" and "[] \<notin> set chunks"
    and "parse_all (max_payload_size fb) (unread fb @ concat chunks) = (fs, e, r)"
  shows "\<exists>gs. read_loop_from disp (map Read chunks @ [Read []]) fb s
      = (Some (case e of None \<Rightarrow> Ok () | Some x \<Rightarrow> Err (Fail x)), fold disp gs s)
    \<and> (case e of None \<Rightarrow> gs = fs
       | Some x \<Rightarrow> \<exists>pre c post r0 r1. chunks = pre @ c # post
           \<and> parse_all (max_payload_size fb) (unread fb @ concat pre) = (gs, None, r0)
           \<and> parse_all (max_payload_size fb) (unread fb @ concat pre @ c) = (fs, Some x, r1))"
proof -
  note run = read_loop_from_feed [OF assms(2), of disp "[Read []]" fb s]
  from feed_parse_all [OF assms(1,3)] show ?thesis
  proof (elim exE conjE)
    fix gs fb'
    assume "feed push fb chunks = (gs, map_option Fail e, fb')"
      and c: "case e of
        None \<Rightarrow> gs = fs \<and> unread fb' = r \<and> drained_buffer fb' \<and> max_payload_size fb' = max_payload_size fb
      | Some x \<Rightarrow> \<exists>pre c post r0 r1. chunks = pre @ c # post
          \<and> parse_all (max_payload_size fb) (unread fb @ concat pre) = (gs, None, r0)
          \<and> parse_all (max_payload_size fb) (unread fb @ concat pre @ c) = (fs, Some x, r1)"
    with run have "read_loop_from disp (map Read chunks @ [Read []]) fb s
        = (Some (case e of None \<Rightarrow> Ok () | Some x \<Rightarrow> Err (Fail x)), fold disp gs s)"
      by (cases e) simp_all
    with c show ?thesis by (intro exI [of _ gs]) (cases e, simp_all)
  qed
qed

section \<open>The dispatcher\<close>

lemma dispatch_frame_cases:
  "dispatch_frame C reg w frame ds = (None, ds') \<Longrightarrow>
     ds_permits ds' = ds_permits ds \<and> ds_active ds' = ds_active ds \<and> ds_fresh ds' = ds_fresh ds"
  "dispatch_frame C reg w frame ds = (Some tk, ds') \<Longrightarrow>
     Suc (ds_permits ds') = ds_permits ds \<and> rc_request_id (tk_ctx tk) = request_id (header frame)
     \<and> rc_token (tk_ctx tk) = ds_fresh ds \<and> ds_fresh ds' = Suc (ds_fresh ds)
     \<and> ds_active ds' = (ds_active ds)(request_id (header frame) \<mapsto> \<lparr>ac_token = ds_fresh ds\<rparr>)"
  by (auto simp: dispatch_frame_def with_writer_and_token_def Let_def split: if_splits option.splits)

lemma finish_task_sel [simp]:
  "ds_permits (finish_task tk ds) = Suc (ds_permits ds)"
  "ds_active (finish_task tk ds) = (ds_active ds)(rc_request_id (tk_ctx tk) := None)"
  "ds_ctx (finish_task tk ds) = ds_ctx ds" "ds_fresh (finish_task tk ds) = ds_fresh ds"
  "ds_started (finish_task tk ds) = ds_started ds"
  by (simp_all add: finish_task_def)

abbreviation tk_request :: "'v task \<Rightarrow> u32" where
  "tk_request tk \<equiv> rc_request_id (tk_ctx tk)"

lemma dispatch_frame_abort:
  "method_id (header frame) = ABORT_METHOD_ID \<Longrightarrow> dispatch_frame C reg w frame ds =
     (None, case ds_active ds (request_id (header frame)) of
        None \<Rightarrow> ds
      | Some ac \<Rightarrow> ds\<lparr>ds_ctx := token_cancel (ac_token ac) (ds_ctx ds)\<rparr>)"
  by (simp add: dispatch_frame_def Let_def split: option.split)

lemma dispatch_frame_spawn:
  assumes "dispatch_frame C reg w frame ds = (Some tk, ds')"
  shows "tk_ctx tk = \<lparr>rc_method_id = method_id (header frame), rc_request_id = request_id (header frame),
      rc_response_type = (case get_response_type_by_id reg (method_id (header frame)) of
        Some rt \<Rightarrow> rt | None \<Rightarrow> RResult), rc_writer = Some w, rc_token = ds_fresh ds,
      rc_responded = ds_fresh ds\<rparr>"
    and "tk_status tk = Handling" and "ds_ctx ds' = flag_new (ds_fresh ds) (token_new (ds_fresh ds) (ds_ctx ds))"
    and "ds_fresh ds' = Suc (ds_fresh ds)" and "ds_started ds' = ds_started ds @ [frame]"
  using assms
  by (auto simp: dispatch_frame_def with_writer_and_token_def Let_def split: if_splits option.splits)

lemma dispatch_into_spawn:
  "dispatch_frame C reg w frame ds = (Some tk, ds') \<Longrightarrow> dispatch_into C reg w frame (tasks, ds) = (tasks @ [tk], ds')"
  by (simp add: dispatch_into_def)

abbreviation quiet :: "(nat \<Rightarrow> send_env) \<Rightarrow> nat \<Rightarrow> step_env" where
  "quiet envs \<equiv> \<lambda>n. \<lparr>se_send = envs n, se_abort = False\<rparr>"

lemma abort_point_quiet [simp]: "abort_point ctx (quiet envs n) st = st"
  by (simp add: abort_point_def)

section \<open>Properties\<close>

abbreviation sample_reg :: "nat HandlerRegistry" where
  "sample_reg \<equiv> HandlerRegistry_new"

abbreviation sample_writer :: WriterHandle where
  "sample_writer \<equiv> WriterHandle_new 0 0 4 10"

abbreviation sample_abort :: Frame where
  "sample_abort \<equiv> Frame_new (Header_new ABORT_METHOD_ID 0 42 0) []"

text \<open>A request for a method nobody registered, and what its task meets.\<close>

abbreviation sample_task :: "nat task" where
  "sample_task \<equiv> the (fst (dispatch_frame sample_codec sample_reg sample_writer sample_frame (disp_init 1)))"

abbreviation sample_ds :: disp_state where
  "sample_ds \<equiv> snd (dispatch_frame sample_codec sample_reg sample_writer sample_frame (disp_init 1))"

abbreviation sample_envs :: "nat \<Rightarrow> step_env" where
  "sample_envs \<equiv> quiet (\<lambda>_. sample_env)"

lemma sample_dispatch:
  "dispatch_frame sample_codec sample_reg sample_writer sample_frame (disp_init 1) = (Some sample_task, sample_ds)"
  "tk_prog sample_task = HDone (Err (HandlerNotFound 1))"
  "tk_request sample_task = 42" "tk_status sample_task = Handling"
  "rc_writer (tk_ctx sample_task) = Some sample_writer"
  by (simp_all add: dispatch_frame_def with_writer_and_token_def Let_def disp_init_def Header_new_def
      ABORT_METHOD_ID_def AUTH_METHOD_ID_def Header_is_response_def dispatch_def get_handler_by_id_def
      HandlerRegistry_new_def)

lemma sample_spawn:
  "dispatch_into sample_codec sample_reg sample_writer sample_frame ([], disp_init 1) = ([sample_task], sample_ds)"
  using dispatch_into_spawn [OF sample_dispatch(1), of "[]"] unfolding append_Nil .

text \<open>C23. The read loop dispatches the frames of the stream, each once and in order: the frames
  pipelined behind the AUTH frame first, then those the stateless parser finds in the bytes left in
  the buffer and those read until the peer closes. If the stream has no framing error all of them are
  dispatched, however it is cut into reads, and the loop returns \<open>Ok\<close>. If it has one, the loop
  returns this error in every fragmentation, and what it has dispatched are the frames of the reads
  before the one that completes the bad header; the frames in front of the bad header in that read
  are dropped.\<close>

theorem read_loop_dispatches_stream:
  assumes "fb_inv fb" and "parse_one (max_payload_size fb) (unread fb) = Ok None"
    and "parse_all (max_payload_size fb) (unread fb @ concat chunks) = (fs, e, r)"
    and "[] \<notin> set chunks"
  shows "\<exists>gs. read_loop disp (map Read chunks @ [Read []]) fb initial s
      = (Some (case e of None \<Rightarrow> Ok () | Some x \<Rightarrow> Err (Fail x)), fold disp (initial @ gs) s)
    \<and> (case e of None \<Rightarrow> gs = fs
       | Some x \<Rightarrow> \<exists>pre c post r0 r1. chunks = pre @ c # post
           \<and> parse_all (max_payload_size fb) (unread fb @ concat pre) = (gs, None, r0)
           \<and> parse_all (max_payload_size fb) (unread fb @ concat pre @ c) = (fs, Some x, r1))"
  using read_loop_from_parses [OF conjI [OF assms(1,2)] assms(4,3), of disp "fold disp initial s"]
  by (simp add: read_loop_def)

theorem read_loop_dispatches_stream_witness:
  "read_loop (\<lambda>f n. Suc n) [Read (frame_bytes sample_frame), Read []]
     (FrameBuffer_with_max_payload 100) [] (0 :: nat) = (Some (Ok ()), 1)"
  using read_loop_dispatches_stream [of "FrameBuffer_with_max_payload 100" "[frame_bytes sample_frame]"
      "[sample_frame]" None "[]" "\<lambda>f n. Suc n" "[]" 0] parse_all_frames [of 100 "[sample_frame]"] sample_frame_ok
  by (simp add: frame_bytes_eq)

text \<open>What a framing error takes with it depends on the fragmentation: when complete valid frames and
  a bad header arrive in one read, none of these frames is dispatched; when they arrive in separate
  reads, all of them are.\<close>

theorem framing_error_drops_batch:
  assumes "list_all (frame_ok m) fs" and "fs \<noteq> []" and "parse_one m bad = Err e"
  shows "read_loop disp [Read (concat (map frame_bytes fs) @ bad)] (FrameBuffer_with_max_payload m) [] s
      = (Some (Err (Fail e)), s)
    \<and> read_loop disp [Read (concat (map frame_bytes fs)), Read bad] (FrameBuffer_with_max_payload m) [] s
      = (Some (Err (Fail e)), fold disp fs s)"
proof -
  have "frame_bytes f \<noteq> []" for f
    by (metis append_is_Nil_conv frame_bytes_eq length_Header_encode list.size(3) zero_neq_numeral)
  with assms(2,3) have ne: "bad \<noteq> []" "concat (map frame_bytes fs) \<noteq> []"
    by (auto simp: neq_Nil_conv [of fs])
  have pf: "parse_all m (concat (map frame_bytes fs)) = (fs, None, [])" using parse_all_frames [OF assms(1)] .
  have pe: "parse_all m bad = ([], Some e, bad)" using assms(3) by (simp add: frame_simps)
  have "push (FrameBuffer_with_max_payload m) (concat (map frame_bytes fs) @ bad) = (Err (Fail e), settle m bad)"
    using parse_all_append [of m "concat (map frame_bytes fs)" bad] pf pe by (simp add: push_spec)
  moreover have "push (FrameBuffer_with_max_payload m) (concat (map frame_bytes fs)) = (Ok fs, settle m [])"
    using pf by (simp add: push_spec)
  moreover have "push (settle m []) bad = (Err (Fail e), settle m bad)"
    using pe fb_inv_settle [of m "[]"] by (simp add: push_spec)
  ultimately show ?thesis using ne by (simp add: read_loop_def)
qed

theorem framing_error_drops_batch_witness:
  "read_loop (\<lambda>f n. Suc n) [Read (frame_bytes sample_frame @ Header_encode (Header_new 0 0 1 0))]
     (FrameBuffer_with_max_payload 100) [] (0 :: nat)
   = (Some (Err (Fail (Protocol ''Method ID 0 is reserved''))), 0)"
  using framing_error_drops_batch [of 100 "[sample_frame]" "Header_encode (Header_new 0 0 1 0)"
      "Protocol ''Method ID 0 is reserved''" "\<lambda>f n. Suc n" 0] sample_frame_ok
  by (simp add: parse_one_def Header_validate_def Header_new_def RESERVED_METHOD_ID_def)

text \<open>C25. An error of a handler is reported: if the handler of a fresh request ends with an error (its
  own, an unknown method id or a payload that cannot be decoded) while the flag of its context is
  still clear, that is, before any terminal operation has claimed the request, and if the text of
  the error can be encoded, the counter has room and the channel accepts the frame, then the task
  ends and exactly one terminal frame has been sent, the last one: an error frame for this request
  with the error's text, marked as a stream frame exactly for stream methods. If the flag is set when
  the handler ends, also by a terminal operation whose value could not be encoded, the task ends and
  sends nothing more. Whether the request has been aborted in the meantime makes no difference.\<close>

theorem request_failure_reported:
  assumes "dispatch_frame C reg w frame ds = (Some tk, ds')"
    and "\<not> has_responded (tk_ctx tk) st" and "cs_sent st = []"
    and "run_prog (tk_prog tk) C (tk_ctx tk) envs 0 st = (Some (Err e), st1)"
    and "to_vec_named_str C (ProcwireError_to_string e) = Inr data"
    and "env_load last_env < wh_max_pending w" and "env_accepts last_env = Some True"
  shows "(has_responded (tk_ctx tk) st1 \<longrightarrow> handler_task C tk envs last_env st = (True, st1))
    \<and> (\<not> has_responded (tk_ctx tk) st1 \<longrightarrow> (\<exists>st' fl report. handler_task C tk envs last_env st = (True, st')
      \<and> report = OutboundFrame_new (Header_new (method_id (header frame)) fl
          (request_id (header frame)) (word_of_nat (length data))) data
      \<and> cs_sent st' = cs_sent st1 @ [report] \<and> filter is_terminal_frame (cs_sent st') = [report]
      \<and> has_flag fl IS_ERROR
      \<and> (has_flag fl IS_STREAM \<longleftrightarrow> get_response_type_by_id reg (method_id (header frame)) = Some RStream)))"
proof (intro conjI impI)
  show "handler_task C tk envs last_env st = (True, st1)" if "has_responded (tk_ctx tk) st1"
    using assms(4) that by (simp add: handler_task_def)
  assume clear: "\<not> has_responded (tk_ctx tk) st1"
  let ?ctx = "tk_ctx tk" and ?st = "snd (handler_task C tk envs last_env st)"
  let ?report = "ctx_frame ?ctx (error_flags ?ctx) data"
  have ctx: "rc_method_id ?ctx = method_id (header frame)"
    "rc_request_id ?ctx = request_id (header frame)" "rc_writer ?ctx = Some w"
    "rc_response_type ?ctx = RStream \<longleftrightarrow>
       get_response_type_by_id reg (method_id (header frame)) = Some RStream"
    using dispatch_frame_spawn(1) [OF assms(1)] by (auto split: option.splits)
  have fl: "has_flag (error_flags ?ctx) IS_ERROR"
    "has_flag (error_flags ?ctx) IS_STREAM \<longleftrightarrow> rc_response_type ?ctx = RStream"
    by (simp_all add: error_flags_def flag_combinations flag_bits has_flag_def)
  have "ctx_inv ?ctx st1"
    using cinv.keeps_run_prog [OF assms(4)] assms(2,3) by (simp add: ctx_inv_def)
  with clear have none: "filter is_terminal_frame (cs_sent st1) = []" by (simp add: ctx_inv_def)
  have tf: "is_terminal_frame ?report"
    by (auto simp: is_terminal_frame_def error_flags_def)
  have run: "handler_task C tk envs last_env st = (True, ?st) \<and> cs_sent ?st = cs_sent st1 @ [?report]"
    using clear assms(4-7) ctx(3)
    by (simp add: handler_task_def send_error_def marked_eq MsgPackCodec_encode_str_def send_frame_def
        send_via_def send_room ctx_frame_def)
  then have "filter is_terminal_frame (cs_sent ?st) = [?report]"
    using none tf by simp
  with run fl ctx show "\<exists>st' fl report. handler_task C tk envs last_env st = (True, st')
      \<and> report = OutboundFrame_new (Header_new (method_id (header frame)) fl
          (request_id (header frame)) (word_of_nat (length data))) data
      \<and> cs_sent st' = cs_sent st1 @ [report] \<and> filter is_terminal_frame (cs_sent st') = [report]
      \<and> has_flag fl IS_ERROR
      \<and> (has_flag fl IS_STREAM \<longleftrightarrow> get_response_type_by_id reg (method_id (header frame)) = Some RStream)"
    by (intro exI [of _ ?st] exI [of _ "error_flags ?ctx"] exI [of _ ?report]) (simp add: ctx_frame_def)
qed

theorem request_failure_reported_witness:
  "\<exists>st' fl. handler_task sample_codec sample_task sample_envs sample_env sample_cs = (True, st')
    \<and> cs_sent st' = [OutboundFrame_new (Header_new 1 fl 42 0) []]"
proof -
  have "run_prog (tk_prog sample_task) sample_codec (tk_ctx sample_task) sample_envs 0 sample_cs
      = (Some (Err (HandlerNotFound 1)), sample_cs)"
    by (simp only: sample_dispatch(2)) (simp add: abort_point_def)
  from request_failure_reported [OF sample_dispatch(1) _ _ this, of "[]" sample_env]
  show ?thesis
    by (auto simp: has_responded_def sample_codec_def WriterHandle_new_def Header_new_def)
qed

end
