(* ===== verification/Request_System.thy ===== *)
theory Request_System
  imports Dispatcher
begin

text \<open>
  All requests at once: the transition system \<open>disp_step\<close> interleaves incoming frames, the steps of the
  spawned handler tasks (one call on a context at a time), the end of tasks and the events the
  application emits, over the shared flags, tokens and channel. Three invariants, each an
  interpretation of \<open>invariant_system\<close>: the permits add up (\<open>dsys\<close>), the map of active contexts is
  exact if ids in use are not reused (\<open>psys\<close>), and the answers in the channel are covered by requests
  (\<open>asys\<close>). Running a task by itself is a run of the system. Handlers do not panic here;
  \<open>Client_System\<close> has their panics.
\<close>

section \<open>Model\<close>

text \<open>One step of a spawned task, from one call on its context to the next; \<open>Waiting\<close> is a task
  whose last send has not come back.\<close>

definition task_step ::
  "'v msgpack \<Rightarrow> send_env \<Rightarrow> 'v task \<Rightarrow> ctx_state \<Rightarrow> 'v task \<times> ctx_state" where
  "task_step C env tk st =
     (if tk_status tk \<noteq> Handling then (tk, st)
      else case tk_prog tk of
        HOp op k \<Rightarrow> (case do_op C (tk_ctx tk) op env st of
            (Some r, st) \<Rightarrow> (tk\<lparr>tk_prog := k r\<rparr>, st)
          | (None, st) \<Rightarrow> (tk\<lparr>tk_status := Waiting\<rparr>, st))
      | HIsCancelled k \<Rightarrow> (tk\<lparr>tk_prog := k (is_cancelled (tk_ctx tk) st)\<rparr>, st)
      | HCancelled p \<Rightarrow> (case cancelled (tk_ctx tk) st of
            Some _ \<Rightarrow> (tk\<lparr>tk_prog := p\<rparr>, st) | None \<Rightarrow> (tk, st))
      | HHasResponded k \<Rightarrow> (tk\<lparr>tk_prog := k (has_responded (tk_ctx tk) st)\<rparr>, st)
      | HDone (Inr _) \<Rightarrow> (tk\<lparr>tk_status := Ended\<rparr>, st)
      | HDone (Inl e) \<Rightarrow>
          if \<not> has_responded (tk_ctx tk) st then
            (case send_error C (tk_ctx tk) (ProcwireError_to_string e) env st of
               (None, st) \<Rightarrow> (tk\<lparr>tk_status := Waiting\<rparr>, st)
             | (Some _, st) \<Rightarrow> (tk\<lparr>tk_status := Ended\<rparr>, st))
          else (tk\<lparr>tk_status := Ended\<rparr>, st))"

text \<open>The frame of an event the application emits (\<open>Client::emit\<close>) on the same channel.\<close>

definition event_frame :: "u16 \<Rightarrow> bytes \<Rightarrow> OutboundFrame" where
  "event_frame i data =
     OutboundFrame_new (Header_new i DIRECTION_TO_PARENT 0 (word_of_nat (length data))) data"

text \<open>What happens besides incoming frames: a task makes a step, a task that has ended is removed,
  the application emits an event.\<close>

inductive task_move ::
  "'v msgpack \<Rightarrow> WriterHandle \<Rightarrow> 'v task list \<times> disp_state \<Rightarrow> 'v task list \<times> disp_state \<Rightarrow> bool"
  for C w where
  m_step: "task_step C env tk (ds_ctx ds) = (tk', st) \<Longrightarrow>
    task_move C w (ts @ tk # us, ds) (ts @ tk' # us, ds\<lparr>ds_ctx := st\<rparr>)"
| m_finish: "tk_status tk = Ended \<Longrightarrow> task_move C w (ts @ tk # us, ds) (ts @ us, finish_task tk ds)"
| m_event: "send_via w (event_frame i data) env (ds_ctx ds) = (r, st) \<Longrightarrow>
    task_move C w (ts, ds) (ts, ds\<lparr>ds_ctx := st\<rparr>)"

inductive disp_step ::
  "'v msgpack \<Rightarrow> 'v HandlerRegistry \<Rightarrow> WriterHandle \<Rightarrow>
     'v task list \<times> disp_state \<Rightarrow> 'v task list \<times> disp_state \<Rightarrow> bool" for C reg w where
  d_frame: "disp_step C reg w s (dispatch_into C reg w frame s)"
| d_move: "task_move C w s t \<Longrightarrow> disp_step C reg w s t"

inductive_cases task_moveE: "task_move C w s t"

section \<open>The dispatcher\<close>

text \<open>Permits and running tasks add up.\<close>

definition disp_inv :: "nat \<Rightarrow> 'v task list \<times> disp_state \<Rightarrow> bool" where
  "disp_inv limit s \<longleftrightarrow> (case s of (tasks, ds) \<Rightarrow> ds_permits ds + length tasks = limit)"

text \<open>A step keeps the task's context and changes the shared state by at most one operation.\<close>

lemma task_step_effect:
  assumes "task_step C env tk st = (tk', st')"
  shows "tk_ctx tk' = tk_ctx tk \<and> (st' = st \<or> (\<exists>op r. do_op C (tk_ctx tk) op env st = (r, st')))"
proof -
  have "\<exists>op r. do_op C (tk_ctx tk) op env st = (r, st2)"
    if "send_error C (tk_ctx tk) m env st = (x, st2)" for m x st2
    using that unfolding send_error_eq by blast
  with assms show ?thesis
    by (auto simp: task_step_def split: hprog.splits sum.splits option.splits prod.splits if_splits)
qed

lemma disp_inv_move:
  assumes "task_move C w s t" and "disp_inv limit s"
  shows "disp_inv limit t"
  using assms by (cases rule: task_move.cases) (auto simp: disp_inv_def)

interpretation dsys: invariant_system "\<lambda>s. s = ([], disp_init limit)" "disp_step C reg w"
  "disp_inv limit" for C reg w limit
proof
  show "disp_inv limit s" if "s = ([], disp_init limit)" for s
    using that by (simp add: disp_inv_def disp_init_def)
  show "disp_inv limit t" if "disp_inv limit s" and "disp_step C reg w s t" for s t
    using that(2,1)
  proof cases
    case (d_frame frame)
    then show ?thesis
      using that(1) dispatch_frame_cases [of C reg w frame "snd s"]
      by (auto simp: disp_inv_def dispatch_into_def split: prod.splits option.splits)
  qed (rule disp_inv_move)
qed

text \<open>A parent that does not reuse the id of a request that is still running.\<close>

inductive polite_step ::
  "'v msgpack \<Rightarrow> 'v HandlerRegistry \<Rightarrow> WriterHandle \<Rightarrow>
     'v task list \<times> disp_state \<Rightarrow> 'v task list \<times> disp_state \<Rightarrow> bool" for C reg w where
  p_frame: "method_id (header frame) = ABORT_METHOD_ID
      \<or> request_id (header frame) \<notin> tk_request ` set tasks \<Longrightarrow>
    polite_step C reg w (tasks, ds) (dispatch_into C reg w frame (tasks, ds))"
| p_move: "task_move C w s t \<Longrightarrow> polite_step C reg w s t"

definition abort_inv :: "'v task list \<times> disp_state \<Rightarrow> bool" where
  "abort_inv s \<longleftrightarrow> (case s of (tasks, ds) \<Rightarrow>
     distinct (map tk_request tasks) \<and> distinct (map (\<lambda>tk. rc_token (tk_ctx tk)) tasks)
   \<and> (\<forall>tk \<in> set tasks. rc_token (tk_ctx tk) < ds_fresh ds
        \<and> ds_active ds (tk_request tk) = Some \<lparr>ac_token = rc_token (tk_ctx tk)\<rparr>)
   \<and> (\<forall>r. ds_active ds r \<noteq> None \<longrightarrow> r \<in> tk_request ` set tasks))"

lemma abort_inv_spawn:
  assumes "abort_inv (tasks, ds)" and "dispatch_frame C reg w frame ds = (Some tk, ds')"
    and "request_id (header frame) \<notin> tk_request ` set tasks"
  shows "abort_inv (tasks @ [tk], ds')"
proof -
  note d = dispatch_frame_cases(2) [OF assms(2)]
  have "ds_fresh ds \<notin> (\<lambda>tk. rc_token (tk_ctx tk)) ` set tasks"
    using assms(1) by (auto simp: abort_inv_def)
  with assms(1,3) d show ?thesis
    by (auto simp: abort_inv_def less_Suc_eq split: if_splits)
qed

lemma abort_inv_finish:
  assumes "abort_inv (ts @ tk # us, ds)"
  shows "abort_inv (ts @ us, finish_task tk ds)"
proof -
  from assms have "tk_request tk \<notin> tk_request ` set ts" "tk_request tk \<notin> tk_request ` set us"
    by (auto simp: abort_inv_def)
  with assms show ?thesis
    by (auto simp: abort_inv_def) (metis image_eqI)+
qed

lemma abort_inv_move:
  assumes "task_move C w s t" and "abort_inv s"
  shows "abort_inv t"
  using assms
proof (cases rule: task_move.cases)
  case (m_step env tk ds tk' st ts us)
  then have "tk_ctx tk' = tk_ctx tk" using task_step_effect by blast
  with m_step assms(2) show ?thesis by (simp add: abort_inv_def)
next
  case (m_finish tk ts us ds)
  with assms(2) show ?thesis by (simp add: abort_inv_finish)
qed (simp add: abort_inv_def)

interpretation psys: invariant_system "\<lambda>s. s = ([], disp_init limit)" "polite_step C reg w"
  abort_inv for C reg w limit
proof
  show "abort_inv s" if "s = ([], disp_init limit)" for s :: "'a task list \<times> disp_state"
    using that by (simp add: abort_inv_def disp_init_def)
  show "abort_inv t" if "abort_inv s" and "polite_step C reg w s t" for s t
    using that(2,1)
  proof cases
    case (p_frame frame tasks ds)
    obtain x ds' where d: "dispatch_frame C reg w frame ds = (x, ds')" by fastforce
    show ?thesis
    proof (cases x)
      case None
      with d p_frame that(1) dispatch_frame_cases(1) [of C reg w frame ds ds'] show ?thesis
        by (simp add: dispatch_into_def abort_inv_def)
    next
      case (Some tk)
      then have "request_id (header frame) \<notin> tk_request ` set tasks"
        using d p_frame dispatch_frame_abort [of frame C reg w ds] by auto
      with d p_frame that(1) Some show ?thesis
        by (simp add: dispatch_into_def abort_inv_spawn)
    qed
  qed (rule abort_inv_move)
qed

section \<open>Requests and answers\<close>

text \<open>How many terminal frames for a pair of ids are in the channel, how many running tasks for it
  have not answered yet, and how many requests with these ids were started.\<close>

definition out_ids :: "OutboundFrame \<Rightarrow> u16 \<times> u32" where
  "out_ids f = (case Header_decode (of_header f) of
     Some h \<Rightarrow> (method_id h, request_id h) | None \<Rightarrow> (0, 0))"

abbreviation ctx_ids :: "RequestContext \<Rightarrow> u16 \<times> u32" where
  "ctx_ids ctx \<equiv> (rc_method_id ctx, rc_request_id ctx)"

abbreviation frame_ids :: "Frame \<Rightarrow> u16 \<times> u32" where
  "frame_ids f \<equiv> (method_id (header f), request_id (header f))"

definition answers :: "u16 \<times> u32 \<Rightarrow> ctx_state \<Rightarrow> nat" where
  "answers ids st = length (filter (\<lambda>f. is_terminal_frame f \<and> out_ids f = ids) (cs_sent st))"

definition owed :: "u16 \<times> u32 \<Rightarrow> 'v task list \<Rightarrow> ctx_state \<Rightarrow> nat" where
  "owed ids tasks st =
     length (filter (\<lambda>tk. ctx_ids (tk_ctx tk) = ids \<and> \<not> has_responded (tk_ctx tk) st) tasks)"

definition requests :: "u16 \<times> u32 \<Rightarrow> Frame list \<Rightarrow> nat" where
  "requests ids fs = length (filter (\<lambda>f. frame_ids f = ids) fs)"

text \<open>What the channel may hold: responses to started requests and events.\<close>

definition channel_frame :: "Frame list \<Rightarrow> OutboundFrame \<Rightarrow> bool" where
  "channel_frame started f \<longleftrightarrow>
     (\<exists>req \<in> set started. \<exists>fl data. has_flag fl IS_RESPONSE \<and> fl AND RESERVED_MASK = 0 \<and> f = OutboundFrame_new
        (Header_new (method_id (header req)) fl (request_id (header req)) (word_of_nat (length data))) data)
   \<or> (\<exists>i data. f = event_frame i data)"

definition answer_inv :: "'v task list \<times> disp_state \<Rightarrow> bool" where
  "answer_inv s \<longleftrightarrow> (case s of (tasks, ds) \<Rightarrow>
     distinct (map (\<lambda>tk. rc_responded (tk_ctx tk)) tasks)
   \<and> (\<forall>tk \<in> set tasks. rc_responded (tk_ctx tk) < ds_fresh ds
        \<and> ctx_ids (tk_ctx tk) \<in> frame_ids ` set (ds_started ds))
   \<and> (\<forall>ids. answers ids (ds_ctx ds) + owed ids tasks (ds_ctx ds) \<le> requests ids (ds_started ds))
   \<and> (\<forall>f \<in> set (cs_sent (ds_ctx ds)). channel_frame (ds_started ds) f))"

lemma answer_invD:
  assumes "answer_inv (tasks, ds)"
  shows "answers ids (ds_ctx ds) + owed ids tasks (ds_ctx ds) \<le> requests ids (ds_started ds)"
    and "\<forall>f \<in> set (cs_sent (ds_ctx ds)). channel_frame (ds_started ds) f"
  using assms by (simp_all add: answer_inv_def del: split_paired_All)

lemma out_ids_ctx_frame [simp]: "out_ids (ctx_frame ctx fl data) = ctx_ids ctx"
  by (simp add: out_ids_def ctx_frame_def OutboundFrame_new_def Header_new_def)

lemma event_not_terminal [simp]: "\<not> is_terminal_frame (event_frame i data)"
  by (simp add: is_terminal_frame_def out_flags_def event_frame_def OutboundFrame_new_def
      Header_new_def flag_combinations flag_bits)

lemma owed_append [simp]: "owed ids (ts @ us) st = owed ids ts st + owed ids us st"
  by (simp add: owed_def)

lemma owed_Cons [simp]:
  "owed ids (tk # us) st =
     of_bool (ctx_ids (tk_ctx tk) = ids \<and> \<not> has_responded (tk_ctx tk) st) + owed ids us st"
  by (simp add: owed_def)

lemma owed_Nil [simp]: "owed ids [] st = 0"
  by (simp add: owed_def)

lemma owed_cong:
  "(\<And>tk. tk \<in> set ts \<Longrightarrow> has_responded (tk_ctx tk) st' = has_responded (tk_ctx tk) st) \<Longrightarrow>
   owed ids ts st' = owed ids ts st"
  unfolding owed_def by (intro arg_cong [where f = length] filter_cong) auto

lemma requests_append [simp]: "requests ids (fs @ gs) = requests ids fs + requests ids gs"
  by (simp add: requests_def)

lemma channel_frame_mono: "channel_frame fs f \<Longrightarrow> channel_frame (fs @ gs) f"
  unfolding channel_frame_def by auto

lemma do_op_answers:
  assumes "do_op C ctx op env st = (r, st')"
  shows "answers ids st' + of_bool (ctx_ids ctx = ids \<and> \<not> has_responded ctx st')
    \<le> answers ids st + of_bool (ctx_ids ctx = ids \<and> \<not> has_responded ctx st)"
  using do_op_effect [OF assms] by (auto simp: answers_def)

lemma ctx_frame_channel:
  assumes "ctx_ids ctx \<in> frame_ids ` set started"
  shows "channel_frame started (ctx_frame ctx (op_flags ctx op) data)"
proof -
  have "has_flag (op_flags ctx op) IS_RESPONSE \<and> op_flags ctx op AND RESERVED_MASK = 0"
    by (cases op) (auto simp: error_flags_def flag_combinations flag_bits has_flag_def)
  with assms show ?thesis unfolding channel_frame_def ctx_frame_def by fastforce
qed

lemma do_op_channel:
  assumes "do_op C ctx op env st = (r, st')" and "ctx_ids ctx \<in> frame_ids ` set started"
    and "\<forall>f \<in> set (cs_sent st). channel_frame started f"
  shows "\<forall>f \<in> set (cs_sent st'). channel_frame started f"
  using do_op_effect [OF assms(1)] assms(3) ctx_frame_channel [OF assms(2), of op] by auto

lemma answer_inv_op:
  assumes inv: "answer_inv (ts @ tk # us, ds)" and d: "do_op C (tk_ctx tk) op env (ds_ctx ds) = (r, st')"
    and ctx: "tk_ctx tk' = tk_ctx tk"
  shows "answer_inv (ts @ tk' # us, ds\<lparr>ds_ctx := st'\<rparr>)"
proof -
  have other: "has_responded (tk_ctx x) st' = has_responded (tk_ctx x) (ds_ctx ds)"
    if "x \<in> set ts \<union> set us" for x
  proof -
    have "distinct (map (\<lambda>tk. rc_responded (tk_ctx tk)) (ts @ tk # us))"
      using inv by (simp only: answer_inv_def prod.case)
    with that have "rc_responded (tk_ctx x) \<noteq> rc_responded (tk_ctx tk)" by (auto simp: image_iff)
    with do_op_other_flag [OF d] show ?thesis by (simp add: has_responded_def)
  qed
  have o: "owed ids ts st' = owed ids ts (ds_ctx ds)" "owed ids us st' = owed ids us (ds_ctx ds)" for ids
    by (intro owed_cong other; simp)+
  have "answers ids st' + owed ids (ts @ tk' # us) st' \<le> requests ids (ds_started ds)" for ids
    using do_op_answers [OF d, of ids] answer_invD(1) [OF inv, of ids]
    unfolding owed_append owed_Cons ctx o by linarith
  moreover have "\<forall>f \<in> set (cs_sent st'). channel_frame (ds_started ds) f"
    using inv by (intro do_op_channel [OF d]) (auto simp: answer_inv_def)
  ultimately show ?thesis
    using inv ctx by (simp add: answer_inv_def del: owed_append owed_Cons split_paired_All)
qed

lemma answer_inv_move:
  assumes "task_move C w s t" and "answer_inv s"
  shows "answer_inv t"
  using assms
proof (cases rule: task_move.cases)
  case (m_step env tk ds tk' st ts us)
  then have ctx: "tk_ctx tk' = tk_ctx tk"
    and eff: "st = ds_ctx ds \<or> (\<exists>op r. do_op C (tk_ctx tk) op env (ds_ctx ds) = (r, st))"
    using task_step_effect by blast+
  from eff show ?thesis
  proof
    assume "st = ds_ctx ds"
    with m_step assms(2) ctx show ?thesis by (simp add: answer_inv_def)
  qed (use m_step assms(2) ctx in \<open>auto intro: answer_inv_op\<close>)
next
  case (m_finish tk ts us ds)
  have "answers ids (ds_ctx ds) + owed ids (ts @ us) (ds_ctx ds) \<le> requests ids (ds_started ds)" for ids
    using answer_invD(1) [of "ts @ tk # us" ds ids] assms(2) m_finish(1) by simp
  then show ?thesis
    using m_finish assms(2) unfolding answer_inv_def by (auto simp del: owed_append)
next
  case (m_event i data env ds r st ts)
  then have "cs_responded st = cs_responded (ds_ctx ds)"
    "cs_sent st = cs_sent (ds_ctx ds) \<or> cs_sent st = cs_sent (ds_ctx ds) @ [event_frame i data]"
    by (auto simp: send_via_def Let_def ws.sent_eq)
  moreover from this have "answers ids st = answers ids (ds_ctx ds)" "owed ids ts st = owed ids ts (ds_ctx ds)" for ids
    by (auto simp: answers_def owed_def has_responded_def)
  moreover have "channel_frame (ds_started ds) (event_frame i data)" by (auto simp: channel_frame_def)
  ultimately show ?thesis using m_event assms(2) by (auto simp: answer_inv_def)
qed

lemma answer_inv_spawn:
  assumes "answer_inv (tasks, ds)" and "dispatch_frame C reg w frame ds = (Some tk, ds')"
  shows "answer_inv (tasks @ [tk], ds')"
proof -
  note d = dispatch_frame_spawn [OF assms(2)]
  have flags: "has_responded (tk_ctx x) (ds_ctx ds') = has_responded (tk_ctx x) (ds_ctx ds)"
    if "x \<in> set tasks" for x
    using assms(1) that d(3) by (auto simp: answer_inv_def has_responded_def flag_new_def token_new_def)
  have a: "answers ids (ds_ctx ds') = answers ids (ds_ctx ds)" for ids
    using d(3) by (simp add: answers_def flag_new_def token_new_def)
  have o: "owed ids tasks (ds_ctx ds') = owed ids tasks (ds_ctx ds)" for ids
    by (intro owed_cong flags)
  have r: "of_bool (ctx_ids (tk_ctx tk) = ids \<and> b) \<le> requests ids [frame]" for ids b
    using d(1) by (simp add: requests_def)
  have "answers ids (ds_ctx ds') + owed ids (tasks @ [tk]) (ds_ctx ds') \<le> requests ids (ds_started ds')"
    for ids
    using answer_invD(1) [OF assms(1), of ids] r [of ids "\<not> has_responded (tk_ctx tk) (ds_ctx ds')"]
    unfolding d(5) requests_append owed_append owed_Cons owed_Nil a o by linarith
  moreover have "\<forall>f \<in> set (cs_sent (ds_ctx ds')). channel_frame (ds_started ds') f"
    using answer_invD(2) [OF assms(1)] d(3,5) channel_frame_mono by (auto simp: flag_new_def token_new_def)
  moreover have "ds_fresh ds \<notin> (\<lambda>tk. rc_responded (tk_ctx tk)) ` set tasks"
    using assms(1) by (auto simp: answer_inv_def)
  ultimately show ?thesis
    using assms(1) d(1,4,5) unfolding answer_inv_def by (auto simp del: owed_append simp: less_Suc_eq)
qed

lemma answer_inv_frame:
  assumes "answer_inv s"
  shows "answer_inv (dispatch_into C reg w frame s)"
proof -
  obtain tasks ds where s: "s = (tasks, ds)" by fastforce
  obtain x ds' where d: "dispatch_frame C reg w frame ds = (x, ds')" by fastforce
  show ?thesis
  proof (cases x)
    case None
    with d have "cs_responded (ds_ctx ds') = cs_responded (ds_ctx ds)"
      "cs_sent (ds_ctx ds') = cs_sent (ds_ctx ds)" "ds_fresh ds' = ds_fresh ds" "ds_started ds' = ds_started ds"
      by (auto simp: dispatch_frame_def Let_def token_cancel_def split: if_splits option.splits prod.splits)
    with assms s d None show ?thesis
      by (simp add: dispatch_into_def answer_inv_def answers_def owed_def has_responded_def)
  next
    case (Some tk)
    with assms s d show ?thesis by (simp add: dispatch_into_spawn answer_inv_spawn)
  qed
qed

interpretation asys: invariant_system "\<lambda>s. s = ([], disp_init limit)" "disp_step C reg w"
  answer_inv for C reg w limit
proof
  show "answer_inv s" if "s = ([], disp_init limit)" for s :: "'a task list \<times> disp_state"
    using that by (simp add: answer_inv_def disp_init_def answers_def)
  show "answer_inv t" if "answer_inv s" and "disp_step C reg w s t" for s t
    using that(2,1) by cases (auto intro: answer_inv_frame answer_inv_move)
qed

section \<open>Running a task to its end\<close>

lemma task_move_step:
  assumes "task_step C env tk (ds_ctx ds) = (tk', st)"
    and "(task_move C w)\<^sup>*\<^sup>* (ts @ tk' # us, ds\<lparr>ds_ctx := st\<rparr>) s"
  shows "(task_move C w)\<^sup>*\<^sup>* (ts @ tk # us, ds) s"
  using m_step [OF assms(1)] assms(2) by (rule converse_rtranclp_into_rtranclp)

lemma run_prog_moves:
  "run_prog p C (tk_ctx tk) (quiet envs) n (ds_ctx ds) = (Some r, st') \<Longrightarrow> tk_status tk = Handling \<Longrightarrow>
   (task_move C w)\<^sup>*\<^sup>* (ts @ tk\<lparr>tk_prog := p\<rparr> # us, ds)
     (ts @ tk\<lparr>tk_prog := HDone r\<rparr> # us, ds\<lparr>ds_ctx := st'\<rparr>)"
proof (induction p arbitrary: n ds)
  case (HOp op k)
  obtain x st1 where d: "do_op C (tk_ctx tk) op (envs n) (ds_ctx ds) = (x, st1)" by fastforce
  with HOp.prems(1) obtain r1 where x: "x = Some r1"
    and run: "run_prog (k r1) C (tk_ctx tk) (quiet envs) (Suc n) st1 = (Some r, st')"
    by (auto split: option.splits)
  have "task_step C (envs n) (tk\<lparr>tk_prog := HOp op k\<rparr>) (ds_ctx ds) = (tk\<lparr>tk_prog := k r1\<rparr>, st1)"
    using HOp.prems(2) d x by (simp add: task_step_def)
  from task_move_step [OF this] HOp.IH [OF rangeI, of r1 "Suc n" "ds\<lparr>ds_ctx := st1\<rparr>"] run HOp.prems(2)
  show ?case by simp
next
  case (HIsCancelled k)
  let ?k = "k (is_cancelled (tk_ctx tk) (ds_ctx ds))"
  have "task_step C (envs n) (tk\<lparr>tk_prog := HIsCancelled k\<rparr>) (ds_ctx ds) = (tk\<lparr>tk_prog := ?k\<rparr>, ds_ctx ds)"
    using HIsCancelled.prems(2) by (simp add: task_step_def)
  from task_move_step [OF this] HIsCancelled.IH [OF rangeI, of _ "Suc n" ds] HIsCancelled.prems
  show ?case by (simp add: Let_def)
next
  case (HCancelled p)
  then have c: "cancelled (tk_ctx tk) (ds_ctx ds) = Some ()"
    and run: "run_prog p C (tk_ctx tk) (quiet envs) (Suc n) (ds_ctx ds) = (Some r, st')"
    by (auto simp: Let_def split: option.splits)
  have "task_step C (envs n) (tk\<lparr>tk_prog := HCancelled p\<rparr>) (ds_ctx ds) = (tk\<lparr>tk_prog := p\<rparr>, ds_ctx ds)"
    using HCancelled.prems(2) c by (simp add: task_step_def)
  from task_move_step [OF this] HCancelled.IH [OF run HCancelled.prems(2)] show ?case by simp
next
  case (HHasResponded k)
  let ?k = "k (has_responded (tk_ctx tk) (ds_ctx ds))"
  have "task_step C (envs n) (tk\<lparr>tk_prog := HHasResponded k\<rparr>) (ds_ctx ds) = (tk\<lparr>tk_prog := ?k\<rparr>, ds_ctx ds)"
    using HHasResponded.prems(2) by (simp add: task_step_def)
  from task_move_step [OF this] HHasResponded.IH [OF rangeI, of _ "Suc n" ds] HHasResponded.prems
  show ?case by (simp add: Let_def)
qed auto

lemma handler_task_moves:
  assumes "handler_task C tk (quiet envs) last_env (ds_ctx ds) = (True, st')" and "tk_status tk = Handling"
  shows "(task_move C w)\<^sup>*\<^sup>* (ts @ tk # us, ds) (ts @ us, finish_task tk (ds\<lparr>ds_ctx := st'\<rparr>))"
proof -
  obtain x st1 where run: "run_prog (tk_prog tk) C (tk_ctx tk) (quiet envs) 0 (ds_ctx ds) = (x, st1)"
    by fastforce
  with assms(1) obtain r where x: "x = Some r" by (cases x) (auto simp: handler_task_def)
  let ?tk = "tk\<lparr>tk_prog := HDone r\<rparr>" and ?ds = "ds\<lparr>ds_ctx := st1\<rparr>"
  have "(task_move C w)\<^sup>*\<^sup>* (ts @ tk # us, ds) (ts @ ?tk # us, ?ds)"
    using run_prog_moves [where p = "tk_prog tk"] run x assms(2) by fastforce
  also have "task_step C last_env ?tk st1 = (?tk\<lparr>tk_status := Ended\<rparr>, st')"
    using assms run x
    by (auto simp: handler_task_def task_step_def split: sum.splits if_splits prod.splits option.splits)
  then have "task_move C w (ts @ ?tk # us, ?ds) (ts @ ?tk\<lparr>tk_status := Ended\<rparr> # us, ds\<lparr>ds_ctx := st'\<rparr>)"
    using m_step [of C last_env ?tk ?ds] by simp
  also have "task_move C w (ts @ ?tk\<lparr>tk_status := Ended\<rparr> # us, ds\<lparr>ds_ctx := st'\<rparr>)
      (ts @ us, finish_task (?tk\<lparr>tk_status := Ended\<rparr>) (ds\<lparr>ds_ctx := st'\<rparr>))"
    by (rule m_finish) simp
  finally show ?thesis by (simp add: finish_task_def)
qed

lemma handler_task_ends:
  assumes "rc_writer (tk_ctx tk) = Some w"
    and "\<forall>n f. out_result (WriterHandle_send w f (envs n)) \<noteq> None"
    and "\<forall>f. out_result (WriterHandle_send w f last_env) \<noteq> None"
    and "awaits_abort (tk_prog tk) \<longrightarrow> is_cancelled (tk_ctx tk) st"
  shows "\<exists>st'. handler_task C tk (quiet envs) last_env st = (True, st')"
proof -
  have "\<exists>r. fst (run_prog (tk_prog tk) C (tk_ctx tk) (quiet envs) 0 st) = Some r"
    using assms by (intro run_prog_ends) simp_all
  then obtain r st1 where run: "run_prog (tk_prog tk) C (tk_ctx tk) (quiet envs) 0 st = (Some r, st1)"
    by (metis prod.collapse)
  have "fst (send_error C (tk_ctx tk) m last_env st1) \<noteq> None" for m
    unfolding send_error_eq by (rule do_op_returns [OF surjective_pairing]) (use assms in auto)
  then obtain x st2 where "send_error C (tk_ctx tk) (ProcwireError_to_string (projl r)) last_env st1 = (Some x, st2)"
    by (metis not_None_eq prod.collapse)
  with run show ?thesis by (cases r) (auto simp: handler_task_def)
qed

section \<open>Properties\<close>

text \<open>C26. At most as many handlers run at the same time as the semaphore had permits, under every
  interleaving of incoming frames and completing tasks, and no permit is lost.\<close>

theorem handlers_bounded:
  assumes "(disp_step C reg w)\<^sup>*\<^sup>* ([], disp_init limit) (tasks, ds)"
  shows "length tasks \<le> limit \<and> ds_permits ds + length tasks = limit"
  using dsys.inv_reachable [OF refl assms] by (auto simp: disp_inv_def)

theorem handlers_bounded_witness:
  "\<exists>tasks ds. dispatch_into sample_codec sample_reg sample_writer sample_frame ([], disp_init 1) = (tasks, ds)
     \<and> length tasks \<le> 1"
proof -
  obtain tasks ds where s: "dispatch_into sample_codec sample_reg sample_writer sample_frame ([], disp_init 1)
      = (tasks, ds)" by fastforce
  have "(disp_step sample_codec sample_reg sample_writer)\<^sup>*\<^sup>* ([], disp_init 1) (tasks, ds)"
    unfolding s [symmetric] by (rule r_into_rtranclp) (rule d_frame)
  from handlers_bounded [OF this] s show ?thesis by blast
qed

text \<open>Handlers come to an end: a running task whose sends return, and whose request is aborted if
  it waits for that, ends when it is run, and this run is one the interleaved system can make: the
  task is removed, its permit is returned and its request id can no longer be aborted.\<close>

theorem handler_completes:
  assumes "tk_status tk = Handling" and "rc_writer (tk_ctx tk) = Some w"
    and "\<forall>n f. out_result (WriterHandle_send w f (envs n)) \<noteq> None"
    and "awaits_abort (tk_prog tk) \<longrightarrow> is_cancelled (tk_ctx tk) (ds_ctx ds)"
  shows "\<exists>st' ds'. handler_task C tk (quiet envs) (envs 0) (ds_ctx ds) = (True, st')
    \<and> (disp_step C reg w)\<^sup>*\<^sup>* (ts @ tk # us, ds) (ts @ us, ds')
    \<and> ds_ctx ds' = st' \<and> ds_permits ds' = Suc (ds_permits ds) \<and> ds_active ds' (tk_request tk) = None"
proof -
  obtain st' where t: "handler_task C tk (quiet envs) (envs 0) (ds_ctx ds) = (True, st')"
    using handler_task_ends [OF assms(2,3) _ assms(4)] assms(3) by blast
  have "(disp_step C reg w)\<^sup>*\<^sup>* (ts @ tk # us, ds) (ts @ us, finish_task tk (ds\<lparr>ds_ctx := st'\<rparr>))"
    using handler_task_moves [OF t assms(1)] by (rule mono_rtranclp [rule_format, rotated]) (rule d_move)
  with t show ?thesis by force
qed

theorem handler_completes_witness:
  "\<exists>ds'. (disp_step sample_codec sample_reg sample_writer)\<^sup>*\<^sup>* ([sample_task], sample_ds) ([], ds')"
  using handler_completes [OF sample_dispatch(4,5), of "\<lambda>_. sample_env" sample_ds sample_codec sample_reg "[]" "[]"]
    sample_dispatch(2) by (auto simp: send_defs WriterHandle_new_def)

text \<open>C24. ABORT reaches exactly its request: if the parent does not reuse the id of a request that
  is still running, then in every reachable state an ABORT frame cancels the context of the running
  request with its id, if there is one, and of no other running request; an ABORT for any other id
  changes nothing; and it never starts a handler.\<close>

theorem abort_cancels_exactly:
  assumes "(polite_step C reg w)\<^sup>*\<^sup>* ([], disp_init limit) (tasks, ds)"
    and "method_id (header frame) = ABORT_METHOD_ID"
    and "dispatch_frame C reg w frame ds = (spawned, ds')"
  shows "spawned = None
    \<and> (\<forall>tk \<in> set tasks. is_cancelled (tk_ctx tk) (ds_ctx ds') \<longleftrightarrow>
         is_cancelled (tk_ctx tk) (ds_ctx ds) \<or> tk_request tk = request_id (header frame))
    \<and> (request_id (header frame) \<notin> tk_request ` set tasks \<longrightarrow> ds' = ds)"
proof -
  have inv: "abort_inv (tasks, ds)" using psys.inv_reachable [OF refl assms(1)] .
  then have d: "distinct (map (\<lambda>tk. rc_token (tk_ctx tk)) tasks)" by (simp add: abort_inv_def)
  note run = dispatch_frame_abort [OF assms(2), of C reg w ds] assms(3)
  have same: "rc_token (tk_ctx tk') = rc_token (tk_ctx tk) \<longleftrightarrow> tk' = tk"
    if "tk \<in> set tasks" "tk' \<in> set tasks" for tk tk'
    using d that by (meson distinct_map inj_onD)
  have other: "ds' = ds" if "request_id (header frame) \<notin> tk_request ` set tasks"
    using inv that run by (cases "ds_active ds (request_id (header frame))") (auto simp: abort_inv_def)
  have hit: "ds' = ds\<lparr>ds_ctx := token_cancel (rc_token (tk_ctx tk)) (ds_ctx ds)\<rparr>"
    if "tk \<in> set tasks" "tk_request tk = request_id (header frame)" for tk
    using inv that run by (auto simp: abort_inv_def)
  have "is_cancelled (tk_ctx tk) (ds_ctx ds') \<longleftrightarrow>
      is_cancelled (tk_ctx tk) (ds_ctx ds) \<or> tk_request tk = request_id (header frame)"
    if tk: "tk \<in> set tasks" for tk
  proof (cases "request_id (header frame) \<in> tk_request ` set tasks")
    case True
    then obtain tk' where tk': "tk' \<in> set tasks" "tk_request tk' = request_id (header frame)" by auto
    have "tk_request tk = tk_request tk' \<longleftrightarrow> tk = tk'"
      using inv tk tk'(1) by (auto simp: abort_inv_def distinct_map dest: inj_onD)
    with hit [OF tk'] same [OF tk'(1) tk] tk'(2) show ?thesis
      by (auto simp: is_cancelled_def token_cancel_def)
  next
    case False
    with tk have "tk_request tk \<noteq> request_id (header frame)" by force
    with False other show ?thesis by simp
  qed
  with other run show ?thesis by auto
qed

theorem abort_cancels_exactly_witness:
  "is_cancelled (tk_ctx sample_task)
     (ds_ctx (snd (dispatch_frame sample_codec sample_reg sample_writer sample_abort sample_ds)))"
proof -
  have "polite_step sample_codec sample_reg sample_writer ([], disp_init 1) ([sample_task], sample_ds)"
    using p_frame [of sample_frame "[]" sample_codec sample_reg sample_writer "disp_init 1"]
    unfolding sample_spawn by simp
  then have "(polite_step sample_codec sample_reg sample_writer)\<^sup>*\<^sup>* ([], disp_init 1) ([sample_task], sample_ds)"
    by (rule r_into_rtranclp)
  from abort_cancels_exactly [OF this _ surjective_pairing, of sample_abort] sample_dispatch(3)
  show ?thesis by (simp add: Header_new_def)
qed

text \<open>With a reused id the protection is lost: two frames with the same request id can both be
  running, and when the first of them completes, the second, still running, can no longer be
  aborted.\<close>

theorem duplicate_id_unabortable:
  "\<exists>tk ds. (disp_step sample_codec sample_reg sample_writer)\<^sup>*\<^sup>* ([], disp_init 2) ([tk], ds)
    \<and> tk_request tk = 42 \<and> tk_status tk = Handling
    \<and> dispatch_frame sample_codec sample_reg sample_writer sample_abort ds = (None, ds)"
proof -
  let ?st = "disp_step sample_codec sample_reg sample_writer"
  let ?d = "dispatch_into sample_codec sample_reg sample_writer sample_frame"
  have "?st\<^sup>*\<^sup>* ([], disp_init 2) (?d (?d ([], disp_init 2)))"
    by (meson d_frame rtranclp.intros)
  moreover have "\<exists>a b ds. ?d (?d ([], disp_init 2)) = ([] @ a # [b], ds) \<and> tk_request a = 42
      \<and> tk_request b = 42 \<and> tk_status a = Handling \<and> tk_status b = Handling
      \<and> tk_prog a = HDone (Err (HandlerNotFound 1)) \<and> rc_writer (tk_ctx a) = Some sample_writer"
    by (simp add: dispatch_into_def dispatch_frame_def with_writer_and_token_def Let_def disp_init_def
        Header_new_def ABORT_METHOD_ID_def AUTH_METHOD_ID_def Header_is_response_def dispatch_def
        get_handler_by_id_def HandlerRegistry_new_def)
  ultimately obtain a b ds where reach: "?st\<^sup>*\<^sup>* ([], disp_init 2) ([] @ a # [b], ds)"
    and ab: "tk_request a = 42" "tk_request b = 42" "tk_status b = Handling"
    and a: "tk_status a = Handling" "tk_prog a = HDone (Err (HandlerNotFound 1))"
      "rc_writer (tk_ctx a) = Some sample_writer" by metis
  obtain st' where t: "handler_task sample_codec a sample_envs sample_env (ds_ctx ds) = (True, st')"
    using handler_task_ends [OF a(3), of "\<lambda>_. sample_env" sample_env "ds_ctx ds" sample_codec] a(2)
    by (auto simp: send_defs WriterHandle_new_def)
  let ?ds = "finish_task a (ds\<lparr>ds_ctx := st'\<rparr>)"
  have "?st\<^sup>*\<^sup>* ([] @ a # [b], ds) ([] @ [b], ?ds)"
    using handler_task_moves [OF t a(1)] by (rule mono_rtranclp [rule_format, rotated]) (rule d_move)
  with reach have "?st\<^sup>*\<^sup>* ([], disp_init 2) ([b], ?ds)" by simp
  moreover have "dispatch_frame sample_codec sample_reg sample_writer sample_abort ?ds = (None, ?ds)"
    using ab by (subst dispatch_frame_abort) (simp_all add: Header_new_def)
  ultimately show ?thesis using ab by auto
qed

text \<open>Requests are answered at most once, under every interleaving of incoming frames, of the
  steps of all running handlers and of emitted events: for every pair of ids, the terminal frames
  in the channel and the running tasks that still owe one are together no more than the requests
  with these ids that were started; and the channel holds only events and response frames that
  carry the ids of a started request.\<close>

theorem request_answered_at_most_once:
  assumes "(disp_step C reg w)\<^sup>*\<^sup>* ([], disp_init limit) (tasks, ds)"
  shows "answers ids (ds_ctx ds) + owed ids tasks (ds_ctx ds) \<le> requests ids (ds_started ds)
    \<and> (\<forall>f \<in> set (cs_sent (ds_ctx ds)). channel_frame (ds_started ds) f)"
  using answer_invD [OF asys.inv_reachable [OF refl assms]] by blast

theorem request_answered_at_most_once_witness:
  "\<exists>ds. (disp_step sample_codec sample_reg sample_writer)\<^sup>*\<^sup>* ([], disp_init 1) ([], ds)
     \<and> requests (1, 42) (ds_started ds) = 1 \<and> answers (1, 42) (ds_ctx ds) \<le> 1"
proof -
  let ?step = "disp_step sample_codec sample_reg sample_writer"
  have "?step ([], disp_init 1) ([sample_task], sample_ds)"
    using d_frame [of sample_codec sample_reg sample_writer "([], disp_init 1)" sample_frame]
    unfolding sample_spawn .
  moreover obtain st' where t: "handler_task sample_codec sample_task sample_envs sample_env (ds_ctx sample_ds) = (True, st')"
    using handler_task_ends [OF sample_dispatch(5), of "\<lambda>_. sample_env" sample_env "ds_ctx sample_ds" sample_codec]
      sample_dispatch(2) by (auto simp: send_defs WriterHandle_new_def)
  let ?ds = "finish_task sample_task (sample_ds\<lparr>ds_ctx := st'\<rparr>)"
  have "?step\<^sup>*\<^sup>* ([] @ sample_task # [], sample_ds) ([] @ [], ?ds)"
    using handler_task_moves [OF t sample_dispatch(4)] by (rule mono_rtranclp [rule_format, rotated]) (rule d_move)
  ultimately have reach: "?step\<^sup>*\<^sup>* ([], disp_init 1) ([], ?ds)" by simp
  have "requests (1, 42) (ds_started ?ds) = 1"
    using dispatch_frame_spawn(5) [OF sample_dispatch(1)]
    by (simp add: requests_def disp_init_def Header_new_def)
  with request_answered_at_most_once [OF reach, of "(1, 42)"] reach show ?thesis by auto
qed

end
