(* ===== verification/Writer_System.thy ===== *)
theory Writer_System
  imports Writer
begin

text \<open>
  Any number of tasks sending through clones of one \<open>WriterHandle\<close> while the writer task runs
  (\<open>src/writer.rs\<close>). Each step is one atomic instruction of \<open>send\<close> (its check of the counter, its
  increment, the channel's answer, the decrement on failure) or of \<open>writer_loop\<close> (receiving a
  frame, one partial write of the batch, the end of \<open>write_batch\<close>, releasing the batch). The channel
  is a bounded queue. A batch reaches the peer in any number of partial writes, and the writer may
  fail after any of them, with part of the batch already on the wire: that an \<open>Ok\<close> of \<open>write_batch\<close>
  means the whole batch and an error a prefix of it is shown in \<open>Write_Batch\<close>. \<open>ws_partial\<close> counts the bytes of
  the current batch that are written (\<open>bytes_written\<close> of \<open>write_batch\<close>); \<open>ws_accepted\<close>, \<open>ws_written\<close>
  and \<open>ws_wire\<close> are histories: the frames the channel accepted, the frames of the batches written in
  full, and the bytes that reached the peer.
\<close>

section \<open>Model\<close>

datatype sender_loc = SIdle | SCleared OutboundFrame | SAdded OutboundFrame | SRefused

text \<open>\<open>WFailed n\<close>: the task ended on a write error with \<open>n\<close> frames unreleased.\<close>

datatype writer_loc =
  WWait | WBatch "OutboundFrame list" | WWritten "OutboundFrame list" | WFailed nat

record writer_sys =
  ws_pending :: usize
  ws_sender :: "nat \<Rightarrow> sender_loc"
  ws_queue :: "OutboundFrame list"
  ws_writer :: writer_loc
  ws_accepted :: "OutboundFrame list"
  ws_written :: "OutboundFrame list"
  ws_partial :: nat
  ws_wire :: bytes

definition writer_alive :: "writer_sys \<Rightarrow> bool" where
  "writer_alive s \<longleftrightarrow> (case ws_writer s of WFailed _ \<Rightarrow> False | _ \<Rightarrow> True)"

inductive writer_step :: "usize \<Rightarrow> nat \<Rightarrow> nat \<Rightarrow> writer_sys \<Rightarrow> writer_sys \<Rightarrow> bool"
  for m cap n where
  s_clear: "i < n \<Longrightarrow> ws_sender s i = SIdle \<Longrightarrow> ws_pending s < m \<Longrightarrow>
    writer_step m cap n s (s\<lparr>ws_sender := (ws_sender s)(i := SCleared f)\<rparr>)"
| s_add: "i < n \<Longrightarrow> ws_sender s i = SCleared f \<Longrightarrow>
    writer_step m cap n s
      (s\<lparr>ws_pending := ws_pending s + 1, ws_sender := (ws_sender s)(i := SAdded f)\<rparr>)"
| s_enqueue: "i < n \<Longrightarrow> ws_sender s i = SAdded f \<Longrightarrow> writer_alive s \<Longrightarrow> length (ws_queue s) < cap \<Longrightarrow>
    writer_step m cap n s
      (s\<lparr>ws_sender := (ws_sender s)(i := SIdle), ws_queue := ws_queue s @ [f],
         ws_accepted := ws_accepted s @ [f]\<rparr>)"
| s_refuse: "i < n \<Longrightarrow> ws_sender s i = SAdded f \<Longrightarrow> \<not> writer_alive s \<Longrightarrow>
    writer_step m cap n s (s\<lparr>ws_sender := (ws_sender s)(i := SRefused)\<rparr>)"
| s_undo: "i < n \<Longrightarrow> ws_sender s i = SRefused \<Longrightarrow>
    writer_step m cap n s
      (s\<lparr>ws_pending := ws_pending s - 1, ws_sender := (ws_sender s)(i := SIdle)\<rparr>)"
| w_recv: "ws_writer s = WWait \<Longrightarrow> ws_queue s = f # q \<Longrightarrow>
    writer_step m cap n s (s\<lparr>ws_queue := q, ws_writer := WBatch [f], ws_partial := 0\<rparr>)"
| w_more: "ws_writer s = WBatch b \<Longrightarrow> ws_partial s = 0 \<Longrightarrow> length b < MAX_BATCH_SIZE \<Longrightarrow> ws_queue s = f # q \<Longrightarrow>
    writer_step m cap n s (s\<lparr>ws_queue := q, ws_writer := WBatch (b @ [f])\<rparr>)"
| w_part: "ws_writer s = WBatch b \<Longrightarrow> ws_partial s < k \<Longrightarrow> k \<le> length (batch_bytes b) \<Longrightarrow>
    writer_step m cap n s
      (s\<lparr>ws_partial := k,
         ws_wire := ws_wire s @ take (k - ws_partial s) (drop (ws_partial s) (batch_bytes b))\<rparr>)"
| w_write: "ws_writer s = WBatch b \<Longrightarrow> length (batch_bytes b) \<le> ws_partial s \<Longrightarrow>
    writer_step m cap n s (s\<lparr>ws_writer := WWritten b, ws_written := ws_written s @ b\<rparr>)"
| w_fail: "ws_writer s = WBatch b \<Longrightarrow>
    writer_step m cap n s
      (s\<lparr>ws_queue := [], ws_writer := WFailed (length b + length (ws_queue s))\<rparr>)"
| w_release: "ws_writer s = WWritten b \<Longrightarrow>
    writer_step m cap n s
      (s\<lparr>ws_pending := ws_pending s - of_nat (length b), ws_writer := WWait\<rparr>)"

inductive_cases writer_stepE: "writer_step m cap n s t"

definition writer_init :: writer_sys where
  "writer_init = \<lparr>ws_pending = 0, ws_sender = (\<lambda>_. SIdle), ws_queue = [], ws_writer = WWait,
     ws_accepted = [], ws_written = [], ws_partial = 0, ws_wire = []\<rparr>"

section \<open>Invariant\<close>

fun is_cleared :: "sender_loc \<Rightarrow> nat" where
  "is_cleared (SCleared _) = 1"
| "is_cleared _ = 0"

fun is_counted :: "sender_loc \<Rightarrow> nat" where
  "is_counted (SAdded _) = 1"
| "is_counted SRefused = 1"
| "is_counted _ = 0"

definition cleared_senders :: "nat \<Rightarrow> writer_sys \<Rightarrow> nat" where
  "cleared_senders n s = (\<Sum>i<n. is_cleared (ws_sender s i))"

definition counted_senders :: "nat \<Rightarrow> writer_sys \<Rightarrow> nat" where
  "counted_senders n s = (\<Sum>i<n. is_counted (ws_sender s i))"

definition in_flight :: "writer_sys \<Rightarrow> nat" where
  "in_flight s = (case ws_writer s of WWait \<Rightarrow> length (ws_queue s)
     | WBatch b \<Rightarrow> length b + length (ws_queue s) | WWritten b \<Rightarrow> length b + length (ws_queue s)
     | WFailed k \<Rightarrow> k)"

definition unwritten :: "writer_sys \<Rightarrow> OutboundFrame list" where
  "unwritten s = (case ws_writer s of WBatch b \<Rightarrow> b @ ws_queue s | _ \<Rightarrow> ws_queue s)"

definition writer_inv :: "usize \<Rightarrow> nat \<Rightarrow> writer_sys \<Rightarrow> bool" where
  "writer_inv m n s \<longleftrightarrow>
     unat (ws_pending s) = counted_senders n s + in_flight s
   \<and> unat (ws_pending s) + cleared_senders n s \<le> unat m - 1 + n
   \<and> (writer_alive s \<longrightarrow> ws_accepted s = ws_written s @ unwritten s)
   \<and> (\<exists>rest. ws_accepted s = ws_written s @ rest)
   \<and> (case ws_writer s of WBatch b \<Rightarrow> length b \<le> MAX_BATCH_SIZE
      | WWritten b \<Rightarrow> length b \<le> MAX_BATCH_SIZE | _ \<Rightarrow> True)"

lemma cleared_le: "cleared_senders n s \<le> n"
proof -
  have "is_cleared l \<le> 1" for l by (cases l) auto
  then have "cleared_senders n s \<le> (\<Sum>i<n. 1)" unfolding cleared_senders_def by (intro sum_mono)
  then show ?thesis by simp
qed

lemma senders_upd:
  assumes "i < n" and "ws_sender t = (ws_sender s)(i := l)"
  shows "cleared_senders n t + is_cleared (ws_sender s i) = cleared_senders n s + is_cleared l"
    and "counted_senders n t + is_counted (ws_sender s i) = counted_senders n s + is_counted l"
  using sum_fun_upd [OF assms(1), of is_cleared "ws_sender s" l]
    sum_fun_upd [OF assms(1), of is_counted "ws_sender s" l] assms(2)
  by (simp_all add: cleared_senders_def counted_senders_def)

lemma senders_same:
  "ws_sender t = ws_sender s \<Longrightarrow> cleared_senders n t = cleared_senders n s"
  "ws_sender t = ws_sender s \<Longrightarrow> counted_senders n t = counted_senders n s"
  by (simp_all add: cleared_senders_def counted_senders_def)

lemmas writer_inv_defs = writer_inv_def in_flight_def unwritten_def writer_alive_def

lemma writer_inv_sender_move:
  assumes "writer_inv m n s" and "i < n" and "ws_sender t = (ws_sender s)(i := l)"
    and "ws_writer t = ws_writer s" "ws_queue t = ws_queue s"
    and "ws_accepted t = ws_accepted s" "ws_written t = ws_written s"
    and "unat (ws_pending t) + is_counted (ws_sender s i) = unat (ws_pending s) + is_counted l"
    and "unat (ws_pending t) + cleared_senders n t \<le> unat m - 1 + n"
  shows "writer_inv m n t"
proof -
  from assms(4,5) have "in_flight t = in_flight s" "unwritten t = unwritten s"
    "writer_alive t = writer_alive s"
    by (simp_all add: in_flight_def unwritten_def writer_alive_def split: writer_loc.split)
  with assms senders_upd [OF assms(2,3)] show ?thesis by (simp add: writer_inv_def)
qed

lemma writer_inv_step:
  assumes inv: "writer_inv m n s" and room: "unat m + n < 2 ^ 64"
    and st: "writer_step m cap n s t"
  shows "writer_inv m n t"
  using st
proof cases
  case (s_clear i f)
  then have "unat (ws_pending s) < unat m" by (simp add: word_less_nat_alt)
  then have "unat (ws_pending t) + cleared_senders n t \<le> unat m - 1 + n"
    using s_clear cleared_le [of n t] by simp
  with s_clear show ?thesis by (intro writer_inv_sender_move [OF inv, of i]) auto
next
  case (s_add i f)
  note upd = senders_upd [OF s_add(2), of t s "SAdded f"]
  have "1 \<le> cleared_senders n s" using upd(1) s_add by simp
  then have "Suc (unat (ws_pending s)) \<le> unat m - 1 + n" using inv by (simp add: writer_inv_def)
  then have u: "unat (ws_pending s + 1) = Suc (unat (ws_pending s))"
    using room by (intro unat_inc_bound) simp
  then have "unat (ws_pending t) + cleared_senders n t \<le> unat m - 1 + n"
    using inv upd(1) s_add by (simp add: writer_inv_def)
  with s_add u show ?thesis by (intro writer_inv_sender_move [OF inv, of i]) auto
next
  case (s_enqueue i f)
  note upd = senders_upd [OF s_enqueue(2), of t s SIdle]
  with s_enqueue inv show ?thesis
    by (auto simp: writer_inv_defs split: writer_loc.splits)
next
  case (s_refuse i f)
  note upd = senders_upd [OF s_refuse(2), of t s SRefused]
  with s_refuse inv show ?thesis
    by (intro writer_inv_sender_move [OF inv, of i]) (auto simp: writer_inv_def)
next
  case (s_undo i)
  note upd = senders_upd [OF s_undo(2), of t s SIdle]
  then have "1 \<le> counted_senders n s" using s_undo by simp
  then have "ws_pending s \<noteq> 0" using inv by (auto simp: writer_inv_def)
  then have "unat (ws_pending s - 1) = unat (ws_pending s) - 1" "unat (ws_pending s) \<noteq> 0"
    by (simp_all add: unat_dec unat_eq_0)
  with s_undo inv upd show ?thesis
    by (intro writer_inv_sender_move [OF inv, of i]) (auto simp: writer_inv_def)
next
  case (w_release b)
  then have le: "length b \<le> unat (ws_pending s)" and b: "length b \<le> MAX_BATCH_SIZE"
    using inv by (simp_all add: writer_inv_defs)
  then have "unat (ws_pending s - of_nat (length b)) = unat (ws_pending s) - length b"
    by (subst unat_sub) (simp_all add: word_le_nat_alt unat_of_nat take_bit_eq_mod MAX_BATCH_SIZE_def)
  with w_release inv le show ?thesis
    using senders_same [of t s n] by (auto simp: writer_inv_defs)
qed (use inv senders_same [of t s n] in
    \<open>auto simp: writer_inv_defs MAX_BATCH_SIZE_def split: writer_loc.splits\<close>)

interpretation wsys: invariant_system
  "\<lambda>s. s = writer_init \<and> unat m + n < 2 ^ 64" "writer_step m cap n"
  "\<lambda>s. writer_inv m n s \<and> unat m + n < 2 ^ 64" for m cap n
proof
  show "writer_inv m n s \<and> unat m + n < 2 ^ 64" if "s = writer_init \<and> unat m + n < 2 ^ 64" for s
    using that
    by (simp add: writer_init_def writer_inv_defs cleared_senders_def counted_senders_def)
  show "writer_inv m n t \<and> unat m + n < 2 ^ 64"
    if "writer_inv m n s \<and> unat m + n < 2 ^ 64" and "writer_step m cap n s t" for s t
    using writer_inv_step that by blast
qed

text \<open>The bytes on the wire are those of the batches written in full and then, while a batch is being
  written or once the writer has failed, a prefix of the bytes of the frames that follow.\<close>

definition wire_inv :: "writer_sys \<Rightarrow> bool" where
  "wire_inv s \<longleftrightarrow> (case ws_writer s of
     WBatch b \<Rightarrow> ws_partial s \<le> length (batch_bytes b)
       \<and> ws_wire s = batch_bytes (ws_written s) @ take (ws_partial s) (batch_bytes b)
   | WFailed _ \<Rightarrow> \<exists>rest k. ws_accepted s = ws_written s @ rest
       \<and> ws_wire s = batch_bytes (ws_written s) @ take k (batch_bytes rest)
   | _ \<Rightarrow> ws_wire s = batch_bytes (ws_written s))"

lemma wire_inv_step:
  assumes inv: "writer_inv m n s" and wire: "wire_inv s" and st: "writer_step m cap n s t"
  shows "wire_inv t"
  using st
proof cases
  case (w_part b k)
  then have "take (ws_partial s) (batch_bytes b) @ take (k - ws_partial s) (drop (ws_partial s) (batch_bytes b))
      = take k (batch_bytes b)"
    using take_add [of "ws_partial s" "k - ws_partial s" "batch_bytes b"] by simp
  with w_part wire show ?thesis by (simp add: wire_inv_def)
next
  case (w_fail b)
  have acc: "ws_accepted t = ws_written t @ b @ ws_queue s"
    using w_fail inv by (simp add: writer_inv_defs)
  have "ws_wire t = batch_bytes (ws_written t) @ take (ws_partial s) (batch_bytes (b @ ws_queue s))"
    using w_fail wire by (simp add: wire_inv_def)
  with acc w_fail show ?thesis by (auto simp: wire_inv_def)
qed (use wire in \<open>auto simp: wire_inv_def writer_alive_def split: writer_loc.splits\<close>)

interpretation wire: invariant_system
  "\<lambda>s. s = writer_init \<and> unat m + n < 2 ^ 64" "writer_step m cap n"
  "\<lambda>s. wire_inv s \<and> writer_inv m n s \<and> unat m + n < 2 ^ 64" for m cap n
proof
  show "wire_inv s \<and> writer_inv m n s \<and> unat m + n < 2 ^ 64" if "s = writer_init \<and> unat m + n < 2 ^ 64" for s
    using that wsys.inv_init [of s m n] by (simp add: wire_inv_def writer_init_def)
  show "wire_inv t \<and> writer_inv m n t \<and> unat m + n < 2 ^ 64"
    if "wire_inv s \<and> writer_inv m n s \<and> unat m + n < 2 ^ 64" and "writer_step m cap n s t" for s t
    using wire_inv_step writer_inv_step that by blast
qed

lemma wire_prefix:
  assumes "(writer_step m cap n)\<^sup>*\<^sup>* writer_init s" and "unat m + n < 2 ^ 64"
  shows "\<exists>rest k. ws_accepted s = ws_written s @ rest
    \<and> ws_wire s = batch_bytes (ws_written s) @ take k (batch_bytes rest)"
proof -
  have inv: "wire_inv s" "writer_inv m n s" using wire.inv_reachable [OF _ assms(1)] assms(2) by simp_all
  show ?thesis
  proof (cases "ws_writer s")
    case (WBatch b)
    then have "ws_accepted s = ws_written s @ b @ ws_queue s"
      "ws_wire s = batch_bytes (ws_written s) @ take (ws_partial s) (batch_bytes (b @ ws_queue s))"
      using inv by (simp_all add: wire_inv_def writer_inv_defs)
    then show ?thesis by blast
  qed (use inv in \<open>auto simp: wire_inv_def writer_inv_def intro: exI [of _ 0]\<close>)
qed

text \<open>A call of \<open>send\<close> that finds room and is not disturbed is three steps of the system, with the
  effect on the counter and the queue that \<open>WriterHandle_send\<close> computes.\<close>

lemma send_steps:
  assumes "i < n" "ws_sender s i = SIdle" "writer_alive s" "length (ws_queue s) < cap"
    and "ws_pending s < m" "wh_max_pending self = m" "env_load env = ws_pending s"
    and "env_accepts env = Some True" "out = WriterHandle_send self f env"
  shows "(writer_step m cap n)\<^sup>*\<^sup>* s
    (s\<lparr>ws_pending := net_pending (out_ops out) (ws_pending s),
       ws_queue := ws_queue s @ out_sent out, ws_accepted := ws_accepted s @ out_sent out\<rparr>)"
proof -
  let ?s1 = "s\<lparr>ws_sender := (ws_sender s)(i := SCleared f)\<rparr>"
  let ?s2 = "?s1\<lparr>ws_pending := ws_pending ?s1 + 1, ws_sender := (ws_sender ?s1)(i := SAdded f)\<rparr>"
  let ?s3 = "?s2\<lparr>ws_sender := (ws_sender ?s2)(i := SIdle), ws_queue := ws_queue ?s2 @ [f],
    ws_accepted := ws_accepted ?s2 @ [f]\<rparr>"
  have "writer_step m cap n s ?s1" using assms by (intro s_clear)
  moreover have "writer_step m cap n ?s1 ?s2" using assms by (intro s_add) simp_all
  moreover have "writer_step m cap n ?s2 ?s3"
    using assms by (intro s_enqueue) (simp_all add: writer_alive_def)
  moreover have "?s3 = s\<lparr>ws_pending := net_pending (out_ops out) (ws_pending s),
      ws_queue := ws_queue s @ out_sent out, ws_accepted := ws_accepted s @ out_sent out\<rparr>"
    using assms by (simp add: send_defs fun_upd_idem)
  ultimately show ?thesis by (metis (no_types, lifting) rtranclp.simps)
qed

section \<open>No deadlock\<close>

text \<open>The writer task, left to itself, empties the channel; then every counted sender can finish; then
  the counter is 0.\<close>

lemma batch_writes:
  assumes "ws_writer s = WBatch b"
  shows "\<exists>t. (writer_step m cap n)\<^sup>*\<^sup>* s t \<and> ws_writer t = WWait \<and> ws_queue t = ws_queue s
    \<and> ws_sender t = ws_sender s \<and> ws_accepted t = ws_accepted s \<and> ws_written t = ws_written s @ b"
proof -
  let ?goal = "\<lambda>s t. ws_writer t = WWait \<and> ws_queue t = ws_queue s
    \<and> ws_sender t = ws_sender s \<and> ws_accepted t = ws_accepted s \<and> ws_written t = ws_written s @ b"
  have finish: "\<exists>t. (writer_step m cap n)\<^sup>*\<^sup>* s t \<and> ?goal s t"
    if "ws_writer s = WBatch b" "length (batch_bytes b) \<le> ws_partial s" for s
  proof -
    let ?s = "s\<lparr>ws_writer := WWritten b, ws_written := ws_written s @ b\<rparr>"
    let ?t = "?s\<lparr>ws_pending := ws_pending ?s - of_nat (length b), ws_writer := WWait\<rparr>"
    have "writer_step m cap n s ?s" using w_write [OF that] .
    moreover have "writer_step m cap n ?s ?t" by (intro w_release) simp
    ultimately have "(writer_step m cap n)\<^sup>*\<^sup>* s ?t" by (meson rtranclp.intros)
    then show ?thesis by (intro exI [of _ ?t]) simp
  qed
  show ?thesis
  proof (cases "length (batch_bytes b) \<le> ws_partial s")
    case False
    let ?s = "s\<lparr>ws_partial := length (batch_bytes b), ws_wire := ws_wire s
      @ take (length (batch_bytes b) - ws_partial s) (drop (ws_partial s) (batch_bytes b))\<rparr>"
    have "writer_step m cap n s ?s" using assms False by (intro w_part) simp_all
    moreover obtain t where "(writer_step m cap n)\<^sup>*\<^sup>* ?s t" "?goal ?s t"
      using finish [of ?s] assms by auto
    ultimately show ?thesis by (intro exI [of _ t]) (simp add: converse_rtranclp_into_rtranclp)
  qed (use finish assms in blast)
qed

lemma writer_to_wait:
  assumes "writer_alive s"
  shows "\<exists>t. (writer_step m cap n)\<^sup>*\<^sup>* s t \<and> ws_writer t = WWait \<and> ws_sender t = ws_sender s
    \<and> ws_accepted t = ws_accepted s"
proof (cases "ws_writer s")
  case (WBatch b)
  then show ?thesis using batch_writes [of s b m cap n] by blast
next
  case (WWritten b)
  then show ?thesis using w_release [OF WWritten, of m cap n]
    by (intro exI [of _ "s\<lparr>ws_pending := ws_pending s - of_nat (length b), ws_writer := WWait\<rparr>"]) auto
qed (use assms in \<open>auto simp: writer_alive_def\<close>)

lemma writer_drains_wait:
  "ws_writer s = WWait \<Longrightarrow> \<exists>t. (writer_step m cap n)\<^sup>*\<^sup>* s t \<and> ws_writer t = WWait \<and> ws_queue t = []
     \<and> ws_sender t = ws_sender s \<and> ws_accepted t = ws_accepted s"
proof (induction "ws_queue s" arbitrary: s)
  case (Cons f q)
  let ?s = "s\<lparr>ws_queue := q, ws_writer := WBatch [f], ws_partial := 0\<rparr>"
  have "writer_step m cap n s ?s" using Cons.prems Cons.hyps(2) by (intro w_recv) simp_all
  moreover obtain u where "(writer_step m cap n)\<^sup>*\<^sup>* ?s u" "ws_writer u = WWait" "ws_queue u = q"
    "ws_sender u = ws_sender s" "ws_accepted u = ws_accepted s"
    using batch_writes [of ?s "[f]" m cap n] by auto
  moreover obtain t where "(writer_step m cap n)\<^sup>*\<^sup>* u t" "ws_writer t = WWait" "ws_queue t = []"
    "ws_sender t = ws_sender u" "ws_accepted t = ws_accepted u"
    using Cons.hyps(1) [of u] calculation by auto
  ultimately show ?case by (metis converse_rtranclp_into_rtranclp rtranclp_trans)
qed auto

lemma writer_drains:
  assumes "writer_alive s"
  shows "\<exists>t. (writer_step m cap n)\<^sup>*\<^sup>* s t \<and> ws_writer t = WWait \<and> ws_queue t = []
    \<and> ws_sender t = ws_sender s \<and> ws_accepted t = ws_accepted s"
  using writer_to_wait [OF assms, of m cap n] writer_drains_wait [of _ m cap n] by (metis rtranclp_trans)

lemma counted_finishes:
  assumes "is_counted (ws_sender s j) \<noteq> 0" and "j < n" and "0 < cap" and "ws_queue s = []" and "writer_alive s"
  shows "\<exists>t. writer_step m cap n s t \<and> writer_alive t \<and> ws_sender t = (ws_sender s)(j := SIdle)
    \<and> (\<exists>pre. ws_accepted t = ws_accepted s @ pre)"
proof (cases "ws_sender s j")
  case (SAdded f)
  with s_enqueue [of j n s f cap m] assms show ?thesis
    by (intro exI [of _ "s\<lparr>ws_sender := (ws_sender s)(j := SIdle), ws_queue := ws_queue s @ [f],
      ws_accepted := ws_accepted s @ [f]\<rparr>"]) (simp add: writer_alive_def)
next
  case SRefused
  with s_undo [of j n s m cap] assms show ?thesis
    by (intro exI [of _ "s\<lparr>ws_pending := ws_pending s - 1, ws_sender := (ws_sender s)(j := SIdle)\<rparr>"])
      (simp add: writer_alive_def)
qed (use assms in auto)

lemma others_finish:
  assumes "0 < cap"
  shows "writer_alive s \<Longrightarrow> \<exists>t. (writer_step m cap n)\<^sup>*\<^sup>* s t \<and> ws_writer t = WWait \<and> ws_queue t = []
    \<and> counted_senders n t = 0 \<and> (\<forall>i. is_counted (ws_sender s i) = 0 \<longrightarrow> ws_sender t i = ws_sender s i)
    \<and> (\<exists>pre. ws_accepted t = ws_accepted s @ pre)"
proof (induction "counted_senders n s" arbitrary: s rule: less_induct)
  case less
  obtain t where t: "(writer_step m cap n)\<^sup>*\<^sup>* s t" "ws_writer t = WWait" "ws_queue t = []"
    "ws_sender t = ws_sender s" "ws_accepted t = ws_accepted s"
    using writer_drains [OF less.prems, of m cap n] by blast
  show ?case
  proof (cases "counted_senders n t = 0")
    case True
    with t show ?thesis by auto
  next
    case False
    then obtain j where j: "j < n" "is_counted (ws_sender t j) \<noteq> 0" by (auto simp: counted_senders_def)
    obtain u pre where u: "writer_step m cap n t u" "writer_alive u" "ws_sender u = (ws_sender t)(j := SIdle)"
      "ws_accepted u = ws_accepted t @ pre"
      using counted_finishes [OF j(2,1) assms t(3), of m] t(2) by (auto simp: writer_alive_def)
    have "counted_senders n u < counted_senders n s"
      using senders_upd(2) [OF j(1) u(3)] senders_same(2) [OF t(4), of n] j(2) by simp
    from less.hyps [OF this u(2)] obtain v pre' where v: "(writer_step m cap n)\<^sup>*\<^sup>* u v" "ws_writer v = WWait"
      "ws_queue v = []" "counted_senders n v = 0"
      "\<forall>i. is_counted (ws_sender u i) = 0 \<longrightarrow> ws_sender v i = ws_sender u i" "ws_accepted v = ws_accepted u @ pre'" by blast
    have "(writer_step m cap n)\<^sup>*\<^sup>* s v" using t(1) u(1) v(1) by (meson converse_rtranclp_into_rtranclp rtranclp_trans)
    moreover have "\<forall>i. is_counted (ws_sender s i) = 0 \<longrightarrow> ws_sender v i = ws_sender s i"
      using v(5) u(3) t(4) j(2) by auto
    ultimately show ?thesis using v u(4) t(5) by auto
  qed
qed

section \<open>Properties\<close>

text \<open>Under every interleaving of the senders and the writer task the counter is exactly the
  number of frames in flight (counted by a sender, queued, or in the batch being written), so it
  never wraps around; and it exceeds the maximum by less than the number of sending tasks. With
  one sending task the maximum is a hard bound.\<close>

theorem writer_pending_exact:
  assumes "unat m + n < 2 ^ 64" and "(writer_step m cap n)\<^sup>*\<^sup>* writer_init s"
  shows "unat (ws_pending s) = counted_senders n s + in_flight s
    \<and> unat (ws_pending s) \<le> unat m - 1 + n"
  using wsys.inv_reachable [OF _ assms(2)] assms(1) by (simp add: writer_inv_def)

lemma send_steps_sample:
  "(writer_step 4 8 2)\<^sup>*\<^sup>* writer_init (writer_init\<lparr>ws_pending := 1,
     ws_queue := [OutboundFrame_empty (Header_new 1 35 42 0)],
     ws_accepted := [OutboundFrame_empty (Header_new 1 35 42 0)]\<rparr>)"
  using send_steps [of 1 2 writer_init 8 4 "WriterHandle_new 0 0 4 10"
      "\<lparr>env_load = 0, env_rounds = [], env_accepts = Some True\<rparr>" _
      "OutboundFrame_empty (Header_new 1 35 42 0)", OF _ _ _ _ _ _ _ _ refl]
  by (simp add: writer_init_def writer_alive_def WriterHandle_new_def send_defs)

theorem writer_pending_exact_witness:
  "\<exists>s. (writer_step 4 8 2)\<^sup>*\<^sup>* writer_init s \<and> length (ws_queue s) = 1
     \<and> unat (ws_pending s) = counted_senders 2 s + in_flight s \<and> unat (ws_pending s) \<le> 5"
  using writer_pending_exact [OF _ send_steps_sample] send_steps_sample by fastforce

text \<open>Frames leave in the order in which the channel accepted them: what has been written is
  always a prefix of what was accepted, and while the writer task has not failed every accepted
  frame has been written or is still waiting, in order, in the batch or the queue.\<close>

theorem writer_system_fifo:
  assumes "unat m + n < 2 ^ 64" and "(writer_step m cap n)\<^sup>*\<^sup>* writer_init s"
  shows "(\<exists>rest. ws_accepted s = ws_written s @ rest)
    \<and> (writer_alive s \<longrightarrow> ws_accepted s = ws_written s @ unwritten s)"
  using wsys.inv_reachable [OF _ assms(2)] assms(1) by (simp add: writer_inv_def)

theorem writer_system_fifo_witness:
  "\<exists>s. (writer_step 4 8 2)\<^sup>*\<^sup>* writer_init s \<and> length (ws_accepted s) = 1
     \<and> ws_accepted s = ws_written s @ unwritten s"
proof -
  have "writer_alive (writer_init\<lparr>ws_pending := 1,
     ws_queue := [OutboundFrame_empty (Header_new 1 35 42 0)],
     ws_accepted := [OutboundFrame_empty (Header_new 1 35 42 0)]\<rparr>)"
    by (simp add: writer_alive_def writer_init_def)
  with writer_system_fifo [OF _ send_steps_sample] send_steps_sample show ?thesis by fastforce
qed

text \<open>A send is never stuck: in every reachable state in which the writer task lives, whatever the
  counter, the channel and the other tasks are at, the system can go on so that a task that wants to
  send a frame, or is anywhere in the course of sending it, gets it accepted by the channel, without
  a timeout and without losing or reordering what was accepted before.\<close>

theorem send_can_finish:
  assumes "(writer_step m cap n)\<^sup>*\<^sup>* writer_init s" and "unat m + n < 2 ^ 64" and "0 < m" and "0 < cap"
    and "writer_alive s" and "i < n" and "ws_sender s i \<in> {SIdle, SCleared f, SAdded f}"
  shows "\<exists>t pre. (writer_step m cap n)\<^sup>*\<^sup>* s t \<and> ws_accepted t = ws_accepted s @ pre @ [f] \<and> ws_sender t i = SIdle"
proof -
  have enqueue: "\<exists>t. writer_step m cap n u t \<and> ws_accepted t = ws_accepted u @ [f] \<and> ws_sender t i = SIdle"
    if "ws_sender u i = SAdded f" "ws_writer u = WWait" "ws_queue u = []" for u
    using s_enqueue [OF assms(6) that(1), of cap m] that assms(4)
    by (intro exI [of _ "u\<lparr>ws_sender := (ws_sender u)(i := SIdle), ws_queue := ws_queue u @ [f],
      ws_accepted := ws_accepted u @ [f]\<rparr>"]) (simp add: writer_alive_def)
  have add: "\<exists>t. (writer_step m cap n)\<^sup>*\<^sup>* u t \<and> ws_accepted t = ws_accepted u @ [f] \<and> ws_sender t i = SIdle"
    if "ws_sender u i = SCleared f" "ws_writer u = WWait" "ws_queue u = []" for u
  proof -
    let ?u = "u\<lparr>ws_pending := ws_pending u + 1, ws_sender := (ws_sender u)(i := SAdded f)\<rparr>"
    have "writer_step m cap n u ?u" using s_add [OF assms(6) that(1)] .
    with enqueue [of ?u] that show ?thesis by (auto intro: converse_rtranclp_into_rtranclp)
  qed
  show ?thesis
  proof (cases "ws_sender s i = SAdded f")
    case True
    obtain t where t: "(writer_step m cap n)\<^sup>*\<^sup>* s t" "ws_writer t = WWait" "ws_queue t = []"
      "ws_sender t = ws_sender s" "ws_accepted t = ws_accepted s"
      using writer_drains [OF assms(5), of m cap n] by blast
    with enqueue [of t] True show ?thesis by (metis append_Nil rtranclp.rtrancl_into_rtrancl)
  next
    case False
    obtain t pre where t: "(writer_step m cap n)\<^sup>*\<^sup>* s t" "ws_writer t = WWait" "ws_queue t = []"
      "counted_senders n t = 0" "ws_sender t i = ws_sender s i" "ws_accepted t = ws_accepted s @ pre"
      using others_finish [OF assms(4,5), of m n] False assms(7) by auto
    have "writer_inv m n t"
      using wsys.inv_reachable [OF _ rtranclp_trans [OF assms(1) t(1)]] assms(2) by blast
    then have "ws_pending t = 0" using t(2-4) by (simp add: writer_inv_def in_flight_def unat_eq_0)
    with assms(3) have clear: "writer_step m cap n t (t\<lparr>ws_sender := (ws_sender t)(i := SCleared f)\<rparr>)"
      if "ws_sender t i = SIdle" using that assms(6) by (intro s_clear) simp_all
    have "\<exists>u. (writer_step m cap n)\<^sup>*\<^sup>* t u \<and> ws_accepted u = ws_accepted t @ [f] \<and> ws_sender u i = SIdle"
      using add [of t] add [of "t\<lparr>ws_sender := (ws_sender t)(i := SCleared f)\<rparr>"] clear t(2,3,5) False assms(7)
      by (auto intro: converse_rtranclp_into_rtranclp)
    with t(1,6) show ?thesis by (metis append.assoc rtranclp_trans)
  qed
qed

theorem send_can_finish_witness:
  "\<exists>t pre. (writer_step 4 8 2)\<^sup>*\<^sup>* writer_init t
     \<and> ws_accepted t = pre @ [OutboundFrame_empty (Header_new 1 35 42 0)]"
  using send_can_finish [of 4 8 2 writer_init 1 "OutboundFrame_empty (Header_new 1 35 42 0)"]
  by (auto simp: writer_init_def writer_alive_def)

text \<open>A write error leaves its frames counted for ever: if as many frames as the maximum were in flight
  when the writer task failed, the counter never goes below the maximum again, so every later send
  waits for its backpressure timeout instead of learning that the connection is closed.\<close>

lemma failed_step:
  assumes "writer_step m cap n s t" and "ws_writer s = WFailed k"
  shows "ws_writer t = WFailed k \<and> ws_accepted t = ws_accepted s"
  using assms by cases (auto simp: writer_alive_def)

theorem failed_writer_blocks_sends:
  assumes "(writer_step m cap n)\<^sup>*\<^sup>* writer_init s" and "unat m + n < 2 ^ 64"
    and "ws_writer s = WFailed k" and "unat m \<le> k" and "(writer_step m cap n)\<^sup>*\<^sup>* s t"
  shows "m \<le> ws_pending t \<and> ws_accepted t = ws_accepted s"
proof -
  have t: "ws_writer t = WFailed k \<and> ws_accepted t = ws_accepted s"
    using assms(5,3) by (induction rule: rtranclp_induct) (auto dest: failed_step)
  have "writer_inv m n t"
    using wsys.inv_reachable [OF _ rtranclp_trans [OF assms(1,5)]] assms(2) by blast
  then have "unat (ws_pending t) = counted_senders n t + k" using t by (simp add: writer_inv_def in_flight_def)
  with assms(4) t show ?thesis by (simp add: word_le_nat_alt)
qed

theorem failed_writer_blocks_sends_witness:
  "\<exists>s. (writer_step 1 8 2)\<^sup>*\<^sup>* writer_init s \<and> ws_writer s = WFailed 1 \<and> 1 \<le> ws_pending s"
proof -
  let ?f = "OutboundFrame_empty (Header_new 1 35 42 0)"
  let ?s = "writer_init\<lparr>ws_pending := 1, ws_queue := [?f], ws_accepted := [?f]\<rparr>"
  let ?s1 = "?s\<lparr>ws_queue := [], ws_writer := WBatch [?f], ws_partial := 0\<rparr>"
  let ?s2 = "?s1\<lparr>ws_queue := [], ws_writer := WFailed (length [?f] + length (ws_queue ?s1))\<rparr>"
  have "(writer_step 1 8 2)\<^sup>*\<^sup>* writer_init ?s"
    using send_steps [of 1 2 writer_init 8 1 "WriterHandle_new 0 0 1 10"
        "\<lparr>env_load = 0, env_rounds = [], env_accepts = Some True\<rparr>" _ ?f, OF _ _ _ _ _ _ _ _ refl]
    by (simp add: writer_init_def writer_alive_def WriterHandle_new_def send_defs)
  moreover have "writer_step 1 8 2 ?s ?s1" by (rule w_recv) (simp_all add: writer_init_def)
  moreover have "writer_step 1 8 2 ?s1 ?s2" by (rule w_fail) simp
  ultimately have run: "(writer_step 1 8 2)\<^sup>*\<^sup>* writer_init ?s2" by (meson rtranclp.rtrancl_into_rtrancl)
  have "ws_writer ?s2 = WFailed 1" by simp
  moreover have "1 \<le> ws_pending ?s2"
    using failed_writer_blocks_sends [OF run _ calculation, of ?s2] by simp
  ultimately show ?thesis using run by blast
qed

end
