(* ===== verification/Client_System.thy ===== *)
theory Client_System
  imports Request_System Writer_System
begin

text \<open>
  The running client at the grain of its atomic instructions (\<open>src/client.rs\<close>, \<open>src/handler/context.rs\<close>,
  \<open>src/writer.rs\<close>): the read loop dispatches frames, up to \<open>n\<close> tasks run handlers, and the writer task
  drains the channel, all interleaved. A handler may hand clones of its context to tasks of its own.
  A context operation is the swap of its flag, the encoding with the check of the counter, the
  increment, the channel's answer and, on failure, the decrement; between any two of them every
  other task may move. The writer's half of the state is that of \<open>Writer_System\<close>: task \<open>i\<close> is its
  sender \<open>i\<close>. \<open>client_step\<close> has every step in which user code returns; \<open>crash_step\<close> adds the
  panic of user code in a task (the handler, code it has spawned, or a \<open>Serialize\<close> it calls). Safety
  is proved of \<open>crash_step\<close>; \<open>Client_Progress\<close> and \<open>Client_Termination\<close> speak of \<open>client_step\<close>.
\<close>

section \<open>Model\<close>

text \<open>Where a task is. The flag says whether it is the task the dispatcher spawned, which reports the
  handler's error and cleans up, or one the handler spawned with a clone of the context. \<open>TMarked\<close>:
  the operation has passed the flag; \<open>TSending\<close>: it is in \<open>send\<close>; \<open>TForget\<close> and \<open>TRelease\<close>: the
  handler is over, the active context and then the permit remain to be given back; \<open>TEmit\<close>: an
  application task is in the \<open>send\<close> of an event.\<close>

datatype 'v thread =
    TFree
  | TRun RequestContext "'v hprog" bool
  | TMarked RequestContext "'v ctx_op" "(unit, ProcwireError) result \<Rightarrow> 'v hprog" bool
  | TSending RequestContext "(unit, ProcwireError) result \<Rightarrow> 'v hprog" bool
  | TForget RequestContext
  | TRelease
  | TEmit

record 'v client_sys =
  cy_disp :: disp_state
  cy_threads :: "nat \<Rightarrow> 'v thread"
  cy_writer :: writer_sys

text \<open>The swap of the flag at the start of a terminal operation.\<close>

fun call_step :: "ctx_state \<Rightarrow> 'v thread \<Rightarrow> ('v thread \<times> ctx_state) option" where
  "call_step st (TRun ctx (HOp op k) root) = Some
     (if op_terminal op then (case mark_responded ctx st of
          (Inl e, st) \<Rightarrow> (TRun ctx (k (Err e)) root, st)
        | (Inr _, st) \<Rightarrow> (TMarked ctx op k root, st))
      else (TMarked ctx op k root, st))"
| "call_step st _ = None"

text \<open>What a task does between two operations: reading its token and flag, and the end of its
  program. The dispatcher's task reports an error nobody has answered with.\<close>

fun local_step :: "ctx_state \<Rightarrow> 'v thread \<Rightarrow> 'v thread option" where
  "local_step st (TRun ctx (HIsCancelled k) root) = Some (TRun ctx (k (is_cancelled ctx st)) root)"
| "local_step st (TRun ctx (HHasResponded k) root) = Some (TRun ctx (k (has_responded ctx st)) root)"
| "local_step st (TRun ctx (HCancelled p) root) =
     (case cancelled ctx st of Some _ \<Rightarrow> Some (TRun ctx p root) | None \<Rightarrow> None)"
| "local_step st (TRun ctx (HDone r) False) = Some TFree"
| "local_step st (TRun ctx (HDone (Inr _)) True) = Some (TForget ctx)"
| "local_step st (TRun ctx (HDone (Inl e)) True) = Some
     (if \<not> has_responded ctx st
      then TRun ctx (HOp (SendError (ProcwireError_to_string e)) (\<lambda>_. HDone (Ok ()))) True
      else TForget ctx)"
| "local_step st _ = None"

text \<open>The end of a \<open>send\<close>.\<close>

fun resume :: "'v thread \<Rightarrow> (unit, ProcwireError) result \<Rightarrow> 'v thread option" where
  "resume (TSending ctx k root) r = Some (TRun ctx (k r) root)"
| "resume TEmit r = Some TFree"
| "resume _ r = None"

inductive client_step ::
  "'v msgpack \<Rightarrow> 'v HandlerRegistry \<Rightarrow> WriterHandle \<Rightarrow> nat \<Rightarrow> nat \<Rightarrow> 'v client_sys \<Rightarrow> 'v client_sys \<Rightarrow> bool"
  for C reg w cap n where
  y_ignore: "dispatch_frame C reg w frame (cy_disp s) = (None, ds) \<Longrightarrow>
    client_step C reg w cap n s (s\<lparr>cy_disp := ds\<rparr>)"
| y_spawn: "dispatch_frame C reg w frame (cy_disp s) = (Some tk, ds) \<Longrightarrow> i < n \<Longrightarrow> cy_threads s i = TFree \<Longrightarrow>
    client_step C reg w cap n s
      (s\<lparr>cy_disp := ds, cy_threads := (cy_threads s)(i := TRun (tk_ctx tk) (tk_prog tk) True)\<rparr>)"
| y_clone: "j < n \<Longrightarrow> cy_threads s j = TRun ctx p root \<Longrightarrow> i < n \<Longrightarrow> cy_threads s i = TFree \<Longrightarrow>
    client_step C reg w cap n s (s\<lparr>cy_threads := (cy_threads s)(i := TRun ctx q False)\<rparr>)"
| y_call: "i < n \<Longrightarrow> call_step (ds_ctx (cy_disp s)) (cy_threads s i) = Some (t, st) \<Longrightarrow>
    client_step C reg w cap n s
      (s\<lparr>cy_disp := (cy_disp s)\<lparr>ds_ctx := st\<rparr>, cy_threads := (cy_threads s)(i := t)\<rparr>)"
| y_local: "i < n \<Longrightarrow> local_step (ds_ctx (cy_disp s)) (cy_threads s i) = Some t \<Longrightarrow>
    client_step C reg w cap n s (s\<lparr>cy_threads := (cy_threads s)(i := t)\<rparr>)"
| y_encode_fails: "i < n \<Longrightarrow> cy_threads s i = TMarked ctx op k root \<Longrightarrow> op_payload C op = Err e \<Longrightarrow>
    client_step C reg w cap n s (s\<lparr>cy_threads := (cy_threads s)(i := TRun ctx (k (Err e)) root)\<rparr>)"
| y_timeout: "i < n \<Longrightarrow> cy_threads s i = TMarked ctx op k root \<Longrightarrow> op_payload C op = Ok data \<Longrightarrow>
    wh_max_pending w \<le> ws_pending (cy_writer s) \<Longrightarrow>
    client_step C reg w cap n s
      (s\<lparr>cy_threads := (cy_threads s)(i := TRun ctx (k (Err BackpressureTimeout)) root)\<rparr>)"
| y_clear: "i < n \<Longrightarrow> cy_threads s i = TMarked ctx op k root \<Longrightarrow> op_payload C op = Ok data \<Longrightarrow>
    ws_sender (cy_writer s) i = SIdle \<Longrightarrow> ws_pending (cy_writer s) < wh_max_pending w \<Longrightarrow>
    client_step C reg w cap n s
      (s\<lparr>cy_threads := (cy_threads s)(i := TSending ctx k root),
         cy_writer := (cy_writer s)\<lparr>ws_sender := (ws_sender (cy_writer s))
           (i := SCleared (ctx_frame ctx (op_flags ctx op) data))\<rparr>\<rparr>)"
| y_emit: "i < n \<Longrightarrow> cy_threads s i = TFree \<Longrightarrow>
    ws_sender (cy_writer s) i = SIdle \<Longrightarrow> ws_pending (cy_writer s) < wh_max_pending w \<Longrightarrow>
    client_step C reg w cap n s
      (s\<lparr>cy_threads := (cy_threads s)(i := TEmit),
         cy_writer := (cy_writer s)\<lparr>ws_sender := (ws_sender (cy_writer s))(i := SCleared (event_frame ev data))\<rparr>\<rparr>)"
| y_add: "i < n \<Longrightarrow> ws_sender (cy_writer s) i = SCleared f \<Longrightarrow>
    client_step C reg w cap n s (s\<lparr>cy_writer := (cy_writer s)
      \<lparr>ws_pending := ws_pending (cy_writer s) + 1, ws_sender := (ws_sender (cy_writer s))(i := SAdded f)\<rparr>\<rparr>)"
| y_enqueue: "i < n \<Longrightarrow> ws_sender (cy_writer s) i = SAdded f \<Longrightarrow> writer_alive (cy_writer s) \<Longrightarrow>
    length (ws_queue (cy_writer s)) < cap \<Longrightarrow> resume (cy_threads s i) (Ok ()) = Some t \<Longrightarrow>
    client_step C reg w cap n s
      (s\<lparr>cy_threads := (cy_threads s)(i := t),
         cy_writer := (cy_writer s)\<lparr>ws_sender := (ws_sender (cy_writer s))(i := SIdle),
           ws_queue := ws_queue (cy_writer s) @ [f], ws_accepted := ws_accepted (cy_writer s) @ [f]\<rparr>\<rparr>)"
| y_refused: "i < n \<Longrightarrow> ws_sender (cy_writer s) i = SAdded f \<Longrightarrow> \<not> writer_alive (cy_writer s) \<Longrightarrow>
    client_step C reg w cap n s
      (s\<lparr>cy_writer := (cy_writer s)\<lparr>ws_sender := (ws_sender (cy_writer s))(i := SRefused)\<rparr>\<rparr>)"
| y_undo: "i < n \<Longrightarrow> ws_sender (cy_writer s) i = SRefused \<Longrightarrow>
    resume (cy_threads s i) (Err ConnectionClosed) = Some t \<Longrightarrow>
    client_step C reg w cap n s
      (s\<lparr>cy_threads := (cy_threads s)(i := t),
         cy_writer := (cy_writer s)\<lparr>ws_pending := ws_pending (cy_writer s) - 1,
           ws_sender := (ws_sender (cy_writer s))(i := SIdle)\<rparr>\<rparr>)"
| y_writer: "writer_step (wh_max_pending w) cap 0 (cy_writer s) v \<Longrightarrow>
    client_step C reg w cap n s (s\<lparr>cy_writer := v\<rparr>)"
| y_forget: "i < n \<Longrightarrow> cy_threads s i = TForget ctx \<Longrightarrow>
    client_step C reg w cap n s
      (s\<lparr>cy_disp := (cy_disp s)\<lparr>ds_active := (ds_active (cy_disp s))(rc_request_id ctx := None)\<rparr>,
         cy_threads := (cy_threads s)(i := TRelease)\<rparr>)"
| y_release: "i < n \<Longrightarrow> cy_threads s i = TRelease \<Longrightarrow>
    client_step C reg w cap n s
      (s\<lparr>cy_disp := (cy_disp s)\<lparr>ds_permits := ds_permits (cy_disp s) + 1\<rparr>,
         cy_threads := (cy_threads s)(i := TFree)\<rparr>)"

text \<open>A task whose user code panics, in the handler or in the encoding of a value. The runtime catches
  the panic; what the task owns is dropped, so the dispatcher's task gives its permit back, but the
  code behind the handler is not reached: no error is reported and the active context stays.\<close>

fun panic_step :: "'v thread \<Rightarrow> 'v thread option" where
  "panic_step (TRun ctx p root) = Some (if root then TRelease else TFree)"
| "panic_step (TMarked ctx op k root) = Some (if root then TRelease else TFree)"
| "panic_step _ = None"

inductive crash_step ::
  "'v msgpack \<Rightarrow> 'v HandlerRegistry \<Rightarrow> WriterHandle \<Rightarrow> nat \<Rightarrow> nat \<Rightarrow> 'v client_sys \<Rightarrow> 'v client_sys \<Rightarrow> bool"
  for C reg w cap n where
  z_step: "client_step C reg w cap n s t \<Longrightarrow> crash_step C reg w cap n s t"
| z_panic: "i < n \<Longrightarrow> panic_step (cy_threads s i) = Some t \<Longrightarrow>
    crash_step C reg w cap n s (s\<lparr>cy_threads := (cy_threads s)(i := t)\<rparr>)"

lemma crash_run: "(client_step C reg w cap n)\<^sup>*\<^sup>* s t \<Longrightarrow> (crash_step C reg w cap n)\<^sup>*\<^sup>* s t"
  by (erule mono_rtranclp [rule_format, rotated]) (rule z_step)

definition client_init :: "nat \<Rightarrow> 'v client_sys" where
  "client_init limit = \<lparr>cy_disp = disp_init limit, cy_threads = (\<lambda>_. TFree), cy_writer = writer_init\<rparr>"

section \<open>The writer's half\<close>

lemma writer_step_mono:
  assumes "writer_step m cap 0 s t"
  shows "writer_step m cap n s t"
  using assms by cases (auto intro: writer_step.intros)

text \<open>Every step of the client is a step of the senders and the writer task, or leaves them alone.\<close>

lemma client_step_writer:
  assumes "client_step C reg w cap n s t"
  shows "(writer_step (wh_max_pending w) cap n)\<^sup>=\<^sup>= (cy_writer s) (cy_writer t)"
  using assms
  by cases (auto intro: s_clear s_add s_enqueue s_refuse s_undo writer_step_mono)

lemma crash_steps_writer:
  "(crash_step C reg w cap n)\<^sup>*\<^sup>* s t \<Longrightarrow>
   (writer_step (wh_max_pending w) cap n)\<^sup>*\<^sup>* (cy_writer s) (cy_writer t)"
proof (induction rule: rtranclp_induct)
  case (step t u)
  from step.hyps(2) have "(writer_step (wh_max_pending w) cap n)\<^sup>=\<^sup>= (cy_writer t) (cy_writer u)"
    by cases (auto dest: client_step_writer)
  with step.IH show ?case by auto
qed simp

lemmas client_steps_writer = crash_steps_writer [OF crash_run]

section \<open>Invariants\<close>

text \<open>The tasks that hold a permit, and the permits.\<close>

fun holds_permit :: "'v thread \<Rightarrow> bool" where
  "holds_permit (TRun ctx p root) = root"
| "holds_permit (TMarked ctx op k root) = root"
| "holds_permit (TSending ctx k root) = root"
| "holds_permit (TForget ctx) = True"
| "holds_permit TRelease = True"
| "holds_permit _ = False"

definition permit_holders :: "nat \<Rightarrow> (nat \<Rightarrow> 'v thread) \<Rightarrow> nat" where
  "permit_holders n ts = (\<Sum>i<n. of_bool (holds_permit (ts i)))"

definition permit_inv :: "nat \<Rightarrow> nat \<Rightarrow> 'v client_sys \<Rightarrow> bool" where
  "permit_inv limit n s \<longleftrightarrow>
     ds_permits (cy_disp s) + permit_holders n (cy_threads s) = limit"

text \<open>The context a task works on, and the request it belongs to: flags are allocated in the order in
  which requests are started.\<close>

fun thread_ctx :: "'v thread \<Rightarrow> RequestContext option" where
  "thread_ctx (TRun ctx p root) = Some ctx"
| "thread_ctx (TMarked ctx op k root) = Some ctx"
| "thread_ctx (TSending ctx k root) = Some ctx"
| "thread_ctx (TForget ctx) = Some ctx"
| "thread_ctx _ = None"

definition belongs :: "Frame list \<Rightarrow> RequestContext \<Rightarrow> bool" where
  "belongs started ctx \<longleftrightarrow> rc_responded ctx < length started
     \<and> ctx_ids ctx = frame_ids (started ! rc_responded ctx)"

definition contexts :: "(nat \<Rightarrow> 'v thread) \<Rightarrow> RequestContext set" where
  "contexts ts = {ctx. \<exists>i. thread_ctx (ts i) = Some ctx}"

definition link_inv :: "'v client_sys \<Rightarrow> bool" where
  "link_inv s \<longleftrightarrow> ds_fresh (cy_disp s) = length (ds_started (cy_disp s))
   \<and> (\<forall>ctx \<in> contexts (cy_threads s). belongs (ds_started (cy_disp s)) ctx)"

text \<open>The terminal frames for a pair of ids: in the channel's history, on their way to it, and still
  permitted by a clear flag.\<close>

definition answers_in :: "u16 \<times> u32 \<Rightarrow> OutboundFrame list \<Rightarrow> nat" where
  "answers_in ids fs = length (filter (\<lambda>f. is_terminal_frame f \<and> out_ids f = ids) fs)"

fun loc_frames :: "sender_loc \<Rightarrow> OutboundFrame list" where
  "loc_frames (SCleared f) = [f]"
| "loc_frames (SAdded f) = [f]"
| "loc_frames _ = []"

fun under_way :: "u16 \<times> u32 \<Rightarrow> 'v thread \<Rightarrow> sender_loc \<Rightarrow> nat" where
  "under_way ids (TMarked ctx op k root) l = of_bool (op_terminal op \<and> ctx_ids ctx = ids)"
| "under_way ids (TSending ctx k root) l = answers_in ids (loc_frames l)"
| "under_way ids TEmit l = answers_in ids (loc_frames l)"
| "under_way ids _ l = 0"

definition under_way_all :: "nat \<Rightarrow> u16 \<times> u32 \<Rightarrow> 'v client_sys \<Rightarrow> nat" where
  "under_way_all n ids s = (\<Sum>i<n. under_way ids (cy_threads s i) (ws_sender (cy_writer s) i))"

definition unanswered :: "u16 \<times> u32 \<Rightarrow> disp_state \<Rightarrow> nat" where
  "unanswered ids ds = (\<Sum>a<length (ds_started ds).
     of_bool (frame_ids (ds_started ds ! a) = ids \<and> \<not> cs_responded (ds_ctx ds) a))"

definition once_inv :: "nat \<Rightarrow> 'v client_sys \<Rightarrow> bool" where
  "once_inv n s \<longleftrightarrow> (\<forall>ids. answers_in ids (ws_accepted (cy_writer s)) + under_way_all n ids s
     + unanswered ids (cy_disp s) \<le> requests ids (ds_started (cy_disp s)))"

definition sender_frames :: "writer_sys \<Rightarrow> OutboundFrame set" where
  "sender_frames v = set (ws_accepted v) \<union> (\<Union>i. set (loc_frames (ws_sender v i)))"

definition frames_inv :: "'v client_sys \<Rightarrow> bool" where
  "frames_inv s \<longleftrightarrow> (\<forall>f \<in> sender_frames (cy_writer s). channel_frame (ds_started (cy_disp s)) f)"

definition client_inv :: "nat \<Rightarrow> nat \<Rightarrow> 'v client_sys \<Rightarrow> bool" where
  "client_inv limit n s \<longleftrightarrow> permit_inv limit n s \<and> link_inv s \<and> once_inv n s \<and> frames_inv s"

lemma answers_in_simps [simp]:
  "answers_in ids [] = 0"
  "answers_in ids (fs @ gs) = answers_in ids fs + answers_in ids gs"
  "answers_in ids [event_frame i data] = 0"
  "answers_in ids [ctx_frame ctx (op_flags ctx op) data] = of_bool (op_terminal op \<and> ctx_ids ctx = ids)"
  by (simp_all add: answers_in_def)

text \<open>The steps of a task on its own.\<close>

lemma call_step_cases:
  assumes "call_step st t = Some (t', st')"
  obtains ctx op k root where "t = TRun ctx (HOp op k) root"
    and "t' = TMarked ctx op k root \<and> (op_terminal op \<longrightarrow> \<not> has_responded ctx st)
          \<and> cs_responded st' = (if op_terminal op then (cs_responded st)(rc_responded ctx := True) else cs_responded st)
        \<or> (\<exists>r. t' = TRun ctx (k r) root) \<and> cs_responded st' = cs_responded st"
  using assms
  by (cases "(st, t)" rule: call_step.cases)
    (auto simp: mark_responded_def has_responded_def Let_def fun_upd_idem split: if_splits)

lemma call_step_keeps:
  assumes "call_step st t = Some (t', st')"
  shows "holds_permit t' = holds_permit t" and "thread_ctx t' = thread_ctx t"
  using assms by (auto elim!: call_step_cases)

lemma local_step_keeps:
  assumes "local_step st t = Some t'"
  shows "holds_permit t' = holds_permit t" and "thread_ctx t' = Some ctx \<Longrightarrow> thread_ctx t = Some ctx"
    and "under_way ids t' l = 0"
  using assms
  by (cases "(st, t)" rule: local_step.cases; auto split: if_splits option.splits)+

lemma resume_keeps:
  assumes "resume t r = Some t'"
  shows "holds_permit t' = holds_permit t" and "thread_ctx t' = Some ctx \<Longrightarrow> thread_ctx t = Some ctx"
    and "under_way ids t' l = 0" and "under_way ids t l = answers_in ids (loc_frames l)"
  using assms by (cases "(t, r)" rule: resume.cases; auto)+

lemma panic_step_keeps:
  assumes "panic_step t = Some t'"
  shows "holds_permit t' = holds_permit t" and "thread_ctx t' = None" and "under_way ids t' l = 0"
  using assms by (cases t; auto split: if_splits)+

lemma dispatch_frame_none:
  assumes "dispatch_frame C reg w frame ds = (None, ds')"
  shows "ds_permits ds' = ds_permits ds" and "ds_fresh ds' = ds_fresh ds" and "ds_started ds' = ds_started ds"
    and "cs_responded (ds_ctx ds') = cs_responded (ds_ctx ds)"
  using assms
  by (auto simp: dispatch_frame_def Let_def token_cancel_def split: if_splits option.splits prod.splits)

lemma permit_holders_upd:
  assumes "i < n"
  shows "holds_permit x = holds_permit (f i) \<Longrightarrow> permit_holders n (f(i := x)) = permit_holders n f"
    and "holds_permit x \<Longrightarrow> \<not> holds_permit (f i) \<Longrightarrow> permit_holders n (f(i := x)) = Suc (permit_holders n f)"
    and "\<not> holds_permit x \<Longrightarrow> holds_permit (f i) \<Longrightarrow> Suc (permit_holders n (f(i := x))) = permit_holders n f"
proof -
  have "permit_holders n (f(i := x)) + of_bool (holds_permit (f i)) = permit_holders n f + of_bool (holds_permit x)"
    using sum_fun_upd [OF assms, of "\<lambda>t. of_bool (holds_permit t)" f x] by (simp only: permit_holders_def)
  then show "holds_permit x = holds_permit (f i) \<Longrightarrow> permit_holders n (f(i := x)) = permit_holders n f"
    and "holds_permit x \<Longrightarrow> \<not> holds_permit (f i) \<Longrightarrow> permit_holders n (f(i := x)) = Suc (permit_holders n f)"
    and "\<not> holds_permit x \<Longrightarrow> holds_permit (f i) \<Longrightarrow> Suc (permit_holders n (f(i := x))) = permit_holders n f"
    by simp_all
qed

lemma permit_inv_step:
  assumes "client_step C reg w cap n s t" and "permit_inv limit n s"
  shows "permit_inv limit n t"
  using assms
proof (cases rule: client_step.cases)
  case (y_ignore frame ds)
  with dispatch_frame_none(1) [OF y_ignore(2)] assms(2) show ?thesis by (simp add: permit_inv_def)
next
  case (y_spawn frame tk ds i)
  with dispatch_frame_cases(2) [OF y_spawn(2)] assms(2) show ?thesis
    by (simp add: permit_inv_def permit_holders_upd)
next
  case (y_call i x st)
  with call_step_keeps(1) [OF y_call(3)] assms(2) show ?thesis by (simp add: permit_inv_def permit_holders_upd)
next
  case (y_local i x)
  with local_step_keeps(1) [OF y_local(3)] assms(2) show ?thesis by (simp add: permit_inv_def permit_holders_upd)
next
  case (y_enqueue i f x)
  with resume_keeps(1) [OF y_enqueue(6)] assms(2) show ?thesis by (simp add: permit_inv_def permit_holders_upd)
next
  case (y_undo i x)
  with resume_keeps(1) [OF y_undo(4)] assms(2) show ?thesis by (simp add: permit_inv_def permit_holders_upd)
next
  case (y_release i)
  with permit_holders_upd(3) [OF y_release(2), of TFree "cy_threads s"] assms(2) show ?thesis
    by (simp add: permit_inv_def)
qed (use assms(2) in \<open>auto simp: permit_inv_def permit_holders_upd\<close>)

text \<open>The contexts in use come from the tasks of the state before or from a request just started, and
  only starting a request changes the list of requests.\<close>

lemma in_contexts: "thread_ctx (ts i) = Some ctx \<Longrightarrow> ctx \<in> contexts ts"
  by (auto simp: contexts_def)

lemma contexts_upd:
  "contexts (ts(i := x)) \<subseteq> contexts ts \<union> set_option (thread_ctx x)"
  by (auto simp: contexts_def)

lemma contexts_upd_same:
  "set_option (thread_ctx x) \<subseteq> set_option (thread_ctx (ts j)) \<Longrightarrow> contexts (ts(i := x)) \<subseteq> contexts ts"
  using contexts_upd [of ts i x] in_contexts [of ts j] by (auto simp: elem_set)

lemma thread_ctx_keeps:
  "call_step st t = Some (t', st') \<Longrightarrow> set_option (thread_ctx t') \<subseteq> set_option (thread_ctx t)"
  "local_step st t = Some t' \<Longrightarrow> set_option (thread_ctx t') \<subseteq> set_option (thread_ctx t)"
  "resume t r = Some t' \<Longrightarrow> set_option (thread_ctx t') \<subseteq> set_option (thread_ctx t)"
  by (auto simp: elem_set dest: call_step_keeps(2) local_step_keeps(2) resume_keeps(2))

lemma client_step_contexts:
  assumes "client_step C reg w cap n s t"
  shows "(ds_fresh (cy_disp t) = ds_fresh (cy_disp s) \<and> ds_started (cy_disp t) = ds_started (cy_disp s)
      \<and> contexts (cy_threads t) \<subseteq> contexts (cy_threads s))
    \<or> (\<exists>frame tk. dispatch_frame C reg w frame (cy_disp s) = (Some tk, cy_disp t)
      \<and> contexts (cy_threads t) \<subseteq> insert (tk_ctx tk) (contexts (cy_threads s)))"
  using assms
proof (cases rule: client_step.cases)
  case (y_ignore frame ds)
  with dispatch_frame_none [OF y_ignore(2)] show ?thesis by simp
next
  case (y_spawn frame tk ds i)
  with contexts_upd [of "cy_threads s" i "TRun (tk_ctx tk) (tk_prog tk) True"] show ?thesis
    by (intro disjI2 exI [of _ frame] exI [of _ tk]) simp
next
  case (y_clone j ctx p root i q)
  with contexts_upd_same [of "TRun ctx q False" "cy_threads s" j i] show ?thesis by simp
next
  case (y_call i x st)
  with contexts_upd_same [of x "cy_threads s" i i] thread_ctx_keeps(1) [OF y_call(3)] show ?thesis by simp
next
  case (y_local i x)
  with contexts_upd_same [of x "cy_threads s" i i] thread_ctx_keeps(2) [OF y_local(3)] show ?thesis by simp
next
  case (y_enqueue i f x)
  with contexts_upd_same [of x "cy_threads s" i i] thread_ctx_keeps(3) [OF y_enqueue(6)] show ?thesis by simp
next
  case (y_undo i x)
  with contexts_upd_same [of x "cy_threads s" i i] thread_ctx_keeps(3) [OF y_undo(4)] show ?thesis by simp
qed (simp_all add: contexts_upd_same [where j = i and i = i for i])

lemma belongs_append: "belongs started ctx \<Longrightarrow> belongs (started @ fs) ctx"
  by (auto simp: belongs_def nth_append)

lemma link_inv_step:
  assumes "client_step C reg w cap n s t" and "link_inv s"
  shows "link_inv t"
  using client_step_contexts [OF assms(1)]
proof (elim disjE exE conjE)
  fix frame tk
  assume spawn: "dispatch_frame C reg w frame (cy_disp s) = (Some tk, cy_disp t)"
    and ctxs: "contexts (cy_threads t) \<subseteq> insert (tk_ctx tk) (contexts (cy_threads s))"
  note d = dispatch_frame_spawn [OF spawn]
  have "belongs (ds_started (cy_disp t)) (tk_ctx tk)"
    using d(1,5) assms(2) by (simp add: belongs_def link_inv_def nth_append)
  moreover have "belongs (ds_started (cy_disp t)) ctx" if "ctx \<in> contexts (cy_threads s)" for ctx
    using that d(5) assms(2) by (simp add: link_inv_def belongs_append)
  ultimately have "\<forall>ctx \<in> contexts (cy_threads t). belongs (ds_started (cy_disp t)) ctx"
    using ctxs by blast
  with d(4,5) assms(2) show ?thesis by (simp add: link_inv_def)
qed (use assms(2) in \<open>auto simp: link_inv_def\<close>)

text \<open>Frames.\<close>

lemma writer_only:
  assumes "writer_step m cap 0 s t"
  shows "ws_sender t = ws_sender s" and "ws_accepted t = ws_accepted s"
  using assms by (cases; simp)+

lemma sender_frames_upd:
  "ws_accepted v = ws_accepted u \<Longrightarrow> ws_sender v = (ws_sender u)(i := l) \<Longrightarrow>
   sender_frames v \<subseteq> sender_frames u \<union> set (loc_frames l)"
  by (auto simp: sender_frames_def split: if_splits)

lemma sender_frames_at: "f \<in> set (loc_frames (ws_sender v i)) \<Longrightarrow> f \<in> sender_frames v"
  by (auto simp: sender_frames_def)

lemma client_step_frames:
  fixes C :: "'a msgpack"
  assumes "client_step C reg w cap n s t" and "f \<in> sender_frames (cy_writer t)"
  shows "f \<in> sender_frames (cy_writer s) \<or> (\<exists>ev data. f = event_frame ev data)
    \<or> (\<exists>ctx op data. ctx \<in> contexts (cy_threads s) \<and> f = ctx_frame ctx (op_flags ctx (op :: 'a ctx_op)) data)"
  using assms
proof (cases rule: client_step.cases)
  case (y_clear i ctx op k root data)
  with sender_frames_upd [of "cy_writer t" "cy_writer s" i] assms(2) in_contexts [of "cy_threads s" i ctx]
  show ?thesis by fastforce
next
  case (y_emit i ev data)
  with sender_frames_upd [of "cy_writer t" "cy_writer s" i] assms(2) show ?thesis by fastforce
next
  case (y_add i g)
  with sender_frames_upd [of "cy_writer t" "cy_writer s" i] sender_frames_at [of f "cy_writer s" i] assms(2)
  show ?thesis by fastforce
next
  case (y_enqueue i g x)
  then have "sender_frames (cy_writer t) \<subseteq> sender_frames (cy_writer s) \<union> {g}"
    by (auto simp: sender_frames_def split: if_splits)
  with y_enqueue sender_frames_at [of g "cy_writer s" i] assms(2) show ?thesis by auto
next
  case (y_refused i g)
  with sender_frames_upd [of "cy_writer t" "cy_writer s" i SRefused] assms(2) show ?thesis by auto
next
  case (y_undo i x)
  with sender_frames_upd [of "cy_writer t" "cy_writer s" i SIdle] assms(2) show ?thesis by auto
next
  case (y_writer v)
  with writer_only [OF y_writer(2)] assms(2) show ?thesis by (simp add: sender_frames_def)
qed simp_all

lemma frames_inv_step:
  assumes "client_step C reg w cap n s t" and "frames_inv s" and "link_inv s"
  shows "frames_inv t"
proof -
  obtain fs where st: "ds_started (cy_disp t) = ds_started (cy_disp s) @ fs"
    using client_step_contexts [OF assms(1)] dispatch_frame_spawn(5) by (metis append_Nil2)
  have "channel_frame (ds_started (cy_disp s)) f" if f: "f \<in> sender_frames (cy_writer t)" for f
    using client_step_frames [OF assms(1) f]
  proof (elim disjE exE conjE)
    fix ctx op data assume "ctx \<in> contexts (cy_threads s)" and e: "f = ctx_frame ctx (op_flags ctx op) data"
    then have "belongs (ds_started (cy_disp s)) ctx" using assms(3) by (simp add: link_inv_def)
    then have "ctx_ids ctx \<in> frame_ids ` set (ds_started (cy_disp s))" by (auto simp: belongs_def)
    with e show ?thesis by (simp add: ctx_frame_channel)
  qed (use assms(2) in \<open>auto simp: frames_inv_def channel_frame_def\<close>)
  then show ?thesis by (simp add: frames_inv_def st channel_frame_mono)
qed

text \<open>Answers.\<close>

lemma under_way_upd:
  assumes "i < n" and "\<And>j. j \<noteq> i \<Longrightarrow> cy_threads t j = cy_threads s j"
    and "\<And>j. j \<noteq> i \<Longrightarrow> ws_sender (cy_writer t) j = ws_sender (cy_writer s) j"
  shows "under_way_all n ids t + under_way ids (cy_threads s i) (ws_sender (cy_writer s) i)
    = under_way_all n ids s + under_way ids (cy_threads t i) (ws_sender (cy_writer t) i)"
  unfolding under_way_all_def using assms by (intro sum_change) auto

lemma unanswered_mark:
  assumes "a < length (ds_started ds)" and "\<not> cs_responded (ds_ctx ds) a"
    and "cs_responded st = (cs_responded (ds_ctx ds))(a := True)"
  shows "unanswered ids (ds\<lparr>ds_ctx := st\<rparr>) + of_bool (frame_ids (ds_started ds ! a) = ids) = unanswered ids ds"
  using sum_change [OF assms(1), of
      "\<lambda>b. of_bool (frame_ids (ds_started ds ! b) = ids \<and> \<not> cs_responded st b)"
      "\<lambda>b. of_bool (frame_ids (ds_started ds ! b) = ids \<and> \<not> cs_responded (ds_ctx ds) b)"] assms(2,3)
  unfolding unanswered_def by simp

lemma unanswered_spawn:
  assumes "dispatch_frame C reg w frame ds = (Some tk, ds')" and "ds_fresh ds = length (ds_started ds)"
  shows "unanswered ids ds' = unanswered ids ds + of_bool (frame_ids frame = ids)"
proof -
  note d = dispatch_frame_spawn [OF assms(1)]
  have "(\<Sum>a<length (ds_started ds). of_bool (frame_ids (ds_started ds' ! a) = ids \<and> \<not> cs_responded (ds_ctx ds') a))
      = unanswered ids ds"
    unfolding unanswered_def using d(3,5) assms(2)
    by (intro sum.cong) (auto simp: nth_append flag_new_def token_new_def)
  then show ?thesis
    using d(3,5) assms(2) by (simp add: unanswered_def flag_new_def token_new_def)
qed

text \<open>Passing the flag moves a request from those with a clear flag to those under way.\<close>

lemma account_call:
  assumes "link_inv s" and "i < n" and "call_step (ds_ctx (cy_disp s)) (cy_threads s i) = Some (x, st)"
  shows "under_way_all n ids (s\<lparr>cy_disp := (cy_disp s)\<lparr>ds_ctx := st\<rparr>, cy_threads := (cy_threads s)(i := x)\<rparr>)
      + unanswered ids ((cy_disp s)\<lparr>ds_ctx := st\<rparr>)
    = under_way_all n ids s + unanswered ids (cy_disp s)" (is "under_way_all n ids ?t + unanswered ids ?ds = _")
proof -
  obtain ctx op k root where c: "cy_threads s i = TRun ctx (HOp op k) root"
    and x: "x = TMarked ctx op k root \<and> (op_terminal op \<longrightarrow> \<not> has_responded ctx (ds_ctx (cy_disp s)))
          \<and> cs_responded st = (if op_terminal op
              then (cs_responded (ds_ctx (cy_disp s)))(rc_responded ctx := True) else cs_responded (ds_ctx (cy_disp s)))
        \<or> (\<exists>r. x = TRun ctx (k r) root) \<and> cs_responded st = cs_responded (ds_ctx (cy_disp s))"
    using assms(3) by (rule call_step_cases)
  have "ctx \<in> contexts (cy_threads s)" by (rule in_contexts [of _ i]) (simp add: c)
  with assms(1) have b: "rc_responded ctx < length (ds_started (cy_disp s))"
    "ctx_ids ctx = frame_ids (ds_started (cy_disp s) ! rc_responded ctx)"
    by (auto simp: link_inv_def belongs_def)
  show ?thesis
  proof (cases "x = TMarked ctx op k root \<and> op_terminal op")
    case True
    with x have "unanswered ids ?ds + of_bool (ctx_ids ctx = ids) = unanswered ids (cy_disp s)"
      using unanswered_mark [OF b(1), of st ids] b(2) by (auto simp: has_responded_def)
    moreover have "under_way_all n ids ?t = under_way_all n ids s + of_bool (ctx_ids ctx = ids)"
      using under_way_upd [OF assms(2), of ?t s ids] True c by simp
    ultimately show ?thesis by simp
  next
    case False
    with x have "unanswered ids ?ds = unanswered ids (cy_disp s)" by (auto simp: unanswered_def)
    moreover have "under_way_all n ids ?t = under_way_all n ids s"
      using under_way_upd [OF assms(2), of ?t s ids] False x c by auto
    ultimately show ?thesis by simp
  qed
qed

lemma once_inv_call:
  assumes "once_inv n s" and "link_inv s" and "i < n"
    and "call_step (ds_ctx (cy_disp s)) (cy_threads s i) = Some (x, st)"
  shows "once_inv n (s\<lparr>cy_disp := (cy_disp s)\<lparr>ds_ctx := st\<rparr>, cy_threads := (cy_threads s)(i := x)\<rparr>)"
  using assms(1) account_call [OF assms(2-4)] by (simp add: once_inv_def add.assoc del: split_paired_All)

lemma once_inv_thread:
  assumes "once_inv n s" and "i < n" and "\<And>j. j \<noteq> i \<Longrightarrow> cy_threads t j = cy_threads s j"
    and "\<And>j. j \<noteq> i \<Longrightarrow> ws_sender (cy_writer t) j = ws_sender (cy_writer s) j"
    and "\<And>ids. answers_in ids (ws_accepted (cy_writer t)) + under_way ids (cy_threads t i) (ws_sender (cy_writer t) i)
      \<le> answers_in ids (ws_accepted (cy_writer s)) + under_way ids (cy_threads s i) (ws_sender (cy_writer s) i)"
    and "\<And>ids. unanswered ids (cy_disp t) = unanswered ids (cy_disp s)"
    and "ds_started (cy_disp t) = ds_started (cy_disp s)"
  shows "once_inv n t"
  unfolding once_inv_def
proof
  fix ids
  have "answers_in ids (ws_accepted (cy_writer s)) + under_way_all n ids s + unanswered ids (cy_disp s)
      \<le> requests ids (ds_started (cy_disp s))" using assms(1) by (simp add: once_inv_def del: split_paired_All)
  with assms(5,6) [of ids] under_way_upd [OF assms(2-4), of ids] assms(7)
  show "answers_in ids (ws_accepted (cy_writer t)) + under_way_all n ids t + unanswered ids (cy_disp t)
      \<le> requests ids (ds_started (cy_disp t))" by simp
qed

lemma once_inv_cong:
  assumes "once_inv n s" and "cy_threads t = cy_threads s" and "ws_sender (cy_writer t) = ws_sender (cy_writer s)"
    and "ws_accepted (cy_writer t) = ws_accepted (cy_writer s)"
    and "\<And>ids. unanswered ids (cy_disp t) = unanswered ids (cy_disp s)" and "ds_started (cy_disp t) = ds_started (cy_disp s)"
  shows "once_inv n t"
  using assms by (simp add: once_inv_def under_way_all_def)

text \<open>A request that is started has a clear flag.\<close>

lemma account_spawn:
  assumes "ds_fresh (cy_disp s) = length (ds_started (cy_disp s))" and "i < n" and "cy_threads s i = TFree"
    and d: "dispatch_frame C reg w frame (cy_disp s) = (Some tk, ds)"
  shows "under_way_all n ids (s\<lparr>cy_disp := ds, cy_threads := (cy_threads s)(i := TRun (tk_ctx tk) (tk_prog tk) True)\<rparr>)
      + unanswered ids ds + requests ids (ds_started (cy_disp s))
    = under_way_all n ids s + unanswered ids (cy_disp s) + requests ids (ds_started ds)"
    (is "under_way_all n ids ?t + _ + _ = _")
proof -
  have "under_way_all n ids ?t = under_way_all n ids s"
    using under_way_upd [OF assms(2), of ?t s ids] assms(3) by simp
  moreover have "unanswered ids ds = unanswered ids (cy_disp s) + of_bool (frame_ids frame = ids)"
    using unanswered_spawn [OF d assms(1)] .
  moreover have "requests ids (ds_started ds) = requests ids (ds_started (cy_disp s)) + of_bool (frame_ids frame = ids)"
    using dispatch_frame_spawn(5) [OF d] by (simp add: requests_def)
  ultimately show ?thesis by simp
qed

lemma once_inv_spawn:
  assumes "once_inv n s" and "ds_fresh (cy_disp s) = length (ds_started (cy_disp s))" and "i < n"
    and "cy_threads s i = TFree" and "dispatch_frame C reg w frame (cy_disp s) = (Some tk, ds)"
  shows "once_inv n (s\<lparr>cy_disp := ds, cy_threads := (cy_threads s)(i := TRun (tk_ctx tk) (tk_prog tk) True)\<rparr>)"
    (is "once_inv n ?t")
  unfolding once_inv_def
proof
  fix ids
  have "answers_in ids (ws_accepted (cy_writer s)) + under_way_all n ids s + unanswered ids (cy_disp s)
      \<le> requests ids (ds_started (cy_disp s))" using assms(1) by (simp add: once_inv_def del: split_paired_All)
  with account_spawn [OF assms(2-5), of ids]
  show "answers_in ids (ws_accepted (cy_writer ?t)) + under_way_all n ids ?t + unanswered ids (cy_disp ?t)
      \<le> requests ids (ds_started (cy_disp ?t))" by simp
qed

lemma once_inv_step:
  assumes "client_step C reg w cap n s t" and "once_inv n s" and "link_inv s"
  shows "once_inv n t"
  using assms
proof (cases rule: client_step.cases)
  case (y_ignore frame ds)
  with dispatch_frame_none [OF y_ignore(2)] show ?thesis
    by (intro once_inv_cong [OF assms(2)]) (simp_all add: unanswered_def)
next
  case (y_spawn frame tk ds i)
  with once_inv_spawn [OF assms(2)] assms(3) show ?thesis by (simp add: link_inv_def)
next
  case (y_call i x st)
  with once_inv_call [OF assms(2,3)] show ?thesis by simp
next
  case (y_local i x)
  with local_step_keeps(3) [OF y_local(3)] show ?thesis by (intro once_inv_thread [OF assms(2), of i]) simp_all
next
  case (y_enqueue i f x)
  with resume_keeps(3,4) [OF y_enqueue(6)] show ?thesis by (intro once_inv_thread [OF assms(2), of i]) simp_all
next
  case (y_undo i x)
  with resume_keeps(3) [OF y_undo(4)] show ?thesis by (intro once_inv_thread [OF assms(2), of i]) simp_all
next
  case (y_writer v)
  with writer_only [OF y_writer(2)] show ?thesis by (intro once_inv_cong [OF assms(2)]) simp_all
next
  case (y_add i f)
  then show ?thesis
    by (intro once_inv_thread [OF assms(2), of i]) (simp_all, cases "cy_threads s i", simp_all)
next
  case (y_refused i f)
  then show ?thesis
    by (intro once_inv_thread [OF assms(2), of i]) (simp_all, cases "cy_threads s i", simp_all)
next
  case (y_clone j ctx p root i q)
  then show ?thesis by (intro once_inv_thread [OF assms(2), of i]) simp_all
next
  case (y_encode_fails i ctx op k root e)
  then show ?thesis by (intro once_inv_thread [OF assms(2), of i]) simp_all
next
  case (y_timeout i ctx op k root data)
  then show ?thesis by (intro once_inv_thread [OF assms(2), of i]) simp_all
next
  case (y_clear i ctx op k root data)
  then show ?thesis by (intro once_inv_thread [OF assms(2), of i]) simp_all
next
  case (y_emit i ev data)
  then show ?thesis by (intro once_inv_thread [OF assms(2), of i]) simp_all
next
  case (y_forget i ctx)
  then show ?thesis by (intro once_inv_thread [OF assms(2), of i]) (simp_all add: unanswered_def)
next
  case (y_release i)
  then show ?thesis by (intro once_inv_thread [OF assms(2), of i]) (simp_all add: unanswered_def)
qed

lemma client_inv_step:
  assumes "client_inv limit n s" and "client_step C reg w cap n s t"
  shows "client_inv limit n t"
  using permit_inv_step [OF assms(2)] link_inv_step [OF assms(2)] once_inv_step [OF assms(2)]
    frames_inv_step [OF assms(2)] assms(1) by (simp add: client_inv_def)

text \<open>A panic only ends a task.\<close>

lemma link_inv_panic:
  assumes "link_inv s" and "panic_step (cy_threads s i) = Some x"
  shows "link_inv (s\<lparr>cy_threads := (cy_threads s)(i := x)\<rparr>)"
  using assms(1) contexts_upd [of "cy_threads s" i x] panic_step_keeps(2) [OF assms(2)] by (auto simp: link_inv_def)

lemma client_inv_panic:
  assumes "client_inv limit n s" and "i < n" and "panic_step (cy_threads s i) = Some x"
  shows "client_inv limit n (s\<lparr>cy_threads := (cy_threads s)(i := x)\<rparr>)" (is "client_inv limit n ?t")
proof -
  note keeps = panic_step_keeps [OF assms(3)]
  have inv: "permit_inv limit n s" "link_inv s" "once_inv n s" "frames_inv s"
    using assms(1) by (simp_all add: client_inv_def)
  have "permit_inv limit n ?t" using inv(1) assms(2) keeps(1) by (simp add: permit_inv_def permit_holders_upd)
  moreover have "link_inv ?t" using link_inv_panic [OF inv(2) assms(3)] .
  moreover have "once_inv n ?t"
    using assms(2) keeps(3) by (intro once_inv_thread [OF inv(3), of i]) simp_all
  ultimately show ?thesis using inv(4) by (simp add: client_inv_def frames_inv_def)
qed

interpretation crash: invariant_system "\<lambda>s. s = client_init limit" "crash_step C reg w cap n"
  "client_inv limit n" for C reg w cap n limit
proof
  show "client_inv limit n s" if "s = client_init limit" for s :: "'a client_sys"
    using that
    by (simp add: client_init_def client_inv_def permit_inv_def permit_holders_def link_inv_def contexts_def
        once_inv_def under_way_all_def unanswered_def frames_inv_def sender_frames_def disp_init_def
        writer_init_def)
  show "client_inv limit n t" if "client_inv limit n s" and "crash_step C reg w cap n s t" for s t
    using that(2,1) by cases (auto intro: client_inv_step client_inv_panic)
qed

interpretation csys: invariant_system "\<lambda>s. s = client_init limit" "client_step C reg w cap n"
  "client_inv limit n" for C reg w cap n limit
  by unfold_locales (auto intro: crash.inv_init client_inv_step)

section \<open>An undisturbed operation\<close>

text \<open>An operation that passes its flag, finds room and is not disturbed is four steps of the client:
  its frame is accepted and the handler goes on with success, as \<open>do_op\<close> says of an accepted send.\<close>

lemma operation_steps:
  assumes "i < n" and "cy_threads s i = TRun ctx (HOp op k) root" and "ws_sender (cy_writer s) i = SIdle"
    and "writer_alive (cy_writer s)" and "length (ws_queue (cy_writer s)) < cap"
    and "ws_pending (cy_writer s) < wh_max_pending w" and "op_payload C op = Ok data"
    and "op_terminal op \<longrightarrow> \<not> has_responded ctx (ds_ctx (cy_disp s))"
  shows "\<exists>t. (client_step C reg w cap n)\<^sup>*\<^sup>* s t
    \<and> cy_threads t = (cy_threads s)(i := TRun ctx (k (Ok ())) root)
    \<and> cy_writer t = (cy_writer s)\<lparr>ws_pending := ws_pending (cy_writer s) + 1,
        ws_queue := ws_queue (cy_writer s) @ [ctx_frame ctx (op_flags ctx op) data],
        ws_accepted := ws_accepted (cy_writer s) @ [ctx_frame ctx (op_flags ctx op) data]\<rparr>
    \<and> ds_started (cy_disp t) = ds_started (cy_disp s)
    \<and> cs_responded (ds_ctx (cy_disp t)) (rc_responded ctx) = (op_terminal op \<or> has_responded ctx (ds_ctx (cy_disp s)))"
proof -
  let ?step = "client_step C reg w cap n" and ?f = "ctx_frame ctx (op_flags ctx op) data" and ?v = "cy_writer s"
  define st where "st = (if op_terminal op then snd (mark_responded ctx (ds_ctx (cy_disp s))) else ds_ctx (cy_disp s))"
  have call: "call_step (ds_ctx (cy_disp s)) (cy_threads s i) = Some (TMarked ctx op k root, st)"
    and st: "cs_responded st (rc_responded ctx) = (op_terminal op \<or> has_responded ctx (ds_ctx (cy_disp s)))"
    using assms(2,8) by (simp_all add: st_def mark_responded_def has_responded_def Let_def)
  define s1 where "s1 = s\<lparr>cy_disp := (cy_disp s)\<lparr>ds_ctx := st\<rparr>, cy_threads := (cy_threads s)(i := TMarked ctx op k root)\<rparr>"
  define s2 where "s2 = s1\<lparr>cy_threads := (cy_threads s1)(i := TSending ctx k root),
    cy_writer := ?v\<lparr>ws_sender := (ws_sender ?v)(i := SCleared ?f)\<rparr>\<rparr>"
  define s3 where "s3 = s2\<lparr>cy_writer := (cy_writer s2)
    \<lparr>ws_pending := ws_pending (cy_writer s2) + 1, ws_sender := (ws_sender (cy_writer s2))(i := SAdded ?f)\<rparr>\<rparr>"
  define s4 where "s4 = s3\<lparr>cy_threads := (cy_threads s3)(i := TRun ctx (k (Ok ())) root),
    cy_writer := (cy_writer s3)\<lparr>ws_sender := (ws_sender (cy_writer s3))(i := SIdle),
      ws_queue := ws_queue (cy_writer s3) @ [?f], ws_accepted := ws_accepted (cy_writer s3) @ [?f]\<rparr>\<rparr>"
  have "?step s s1" unfolding s1_def using assms(1) call by (rule y_call)
  moreover have "?step s1 s2"
    using y_clear [of i n s1 ctx op k root C data w] assms by (simp add: s1_def s2_def)
  moreover have "?step s2 s3"
    using y_add [of i n s2 ?f] assms(1) by (simp add: s2_def s3_def)
  moreover have "?step s3 s4"
    unfolding s4_def by (rule y_enqueue) (use assms in \<open>simp_all add: s1_def s2_def s3_def writer_alive_def\<close>)
  ultimately have "?step\<^sup>*\<^sup>* s s4" by (meson rtranclp.intros)
  moreover have "cy_threads s4 = (cy_threads s)(i := TRun ctx (k (Ok ())) root)"
    "cy_writer s4 = ?v\<lparr>ws_pending := ws_pending ?v + 1, ws_queue := ws_queue ?v @ [?f], ws_accepted := ws_accepted ?v @ [?f]\<rparr>"
    "ds_started (cy_disp s4) = ds_started (cy_disp s)" "ds_ctx (cy_disp s4) = st"
    using assms(3) by (simp_all add: s1_def s2_def s3_def s4_def fun_upd_idem)
  ultimately show ?thesis using st by blast
qed

section \<open>Properties\<close>

text \<open>The answer to a request for an unknown method.\<close>

abbreviation sample_answer :: OutboundFrame where
  "sample_answer \<equiv> OutboundFrame_new (Header_new 1 ERROR_RESPONSE 42 0) []"

lemma client_sample_run:
  "\<exists>s. (client_step sample_codec sample_reg sample_writer 8 2)\<^sup>*\<^sup>* (client_init 1) s
     \<and> cy_writer s = writer_init\<lparr>ws_pending := 1, ws_queue := [sample_answer], ws_accepted := [sample_answer]\<rparr>
     \<and> requests (1, 42) (ds_started (cy_disp s)) = 1"
proof -
  let ?step = "client_step sample_codec sample_reg sample_writer 8 2"
  obtain tk ds where tk: "dispatch_frame sample_codec sample_reg sample_writer sample_frame (disp_init 1) = (Some tk, ds)"
    and prog: "tk_prog tk = HDone (Err (HandlerNotFound 1))"
    using sample_dispatch(1,2) by blast
  note d = dispatch_frame_spawn [OF tk]
  let ?s1 = "(client_init 1)\<lparr>cy_disp := ds, cy_threads := (cy_threads (client_init 1))(0 := TRun (tk_ctx tk) (tk_prog tk) True)\<rparr>"
  let ?k = "\<lambda>_. HDone (Ok ())"
  let ?op = "SendError (ProcwireError_to_string (HandlerNotFound 1)) :: nat ctx_op"
  let ?s2 = "?s1\<lparr>cy_threads := (cy_threads ?s1)(0 := TRun (tk_ctx tk) (HOp ?op ?k) True)\<rparr>"
  have fresh: "\<not> has_responded (tk_ctx tk) (ds_ctx ds)"
    using d(1,3) by (simp add: has_responded_def flag_new_def)
  have "dispatch_frame sample_codec sample_reg sample_writer sample_frame (cy_disp (client_init 1 :: nat client_sys))
      = (Some tk, ds)" using tk by (simp add: client_init_def)
  then have "?step (client_init 1) ?s1" by (rule y_spawn) (simp_all add: client_init_def)
  moreover have "?step ?s1 ?s2" using fresh by (intro y_local [of 0]) (simp_all add: prog)
  moreover have "\<exists>t. ?step\<^sup>*\<^sup>* ?s2 t \<and> cy_threads t = (cy_threads ?s2)(0 := TRun (tk_ctx tk) (?k (Ok ())) True)
    \<and> cy_writer t = (cy_writer ?s2)\<lparr>ws_pending := ws_pending (cy_writer ?s2) + 1,
        ws_queue := ws_queue (cy_writer ?s2) @ [ctx_frame (tk_ctx tk) (op_flags (tk_ctx tk) ?op) []],
        ws_accepted := ws_accepted (cy_writer ?s2) @ [ctx_frame (tk_ctx tk) (op_flags (tk_ctx tk) ?op) []]\<rparr>
    \<and> ds_started (cy_disp t) = ds_started (cy_disp ?s2)
    \<and> cs_responded (ds_ctx (cy_disp t)) (rc_responded (tk_ctx tk))
        = (op_terminal ?op \<or> has_responded (tk_ctx tk) (ds_ctx (cy_disp ?s2)))"
    by (rule operation_steps)
      (use fresh in \<open>simp_all add: client_init_def writer_init_def writer_alive_def WriterHandle_new_def
        MsgPackCodec_encode_str_def sample_codec_def\<close>)
  moreover have "requests (1, 42) (ds_started ds) = 1"
    using d(5) by (simp add: requests_def disp_init_def Header_new_def)
  moreover have "cy_writer ?s2 = writer_init" by (simp add: client_init_def)
  moreover have "ctx_frame (tk_ctx tk) (op_flags (tk_ctx tk) ?op) [] = sample_answer"
    using d(1) by (simp add: ctx_frame_def error_flags_def get_response_type_by_id_def HandlerRegistry_new_def Header_new_def)
  ultimately obtain t where "?step (client_init 1) ?s1" "?step ?s1 ?s2" "?step\<^sup>*\<^sup>* ?s2 t"
    "cy_writer t = writer_init\<lparr>ws_pending := 1, ws_queue := [sample_answer], ws_accepted := [sample_answer]\<rparr>"
    "requests (1, 42) (ds_started (cy_disp t)) = 1" by (auto simp: writer_init_def)
  then show ?thesis by (meson converse_rtranclp_into_rtranclp)
qed

lemma client_sample_written:
  "\<exists>s. (client_step sample_codec sample_reg sample_writer 8 2)\<^sup>*\<^sup>* (client_init 1) s
     \<and> ws_written (cy_writer s) = [sample_answer] \<and> ws_accepted (cy_writer s) = [sample_answer]
     \<and> ws_wire (cy_writer s) = batch_bytes [sample_answer]"
proof -
  let ?step = "client_step sample_codec sample_reg sample_writer 8 2" and ?b = "batch_bytes [sample_answer]"
  from client_sample_run obtain s where s: "?step\<^sup>*\<^sup>* (client_init 1) s"
    "cy_writer s = writer_init\<lparr>ws_pending := 1, ws_queue := [sample_answer], ws_accepted := [sample_answer]\<rparr>" by blast
  define v1 where "v1 = (cy_writer s)\<lparr>ws_queue := [], ws_writer := WBatch [sample_answer], ws_partial := 0\<rparr>"
  define v2 where "v2 = v1\<lparr>ws_partial := length ?b, ws_wire := ws_wire v1 @ take (length ?b - ws_partial v1) (drop (ws_partial v1) ?b)\<rparr>"
  define v3 where "v3 = v2\<lparr>ws_writer := WWritten [sample_answer], ws_written := ws_written v2 @ [sample_answer]\<rparr>"
  have pos: "0 < length ?b" using outbound_bytes_nonempty [of sample_answer] by simp
  have "writer_step (wh_max_pending sample_writer) 8 0 (cy_writer s) v1"
    unfolding v1_def by (intro w_recv) (simp_all add: s(2) writer_init_def)
  moreover have "writer_step (wh_max_pending sample_writer) 8 0 v1 v2"
    unfolding v2_def using pos by (intro w_part) (simp_all add: v1_def)
  moreover have "writer_step (wh_max_pending sample_writer) 8 0 v2 v3"
    unfolding v3_def by (intro w_write) (simp_all add: v1_def v2_def)
  ultimately have "?step s (s\<lparr>cy_writer := v1\<rparr>)" "?step (s\<lparr>cy_writer := v1\<rparr>) (s\<lparr>cy_writer := v2\<rparr>)"
    "?step (s\<lparr>cy_writer := v2\<rparr>) (s\<lparr>cy_writer := v3\<rparr>)"
    using y_writer [of sample_writer 8 s v1] y_writer [of sample_writer 8 "s\<lparr>cy_writer := v1\<rparr>" v2]
      y_writer [of sample_writer 8 "s\<lparr>cy_writer := v2\<rparr>" v3] by simp_all
  with s(1) have "?step\<^sup>*\<^sup>* (client_init 1) (s\<lparr>cy_writer := v3\<rparr>)" by (meson rtranclp.rtrancl_into_rtrancl)
  moreover have "ws_written v3 = [sample_answer]" "ws_accepted v3 = [sample_answer]" "ws_wire v3 = ?b"
    by (simp_all add: v1_def v2_def v3_def s(2) writer_init_def)
  ultimately show ?thesis by force
qed

text \<open>C5. At most one answer per request even when a handler shares its context among tasks: under every
  interleaving of the atomic instructions of the dispatcher, of all handler tasks and of the tasks
  they give clones of their contexts to, any of which may panic, and of the writer task, the terminal frames for a pair of
  ids that the channel has accepted, those on their way and the requests whose flag is still clear
  are together no more than the requests with these ids; the channel accepts only events and
  responses with the ids of a started request; and permits and tasks that hold one add up.\<close>

theorem shared_contexts_answer_once:
  assumes "(crash_step C reg w cap n)\<^sup>*\<^sup>* (client_init limit) s"
  shows "answers_in ids (ws_accepted (cy_writer s)) + under_way_all n ids s + unanswered ids (cy_disp s)
      \<le> requests ids (ds_started (cy_disp s))
    \<and> (\<forall>f \<in> set (ws_accepted (cy_writer s)). channel_frame (ds_started (cy_disp s)) f)
    \<and> ds_permits (cy_disp s) + permit_holders n (cy_threads s) = limit"
  using crash.inv_reachable [OF refl assms]
  by (simp add: client_inv_def once_inv_def frames_inv_def sender_frames_def permit_inv_def del: split_paired_All)

theorem shared_contexts_answer_once_witness:
  "\<exists>s. (client_step sample_codec sample_reg sample_writer 8 2)\<^sup>*\<^sup>* (client_init 1) s
     \<and> length (ws_accepted (cy_writer s)) = 1 \<and> answers_in (1, 42) (ws_accepted (cy_writer s)) \<le> 1"
proof -
  from client_sample_run obtain s where
    s: "(client_step sample_codec sample_reg sample_writer 8 2)\<^sup>*\<^sup>* (client_init 1) s"
    "ws_accepted (cy_writer s) = [sample_answer]" "requests (1, 42) (ds_started (cy_disp s)) = 1" by auto
  with shared_contexts_answer_once [OF crash_run [OF s(1)], of "(1, 42)"] show ?thesis by auto
qed

text \<open>C6. The client keeps the writer's promises: every run of the client, seen from the channel, is a
  run of the senders and the writer task, so whatever the handlers do, panics included, the counter is exactly the
  number of frames in flight, it exceeds the maximum by less than the number of tasks, and what has
  been written is a prefix of what was accepted, with nothing lost while the writer task lives.\<close>

theorem client_refines_writer:
  assumes "(crash_step C reg w cap n)\<^sup>*\<^sup>* (client_init limit) s" and "unat (wh_max_pending w) + n < 2 ^ 64"
  shows "(writer_step (wh_max_pending w) cap n)\<^sup>*\<^sup>* writer_init (cy_writer s)
    \<and> unat (ws_pending (cy_writer s)) = counted_senders n (cy_writer s) + in_flight (cy_writer s)
    \<and> unat (ws_pending (cy_writer s)) \<le> unat (wh_max_pending w) - 1 + n
    \<and> (\<exists>rest. ws_accepted (cy_writer s) = ws_written (cy_writer s) @ rest)
    \<and> (writer_alive (cy_writer s) \<longrightarrow>
         ws_accepted (cy_writer s) = ws_written (cy_writer s) @ unwritten (cy_writer s))"
proof -
  have run: "(writer_step (wh_max_pending w) cap n)\<^sup>*\<^sup>* writer_init (cy_writer s)"
    using crash_steps_writer [OF assms(1)] by (simp add: client_init_def)
  then have "writer_inv (wh_max_pending w) n (cy_writer s)"
    using wsys.inv_reachable [OF _ run] assms(2) by blast
  with run show ?thesis by (simp add: writer_inv_def)
qed

theorem client_refines_writer_witness:
  "\<exists>s. (client_step sample_codec sample_reg sample_writer 8 2)\<^sup>*\<^sup>* (client_init 1) s
     \<and> length (ws_accepted (cy_writer s)) = 1 \<and> unat (ws_pending (cy_writer s)) \<le> 5"
proof -
  from client_sample_run obtain s where
    s: "(client_step sample_codec sample_reg sample_writer 8 2)\<^sup>*\<^sup>* (client_init 1) s"
    "ws_accepted (cy_writer s) = [sample_answer]" by auto
  have room: "unat (wh_max_pending sample_writer) + 2 < 2 ^ 64" by (simp add: WriterHandle_new_def)
  have "unat (ws_pending (cy_writer s)) \<le> unat (wh_max_pending sample_writer) - 1 + 2"
    using client_refines_writer [OF crash_run [OF s(1)] room] by blast
  then have "unat (ws_pending (cy_writer s)) \<le> 5" by (simp add: WriterHandle_new_def)
  with s show ?thesis by auto
qed

text \<open>A panic is never cleaned up: when user code panics in a dispatcher's task, the task gives its permit
  back and ends, but nothing is sent to the parent, not even an error, and the request stays in the
  map of active contexts.\<close>

theorem panic_leaks_context:
  assumes "i < n" and "cy_threads s i = TRun ctx p True" and "ds_active (cy_disp s) (rc_request_id ctx) = Some token"
  shows "\<exists>t. (crash_step C reg w cap n)\<^sup>*\<^sup>* s t \<and> cy_threads t = (cy_threads s)(i := TFree)
    \<and> ds_permits (cy_disp t) = ds_permits (cy_disp s) + 1 \<and> cy_writer t = cy_writer s
    \<and> ds_active (cy_disp t) (rc_request_id ctx) = Some token"
proof -
  let ?s = "s\<lparr>cy_threads := (cy_threads s)(i := TRelease)\<rparr>"
  let ?t = "?s\<lparr>cy_disp := (cy_disp ?s)\<lparr>ds_permits := ds_permits (cy_disp ?s) + 1\<rparr>,
    cy_threads := (cy_threads ?s)(i := TFree)\<rparr>"
  have "crash_step C reg w cap n s ?s" using assms(1,2) by (intro z_panic) simp_all
  moreover have "crash_step C reg w cap n ?s ?t" using assms(1) by (intro z_step y_release) simp_all
  ultimately have "(crash_step C reg w cap n)\<^sup>*\<^sup>* s ?t" by (meson rtranclp.intros)
  then show ?thesis using assms(3) by (intro exI [of _ ?t]) simp
qed

theorem panic_leaks_context_witness:
  "\<exists>s t. (crash_step sample_codec sample_reg sample_writer 8 2)\<^sup>*\<^sup>* (client_init 1) s
     \<and> (crash_step sample_codec sample_reg sample_writer 8 2)\<^sup>*\<^sup>* s t \<and> cy_threads t 0 = TFree
     \<and> ds_permits (cy_disp t) = 1 \<and> ds_active (cy_disp t) 42 \<noteq> None"
proof -
  let ?step = "crash_step sample_codec sample_reg sample_writer 8 2" and ?i = "client_init 1 :: nat client_sys"
  obtain tk ds where tk: "dispatch_frame sample_codec sample_reg sample_writer sample_frame (disp_init 1) = (Some tk, ds)"
    using sample_dispatch(1) by blast
  let ?s = "?i\<lparr>cy_disp := ds, cy_threads := (cy_threads ?i)(0 := TRun (tk_ctx tk) (tk_prog tk) True)\<rparr>"
  have "dispatch_frame sample_codec sample_reg sample_writer sample_frame (cy_disp ?i) = (Some tk, ds)"
    using tk by (simp add: client_init_def)
  then have "?step ?i ?s" by (intro z_step y_spawn) (simp_all add: client_init_def)
  then have run: "?step\<^sup>*\<^sup>* ?i ?s" by blast
  note d = dispatch_frame_cases(2) [OF tk]
  have ctx: "rc_request_id (tk_ctx tk) = 42" using d by (simp add: Header_new_def)
  have act: "ds_active (cy_disp ?s) (rc_request_id (tk_ctx tk)) = Some \<lparr>ac_token = ds_fresh (disp_init 1)\<rparr>"
    and out: "ds_permits (cy_disp ?s) = 0"
    using d by (simp_all add: disp_init_def)
  have at: "cy_threads ?s 0 = TRun (tk_ctx tk) (tk_prog tk) True" by simp
  from panic_leaks_context [OF _ at act, of 2 sample_codec sample_reg sample_writer 8] out ctx
  obtain t where "?step\<^sup>*\<^sup>* ?s t" "cy_threads t 0 = TFree" "ds_permits (cy_disp t) = 1" "ds_active (cy_disp t) 42 \<noteq> None" by auto
  with run show ?thesis by blast
qed

end
