(* ===== verification/Client_Progress.thy ===== *)
theory Client_Progress
  imports Client_System
begin

text \<open>
  The running client can always come to rest (\<open>src/client.rs\<close>, \<open>src/handler/context.rs\<close>, \<open>src/writer.rs\<close>):
  while the writer task lives, no combination of full channel, exhausted counter, half-finished sends
  and waiting tasks is a deadlock, and when the tasks are done nothing is left behind, neither a
  permit nor an entry in the map of active contexts nor an unwritten frame. User code does not panic
  here: a panic leaves its entry in the map (\<open>panic_leaks_context\<close>).
\<close>

section \<open>Tasks and what they hold\<close>

text \<open>A task is in \<open>send\<close> exactly when its sender is not idle, and the map of active contexts has no
  entry whose request no task is going to remove.\<close>

fun sending :: "'v thread \<Rightarrow> bool" where
  "sending (TSending ctx k root) = True"
| "sending TEmit = True"
| "sending _ = False"

fun registered :: "'v thread \<Rightarrow> u32 option" where
  "registered (TRun ctx p root) = (if root then Some (rc_request_id ctx) else None)"
| "registered (TMarked ctx op k root) = (if root then Some (rc_request_id ctx) else None)"
| "registered (TSending ctx k root) = (if root then Some (rc_request_id ctx) else None)"
| "registered (TForget ctx) = Some (rc_request_id ctx)"
| "registered _ = None"

definition registered_ids :: "(nat \<Rightarrow> 'v thread) \<Rightarrow> u32 set" where
  "registered_ids ts = {rid. \<exists>i. registered (ts i) = Some rid}"

definition in_step :: "'v client_sys \<Rightarrow> bool" where
  "in_step s \<longleftrightarrow> (\<forall>i. ws_sender (cy_writer s) i = SIdle \<longleftrightarrow> \<not> sending (cy_threads s i))"

definition task_inv :: "nat \<Rightarrow> 'v client_sys \<Rightarrow> bool" where
  "task_inv n s \<longleftrightarrow> in_step s \<and> (\<forall>i \<ge> n. cy_threads s i = TFree)
     \<and> dom (ds_active (cy_disp s)) \<subseteq> registered_ids (cy_threads s)"

lemma registered_ids_upd:
  "registered x = registered (ts i) \<Longrightarrow> registered_ids (ts(i := x)) = registered_ids ts"
  by (auto simp: registered_ids_def)

lemma registered_ids_more: "registered (ts i) = None \<Longrightarrow> registered_ids ts \<subseteq> registered_ids (ts(i := x))"
  by (force simp: registered_ids_def)

lemma registered_ids_less:
  "registered_ids ts - set_option (registered (ts i)) \<subseteq> registered_ids (ts(i := x))"
proof
  fix rid assume "rid \<in> registered_ids ts - set_option (registered (ts i))"
  then obtain j where "registered (ts j) = Some rid" "j \<noteq> i" by (auto simp: registered_ids_def)
  then show "rid \<in> registered_ids (ts(i := x))" by (auto simp: registered_ids_def intro!: exI [of _ j])
qed

lemma call_step_task:
  assumes "call_step st t = Some (t', st')"
  shows "sending t' = sending t" and "registered t' = registered t" and "cs_cancelled st' = cs_cancelled st"
  using assms
  by (cases "(st, t)" rule: call_step.cases; auto simp: mark_responded_def Let_def split: if_splits)+

lemma local_step_task:
  assumes "local_step st t = Some t'"
  shows "\<not> sending t" and "\<not> sending t'" and "registered t' = registered t"
  using assms by (cases "(st, t)" rule: local_step.cases; auto split: if_splits option.splits)+

lemma resume_task:
  assumes "resume t r = Some t'"
  shows "sending t" and "\<not> sending t'" and "registered t' = registered t"
  using assms by (cases "(t, r)" rule: resume.cases; auto)+

lemma writer_step_own:
  assumes "writer_step m cap 0 v v'"
  shows "ws_sender v' = ws_sender v"
  using assms by cases auto

lemma in_step_busy: "in_step s \<Longrightarrow> ws_sender (cy_writer s) i \<noteq> SIdle \<Longrightarrow> sending (cy_threads s i)"
  by (auto simp: in_step_def)

lemma task_inv_step:
  assumes "task_inv n s" and "client_step C reg w cap n s t"
  shows "task_inv n t"
  using assms(2)
proof (cases rule: client_step.cases)
  case (y_ignore frame ds)
  with assms(1) dispatch_frame_cases(1) [OF y_ignore(2)] show ?thesis by (simp add: task_inv_def in_step_def)
next
  case (y_spawn frame tk ds i)
  note d = dispatch_frame_cases(2) [OF y_spawn(2)]
  have "rc_request_id (tk_ctx tk) \<in> registered_ids ((cy_threads s)(i := TRun (tk_ctx tk) (tk_prog tk) True))"
    by (auto simp: registered_ids_def intro!: exI [of _ i])
  with assms(1) y_spawn d registered_ids_more [of "cy_threads s" i "TRun (tk_ctx tk) (tk_prog tk) True"]
  show ?thesis by (auto simp: task_inv_def in_step_def)
next
  case (y_clone j ctx p root i q)
  with assms(1) show ?thesis by (auto simp: task_inv_def in_step_def registered_ids_upd)
next
  case (y_call i x st)
  with assms(1) call_step_task [OF y_call(3)] show ?thesis by (auto simp: task_inv_def in_step_def registered_ids_upd)
next
  case (y_local i x)
  with assms(1) local_step_task [OF y_local(3)] show ?thesis by (auto simp: task_inv_def in_step_def registered_ids_upd)
next
  case (y_add i f)
  with assms(1) in_step_busy [of s i] show ?thesis by (auto simp: task_inv_def in_step_def)
next
  case (y_refused i f)
  with assms(1) in_step_busy [of s i] show ?thesis by (auto simp: task_inv_def in_step_def)
next
  case (y_enqueue i f x)
  with assms(1) resume_task [OF y_enqueue(6)] show ?thesis by (auto simp: task_inv_def in_step_def registered_ids_upd)
next
  case (y_undo i x)
  with assms(1) resume_task [OF y_undo(4)] show ?thesis by (auto simp: task_inv_def in_step_def registered_ids_upd)
next
  case (y_forget i ctx)
  with assms(1) registered_ids_less [of "cy_threads s" i TRelease] show ?thesis
    by (auto simp: task_inv_def in_step_def)
next
  case (y_writer v)
  with assms(1) writer_step_own [OF y_writer(2)] show ?thesis by (simp add: task_inv_def in_step_def)
qed (use assms(1) in \<open>auto simp: task_inv_def in_step_def registered_ids_upd\<close>)

interpretation tsys: invariant_system "\<lambda>s. s = client_init limit" "client_step C reg w cap n" "task_inv n"
  for C reg w cap n limit
proof
  show "task_inv n s" if "s = client_init limit" for s :: "'a client_sys"
    using that by (simp add: client_init_def task_inv_def in_step_def disp_init_def writer_init_def)
  show "task_inv n t" if "task_inv n s" and "client_step C reg w cap n s t" for s t
    using that by (rule task_inv_step)
qed

section \<open>The writer at rest\<close>

definition settled :: "writer_sys \<Rightarrow> bool" where
  "settled v \<longleftrightarrow> ws_writer v = WWait \<and> ws_queue v = [] \<and> (\<forall>i. ws_sender v i = SIdle)"

lemma writer_steps_client:
  "(writer_step (wh_max_pending w) cap 0)\<^sup>*\<^sup>* (cy_writer s) v \<Longrightarrow>
   (client_step C reg w cap n)\<^sup>*\<^sup>* s (s\<lparr>cy_writer := v\<rparr>)"
proof (induction rule: rtranclp_induct)
  case (step v v')
  from y_writer [of w cap "s\<lparr>cy_writer := v\<rparr>" v' C reg n] step show ?case by (auto intro: rtranclp.rtrancl_into_rtrancl)
qed simp

lemma client_drains:
  assumes "writer_alive (cy_writer s)"
  shows "\<exists>v. (client_step C reg w cap n)\<^sup>*\<^sup>* s (s\<lparr>cy_writer := v\<rparr>) \<and> ws_writer v = WWait \<and> ws_queue v = []
    \<and> ws_sender v = ws_sender (cy_writer s) \<and> ws_accepted v = ws_accepted (cy_writer s)"
  using writer_drains [OF assms, of "wh_max_pending w" cap 0] writer_steps_client by metis

text \<open>A send under way is brought to its end, and the frames are written.\<close>

lemma added_finishes:
  assumes "i < n" and "ws_sender (cy_writer s) i \<in> {SAdded f, SRefused}" and "sending (cy_threads s i)"
    and "writer_alive (cy_writer s)" and "0 < cap"
  shows "\<exists>t r pre. (client_step C reg w cap n)\<^sup>*\<^sup>* s t \<and> writer_alive (cy_writer t)
    \<and> resume (cy_threads s i) r = Some (cy_threads t i) \<and> cy_threads t = (cy_threads s)(i := cy_threads t i)
    \<and> cy_disp t = cy_disp s \<and> ws_sender (cy_writer t) = (ws_sender (cy_writer s))(i := SIdle)
    \<and> ws_accepted (cy_writer t) = ws_accepted (cy_writer s) @ pre"
proof -
  obtain v where v: "(client_step C reg w cap n)\<^sup>*\<^sup>* s (s\<lparr>cy_writer := v\<rparr>)" "ws_writer v = WWait" "ws_queue v = []"
    "ws_sender v = ws_sender (cy_writer s)" "ws_accepted v = ws_accepted (cy_writer s)"
    using client_drains [OF assms(4), of C reg w cap n] by blast
  have resumes: "\<exists>x. resume (cy_threads s i) r = Some x" for r using assms(3) by (cases "cy_threads s i") auto
  show ?thesis
  proof (cases "ws_sender (cy_writer s) i = SRefused")
    case True
    obtain x where x: "resume (cy_threads s i) (Err ConnectionClosed) = Some x" using resumes by blast
    let ?t = "s\<lparr>cy_threads := (cy_threads s)(i := x),
      cy_writer := v\<lparr>ws_pending := ws_pending v - 1, ws_sender := (ws_sender v)(i := SIdle)\<rparr>\<rparr>"
    have "client_step C reg w cap n (s\<lparr>cy_writer := v\<rparr>) ?t"
      using y_undo [of i n "s\<lparr>cy_writer := v\<rparr>" x C reg w cap] assms(1) True v(4) x by simp
    with v(1) have "(client_step C reg w cap n)\<^sup>*\<^sup>* s ?t" by simp
    with v x show ?thesis by (intro exI [of _ ?t] exI [of _ "Err ConnectionClosed"] exI [of _ "[]"]) (simp add: writer_alive_def)
  next
    case False
    obtain x where x: "resume (cy_threads s i) (Ok ()) = Some x" using resumes by blast
    let ?t = "s\<lparr>cy_threads := (cy_threads s)(i := x),
      cy_writer := v\<lparr>ws_sender := (ws_sender v)(i := SIdle), ws_queue := ws_queue v @ [f], ws_accepted := ws_accepted v @ [f]\<rparr>\<rparr>"
    have "client_step C reg w cap n (s\<lparr>cy_writer := v\<rparr>) ?t"
      using y_enqueue [of i n "s\<lparr>cy_writer := v\<rparr>" f cap x C reg w] assms(1,2,5) False v(2-4) x by (simp add: writer_alive_def)
    with v(1) have "(client_step C reg w cap n)\<^sup>*\<^sup>* s ?t" by simp
    with v x show ?thesis by (intro exI [of _ ?t] exI [of _ "Ok ()"] exI [of _ "[f]"]) (simp add: writer_alive_def)
  qed
qed

lemma send_finishes:
  assumes "i < n" and "ws_sender (cy_writer s) i \<noteq> SIdle" and "sending (cy_threads s i)"
    and "writer_alive (cy_writer s)" and "0 < cap"
  shows "\<exists>t r pre. (client_step C reg w cap n)\<^sup>*\<^sup>* s t \<and> writer_alive (cy_writer t)
    \<and> resume (cy_threads s i) r = Some (cy_threads t i) \<and> cy_threads t = (cy_threads s)(i := cy_threads t i)
    \<and> cy_disp t = cy_disp s \<and> ws_sender (cy_writer t) = (ws_sender (cy_writer s))(i := SIdle)
    \<and> ws_accepted (cy_writer t) = ws_accepted (cy_writer s) @ pre"
proof (cases "ws_sender (cy_writer s) i")
  case (SCleared f)
  let ?s = "s\<lparr>cy_writer := (cy_writer s)\<lparr>ws_pending := ws_pending (cy_writer s) + 1,
    ws_sender := (ws_sender (cy_writer s))(i := SAdded f)\<rparr>\<rparr>"
  have "client_step C reg w cap n s ?s" using y_add [OF assms(1) SCleared] .
  moreover obtain t r pre where "(client_step C reg w cap n)\<^sup>*\<^sup>* ?s t" "writer_alive (cy_writer t)"
    "resume (cy_threads s i) r = Some (cy_threads t i)" "cy_threads t = (cy_threads s)(i := cy_threads t i)"
    "cy_disp t = cy_disp s" "ws_sender (cy_writer t) = (ws_sender (cy_writer s))(i := SIdle)"
    "ws_accepted (cy_writer t) = ws_accepted (cy_writer s) @ pre"
    using added_finishes [of i n ?s f cap C reg w] assms by (auto simp: writer_alive_def)
  ultimately show ?thesis by (meson converse_rtranclp_into_rtranclp)
next
  case (SAdded f)
  with added_finishes [of i n s f cap C reg w] assms show ?thesis by simp
next
  case SRefused
  with added_finishes [of i n s _ cap C reg w] assms show ?thesis by simp
qed (use assms in simp)

section \<open>All tasks to their end\<close>

text \<open>A task that waits for the abort of its request can go on only if it has been aborted.\<close>

fun task_ok :: "ctx_state \<Rightarrow> 'v thread \<Rightarrow> bool" where
  "task_ok st (TRun ctx p root) = (awaits_abort p \<longrightarrow> is_cancelled ctx st)"
| "task_ok st (TMarked ctx op k root) = (\<forall>r. awaits_abort (k r) \<longrightarrow> is_cancelled ctx st)"
| "task_ok st (TSending ctx k root) = (\<forall>r. awaits_abort (k r) \<longrightarrow> is_cancelled ctx st)"
| "task_ok st _ = True"

lemma task_ok_resume: "task_ok st t \<Longrightarrow> resume t r = Some t' \<Longrightarrow> task_ok st t'"
  by (cases "(t, r)" rule: resume.cases) auto

lemma task_ok_cong: "cs_cancelled st' = cs_cancelled st \<Longrightarrow> task_ok st' t = task_ok st t"
  by (cases t) (simp_all add: is_cancelled_def)

text \<open>What a stretch of a run does that ends with the writer at rest.\<close>

definition advance ::
  "'v msgpack \<Rightarrow> 'v HandlerRegistry \<Rightarrow> WriterHandle \<Rightarrow> nat \<Rightarrow> nat \<Rightarrow> 'v client_sys \<Rightarrow> 'v client_sys \<Rightarrow> bool" where
  "advance C reg w cap n s t \<longleftrightarrow> (client_step C reg w cap n)\<^sup>*\<^sup>* s t \<and> settled (cy_writer t)
     \<and> cs_cancelled (ds_ctx (cy_disp t)) = cs_cancelled (ds_ctx (cy_disp s))
     \<and> (\<exists>pre. ws_accepted (cy_writer t) = ws_accepted (cy_writer s) @ pre)"

lemma advance_trans [trans]:
  "advance C reg w cap n s t \<Longrightarrow> advance C reg w cap n t u \<Longrightarrow> advance C reg w cap n s u"
  by (auto simp: advance_def)

lemma advance_settled: "advance C reg w cap n s t \<Longrightarrow> settled (cy_writer t)"
  by (simp add: advance_def)

lemma advance_step:
  assumes "client_step C reg w cap n s t" and "settled (cy_writer s)" and "cy_writer t = cy_writer s"
    and "cs_cancelled (ds_ctx (cy_disp t)) = cs_cancelled (ds_ctx (cy_disp s))"
  shows "advance C reg w cap n s t"
  using assms by (auto simp: advance_def)

lemma sends_finish:
  assumes "0 < cap" and "k \<le> n" and "in_step s" and "writer_alive (cy_writer s)"
    and "\<forall>i. task_ok (ds_ctx (cy_disp s)) (cy_threads s i)"
  shows "\<exists>t pre. (client_step C reg w cap n)\<^sup>*\<^sup>* s t \<and> in_step t \<and> writer_alive (cy_writer t)
    \<and> cy_disp t = cy_disp s \<and> (\<forall>i. task_ok (ds_ctx (cy_disp s)) (cy_threads t i))
    \<and> (\<forall>i < k. ws_sender (cy_writer t) i = SIdle) \<and> ws_accepted (cy_writer t) = ws_accepted (cy_writer s) @ pre"
  using assms(2)
proof (induction k)
  case 0
  with assms(3-5) show ?case by auto
next
  case (Suc k)
  then obtain t pre where t: "(client_step C reg w cap n)\<^sup>*\<^sup>* s t" "in_step t" "writer_alive (cy_writer t)"
    "cy_disp t = cy_disp s" "\<forall>i. task_ok (ds_ctx (cy_disp s)) (cy_threads t i)"
    "\<forall>i < k. ws_sender (cy_writer t) i = SIdle" "ws_accepted (cy_writer t) = ws_accepted (cy_writer s) @ pre" by auto
  show ?case
  proof (cases "ws_sender (cy_writer t) k = SIdle")
    case True
    with t show ?thesis by (auto simp: less_Suc_eq)
  next
    case False
    obtain u r pre' where u: "(client_step C reg w cap n)\<^sup>*\<^sup>* t u" "writer_alive (cy_writer u)"
      "resume (cy_threads t k) r = Some (cy_threads u k)" "cy_threads u = (cy_threads t)(k := cy_threads u k)"
      "cy_disp u = cy_disp t" "ws_sender (cy_writer u) = (ws_sender (cy_writer t))(k := SIdle)"
      "ws_accepted (cy_writer u) = ws_accepted (cy_writer t) @ pre'"
      using send_finishes [OF _ False in_step_busy [OF t(2) False] t(3) assms(1), of n C reg w] Suc.prems by auto
    define x where "x = cy_threads u k"
    have x: "resume (cy_threads t k) r = Some x" and threads: "cy_threads u = (cy_threads t)(k := x)"
      using u(3,4) by (simp_all add: x_def)
    have "in_step u" using t(2) u(6) resume_task(2) [OF x] by (auto simp: threads in_step_def)
    moreover have "\<forall>i. task_ok (ds_ctx (cy_disp s)) (cy_threads u i)"
      using t(5) task_ok_resume [OF _ x] by (simp add: threads)
    ultimately show ?thesis using t(1,4,6,7) u(1,2,5-7) by (intro exI [of _ u]) (auto simp: less_Suc_eq)
  qed
qed

lemma marked_ends:
  assumes "settled (cy_writer s)" and "ws_pending (cy_writer s) < wh_max_pending w" and "0 < cap" and "i < n"
    and "cy_threads s i = TMarked ctx op k root"
  shows "\<exists>t r. advance C reg w cap n s t \<and> cy_threads t = (cy_threads s)(i := TRun ctx (k r) root)"
proof (cases "op_payload C op")
  case (Inl e)
  have "client_step C reg w cap n s (s\<lparr>cy_threads := (cy_threads s)(i := TRun ctx (k (Err e)) root)\<rparr>)"
    using assms(4,5) Inl by (rule y_encode_fails)
  from advance_step [OF this assms(1)] show ?thesis
    by (intro exI [of _ "s\<lparr>cy_threads := (cy_threads s)(i := TRun ctx (k (Err e)) root)\<rparr>"] exI [of _ "Err e"]) simp
next
  case (Inr data)
  let ?s = "s\<lparr>cy_threads := (cy_threads s)(i := TSending ctx k root), cy_writer := (cy_writer s)
    \<lparr>ws_sender := (ws_sender (cy_writer s))(i := SCleared (ctx_frame ctx (op_flags ctx op) data))\<rparr>\<rparr>"
  have step: "client_step C reg w cap n s ?s"
    using assms(1,2) by (intro y_clear [OF assms(4,5) Inr]) (simp_all add: settled_def)
  obtain t r pre where t: "(client_step C reg w cap n)\<^sup>*\<^sup>* ?s t" "writer_alive (cy_writer t)"
    "resume (cy_threads ?s i) r = Some (cy_threads t i)" "cy_threads t = (cy_threads ?s)(i := cy_threads t i)"
    "cy_disp t = cy_disp s" "ws_sender (cy_writer t) = (ws_sender (cy_writer ?s))(i := SIdle)"
    "ws_accepted (cy_writer t) = ws_accepted (cy_writer s) @ pre"
    using send_finishes [of i n ?s cap C reg w] assms(1,3,4) by (auto simp: writer_alive_def settled_def)
  obtain v where v: "(client_step C reg w cap n)\<^sup>*\<^sup>* t (t\<lparr>cy_writer := v\<rparr>)" "ws_writer v = WWait" "ws_queue v = []"
    "ws_sender v = ws_sender (cy_writer t)" "ws_accepted v = ws_accepted (cy_writer t)"
    using client_drains [OF t(2), of C reg w cap n] by blast
  have "(client_step C reg w cap n)\<^sup>*\<^sup>* s (t\<lparr>cy_writer := v\<rparr>)"
    using step t(1) v(1) by (meson converse_rtranclp_into_rtranclp rtranclp_trans)
  with v t assms(1) have "advance C reg w cap n s (t\<lparr>cy_writer := v\<rparr>)"
    by (simp add: advance_def settled_def)
  moreover have x: "cy_threads t i = TRun ctx (k r) root" using t(3) by simp
  have "cy_threads (t\<lparr>cy_writer := v\<rparr>) = (cy_threads s)(i := TRun ctx (k r) root)"
    using t(4) [unfolded x] by simp
  ultimately show ?thesis by blast
qed

text \<open>From now on states that the client can reach: the counter of a settled writer is 0, everything
  accepted has been written, and nothing else is on the wire.\<close>

lemma settled_writer:
  assumes "(writer_step m cap n)\<^sup>*\<^sup>* writer_init v" and "unat m + n < 2 ^ 64" and "settled v"
  shows "ws_pending v = 0" and "ws_written v = ws_accepted v" and "ws_wire v = batch_bytes (ws_accepted v)"
proof -
  have "writer_inv m n v" "wire_inv v" using wire.inv_reachable [OF _ assms(1)] assms(2) by simp_all
  with assms(3) show "ws_pending v = 0" and "ws_written v = ws_accepted v" and "ws_wire v = batch_bytes (ws_accepted v)"
    by (simp_all add: settled_def writer_inv_defs wire_inv_def counted_senders_def unat_eq_0)
qed

lemma settled_room:
  assumes "(client_step C reg w cap n)\<^sup>*\<^sup>* (client_init limit) s" and "unat (wh_max_pending w) + n < 2 ^ 64"
    and "settled (cy_writer s)"
  shows "ws_pending (cy_writer s) = 0" and "ws_written (cy_writer s) = ws_accepted (cy_writer s)"
proof -
  have "(writer_step (wh_max_pending w) cap n)\<^sup>*\<^sup>* writer_init (cy_writer s)"
    using client_steps_writer [OF assms(1)] by (simp add: client_init_def)
  from settled_writer [OF this assms(2,3)]
  show "ws_pending (cy_writer s) = 0" and "ws_written (cy_writer s) = ws_accepted (cy_writer s)" by blast+
qed

lemma advance_reachable:
  "(client_step C reg w cap n)\<^sup>*\<^sup>* (client_init limit) s \<Longrightarrow> advance C reg w cap n s t \<Longrightarrow>
   (client_step C reg w cap n)\<^sup>*\<^sup>* (client_init limit) t"
  by (auto simp: advance_def)

lemma advance_local:
  assumes "settled (cy_writer s)" and "i < n" and "local_step (ds_ctx (cy_disp s)) (cy_threads s i) = Some x"
  shows "\<exists>t. advance C reg w cap n s t \<and> cy_threads t = (cy_threads s)(i := x)"
  using advance_step [OF y_local [OF assms(2,3)] assms(1)]
  by (intro exI [of _ "s\<lparr>cy_threads := (cy_threads s)(i := x)\<rparr>"]) simp

lemma op_ends:
  assumes "settled (cy_writer s)" and "ws_pending (cy_writer s) < wh_max_pending w" and "0 < cap" and "i < n"
    and "cy_threads s i = TRun ctx (HOp op k) root"
  shows "\<exists>t r. advance C reg w cap n s t \<and> cy_threads t = (cy_threads s)(i := TRun ctx (k r) root)"
proof -
  obtain x st where x: "call_step (ds_ctx (cy_disp s)) (cy_threads s i) = Some (x, st)"
    using that [OF trans [OF _ arg_cong [of _ _ Some, OF surjective_pairing]]] assms(5) by simp
  let ?s = "s\<lparr>cy_disp := (cy_disp s)\<lparr>ds_ctx := st\<rparr>, cy_threads := (cy_threads s)(i := x)\<rparr>"
  have adv: "advance C reg w cap n s ?s"
    using advance_step [OF y_call [OF assms(4) x] assms(1)] call_step_task(3) [OF x] by simp
  consider "x = TMarked ctx op k root" | r where "x = TRun ctx (k r) root"
    using x [unfolded assms(5)] by (rule call_step_cases) auto
  then show ?thesis
  proof cases
    case 1
    then obtain t r where "advance C reg w cap n ?s t" "cy_threads t = (cy_threads s)(i := TRun ctx (k r) root)"
      using marked_ends [of ?s w cap i n ctx op k root C reg] assms(1-4) by auto
    with advance_trans [OF adv] show ?thesis by blast
  next
    case (2 r)
    with adv show ?thesis by (intro exI [of _ ?s] exI [of _ r]) simp
  qed
qed

lemma advance_then:
  assumes "advance C reg w cap n s t" and "cy_threads t = (cy_threads s)(i := x)"
    and "settled (cy_writer t) \<Longrightarrow> is_cancelled ctx (ds_ctx (cy_disp t)) = is_cancelled ctx (ds_ctx (cy_disp s)) \<Longrightarrow>
      \<exists>u r. advance C reg w cap n t u \<and> cy_threads u = (cy_threads t)(i := y r)"
  shows "\<exists>u r. advance C reg w cap n s u \<and> cy_threads u = (cy_threads s)(i := y r)"
proof -
  have "settled (cy_writer t)" "is_cancelled ctx (ds_ctx (cy_disp t)) = is_cancelled ctx (ds_ctx (cy_disp s))"
    using assms(1) by (simp_all add: advance_def is_cancelled_def)
  with assms(3) obtain u r where "advance C reg w cap n t u" "cy_threads u = (cy_threads t)(i := y r)" by blast
  with assms(2) advance_trans [OF assms(1)] show ?thesis by auto
qed

lemma program_ends:
  assumes "unat (wh_max_pending w) + n < 2 ^ 64" and "0 < wh_max_pending w" and "0 < cap" and "i < n"
  shows "(client_step C reg w cap n)\<^sup>*\<^sup>* (client_init limit) s \<Longrightarrow> settled (cy_writer s) \<Longrightarrow>
    cy_threads s i = TRun ctx p root \<Longrightarrow> awaits_abort p \<longrightarrow> is_cancelled ctx (ds_ctx (cy_disp s)) \<Longrightarrow>
    \<exists>t r. advance C reg w cap n s t \<and> cy_threads t = (cy_threads s)(i := TRun ctx (HDone r) root)"
proof (induction p arbitrary: s)
  case (HDone r)
  then show ?case by (intro exI [of _ s] exI [of _ r]) (simp add: advance_def fun_upd_idem)
next
  case (HOp op k)
  obtain t r where t: "advance C reg w cap n s t" "cy_threads t = (cy_threads s)(i := TRun ctx (k r) root)"
    using op_ends [OF HOp.prems(2) _ assms(3,4) HOp.prems(3), of w C reg]
      settled_room(1) [OF HOp.prems(1) assms(1) HOp.prems(2)] assms(2) by auto
  show ?case
    by (rule advance_then [OF t], rule HOp.IH [OF rangeI advance_reachable [OF HOp.prems(1) t(1)]])
      (use t(2) HOp.prems(4) in auto)
next
  case (HIsCancelled k)
  let ?b = "is_cancelled ctx (ds_ctx (cy_disp s))"
  obtain t where t: "advance C reg w cap n s t" "cy_threads t = (cy_threads s)(i := TRun ctx (k ?b) root)"
    using advance_local [OF HIsCancelled.prems(2) assms(4)] HIsCancelled.prems(3) by fastforce
  show ?case
    by (rule advance_then [OF t], rule HIsCancelled.IH [OF rangeI advance_reachable [OF HIsCancelled.prems(1) t(1)]])
      (use t(2) HIsCancelled.prems(4) in auto)
next
  case (HCancelled p)
  obtain t where t: "advance C reg w cap n s t" "cy_threads t = (cy_threads s)(i := TRun ctx p root)"
    using advance_local [OF HCancelled.prems(2) assms(4), of "TRun ctx p root" C reg w cap] HCancelled.prems(3,4)
    by (auto simp: cancelled_def)
  show ?case
    by (rule advance_then [OF t], rule HCancelled.IH [OF advance_reachable [OF HCancelled.prems(1) t(1)]])
      (use t(2) HCancelled.prems(4) in auto)
next
  case (HHasResponded k)
  let ?b = "has_responded ctx (ds_ctx (cy_disp s))"
  obtain t where t: "advance C reg w cap n s t" "cy_threads t = (cy_threads s)(i := TRun ctx (k ?b) root)"
    using advance_local [OF HHasResponded.prems(2) assms(4)] HHasResponded.prems(3) by fastforce
  show ?case
    by (rule advance_then [OF t], rule HHasResponded.IH [OF rangeI advance_reachable [OF HHasResponded.prems(1) t(1)]])
      (use t(2) HHasResponded.prems(4) in auto)
qed

text \<open>The end of a task: its error report, its entry in the map, its permit.\<close>

lemma release_ends:
  assumes "settled (cy_writer s)" and "i < n" and "cy_threads s i = TRelease \<or> (\<exists>ctx. cy_threads s i = TForget ctx)"
  shows "\<exists>t. advance C reg w cap n s t \<and> cy_threads t = (cy_threads s)(i := TFree)"
proof -
  have release: "\<exists>t. advance C reg w cap n u t \<and> cy_threads t = (cy_threads u)(i := TFree)"
    if "settled (cy_writer u)" "cy_threads u i = TRelease" for u
    using advance_step [OF y_release [OF assms(2) that(2)] that(1)]
    by (intro exI [of _ "u\<lparr>cy_disp := (cy_disp u)\<lparr>ds_permits := ds_permits (cy_disp u) + 1\<rparr>,
         cy_threads := (cy_threads u)(i := TFree)\<rparr>"]) simp
  show ?thesis
  proof (cases "cy_threads s i = TRelease")
    case True
    with release assms(1) show ?thesis by blast
  next
    case False
    with assms(3) obtain ctx where ctx: "cy_threads s i = TForget ctx" by blast
    let ?s = "s\<lparr>cy_disp := (cy_disp s)\<lparr>ds_active := (ds_active (cy_disp s))(rc_request_id ctx := None)\<rparr>,
      cy_threads := (cy_threads s)(i := TRelease)\<rparr>"
    have "advance C reg w cap n s ?s" using advance_step [OF y_forget [OF assms(2) ctx] assms(1)] by simp
    from advance_trans [OF this] release [of ?s] assms(1) show ?thesis by fastforce
  qed
qed

lemma done_ends:
  assumes "settled (cy_writer s)" and "ws_pending (cy_writer s) < wh_max_pending w" and "0 < cap" and "i < n"
    and "cy_threads s i = TRun ctx (HDone r) root"
  shows "\<exists>t. advance C reg w cap n s t \<and> cy_threads t = (cy_threads s)(i := TFree)"
proof -
  let ?st = "ds_ctx (cy_disp s)"
  have forget: "\<exists>t. advance C reg w cap n u t \<and> cy_threads t = (cy_threads u)(i := TFree)"
    if "settled (cy_writer u)" "local_step (ds_ctx (cy_disp u)) (cy_threads u i) = Some (TForget ctx)" for u
  proof -
    from advance_local [OF that(1) assms(4) that(2), of C reg w cap]
    obtain v where v: "advance C reg w cap n u v" "cy_threads v = (cy_threads u)(i := TForget ctx)" by blast
    from release_ends [OF advance_settled [OF v(1)] assms(4), of C reg w cap] v advance_trans [OF v(1)]
    show ?thesis by fastforce
  qed
  consider (clone) "\<not> root" | (ended) "local_step ?st (cy_threads s i) = Some (TForget ctx)"
    | (report) e where "root" "r = Inl e" "\<not> has_responded ctx ?st"
    using assms(5) by (cases root; cases r; cases "has_responded ctx ?st") simp_all
  then show ?thesis
  proof cases
    case clone
    with advance_local [OF assms(1,4), of TFree C reg w cap] assms(5) show ?thesis by simp
  next
    case ended
    with forget assms(1) show ?thesis by blast
  next
    case (report e)
    let ?p = "HOp (SendError (ProcwireError_to_string e)) (\<lambda>_. HDone (Ok ()))"
    have one: "local_step ?st (cy_threads s i) = Some (TRun ctx ?p True)" using report assms(5) by simp
    let ?s = "s\<lparr>cy_threads := (cy_threads s)(i := TRun ctx ?p True)\<rparr>"
    have adv: "advance C reg w cap n s ?s" using advance_step [OF y_local [OF assms(4) one] assms(1)] by simp
    obtain t where t: "advance C reg w cap n ?s t" "cy_threads t = (cy_threads s)(i := TRun ctx (HDone (Ok ())) True)"
      using op_ends [of ?s w cap i n ctx _ "\<lambda>_. HDone (Ok ())" True C reg] assms(1-4) by auto
    from advance_settled [OF t(1)] forget [of t] t(2) obtain u where "advance C reg w cap n t u" "cy_threads u = (cy_threads s)(i := TFree)" by auto
    with advance_trans [OF adv advance_trans [OF t(1)]] show ?thesis by blast
  qed
qed

text \<open>One task after the other.\<close>

lemma task_ends:
  assumes "unat (wh_max_pending w) + n < 2 ^ 64" and "0 < wh_max_pending w" and "0 < cap" and "i < n"
    and "(client_step C reg w cap n)\<^sup>*\<^sup>* (client_init limit) s" and "settled (cy_writer s)"
    and "task_ok (ds_ctx (cy_disp s)) (cy_threads s i)"
  shows "\<exists>t. advance C reg w cap n s t \<and> cy_threads t = (cy_threads s)(i := TFree)"
proof -
  have run: "\<exists>t. advance C reg w cap n u t \<and> cy_threads t = (cy_threads u)(i := TFree)"
    if "advance C reg w cap n s u" "cy_threads u i = TRun ctx p root" "task_ok (ds_ctx (cy_disp u)) (cy_threads u i)"
    for u ctx p root
  proof -
    note reach = advance_reachable [OF assms(5) that(1)]
    from program_ends [OF assms(1-4) reach advance_settled [OF that(1)] that(2)] that(2,3)
    obtain t r where t: "advance C reg w cap n u t" "cy_threads t = (cy_threads u)(i := TRun ctx (HDone r) root)" by auto
    note set = advance_settled [OF t(1)]
    have "ws_pending (cy_writer t) < wh_max_pending w"
      using settled_room(1) [OF advance_reachable [OF reach t(1)] assms(1) set] assms(2) by simp
    from done_ends [OF set this assms(3,4), of ctx r root C reg] t(2)
    obtain v where "advance C reg w cap n t v" "cy_threads v = (cy_threads t)(i := TFree)" by auto
    with t(2) advance_trans [OF t(1)] show ?thesis by auto
  qed
  have refl: "advance C reg w cap n s s" using assms(6) by (simp add: advance_def)
  have room: "ws_pending (cy_writer s) < wh_max_pending w" using settled_room(1) [OF assms(5,1,6)] assms(2) by simp
  have idle: "\<not> sending (cy_threads s i)"
    using tsys.inv_reachable [OF HOL.refl assms(5)] assms(6) by (auto simp: task_inv_def in_step_def settled_def)
  show ?thesis
  proof (cases "cy_threads s i")
    case TFree
    with refl show ?thesis by (intro exI [of _ s]) (simp add: fun_upd_idem)
  next
    case (TRun ctx p root)
    with run [OF refl] assms(7) show ?thesis by blast
  next
    case (TMarked ctx op k root)
    obtain t r where t: "advance C reg w cap n s t" "cy_threads t = (cy_threads s)(i := TRun ctx (k r) root)"
      using marked_ends [OF assms(6) room assms(3,4) TMarked] by blast
    have "task_ok (ds_ctx (cy_disp t)) (cy_threads t i)"
      using assms(7) TMarked t by (auto simp: advance_def is_cancelled_def)
    with run [OF t(1), of ctx "k r" root] t(2) advance_trans [OF t(1)] show ?thesis by auto
  qed (use idle release_ends [OF assms(6,4), of C reg w cap] in auto)
qed

lemma tasks_end:
  assumes "unat (wh_max_pending w) + n < 2 ^ 64" and "0 < wh_max_pending w" and "0 < cap" and "k \<le> n"
    and "(client_step C reg w cap n)\<^sup>*\<^sup>* (client_init limit) s" and "settled (cy_writer s)"
    and "\<forall>i. task_ok (ds_ctx (cy_disp s)) (cy_threads s i)"
  shows "\<exists>t. advance C reg w cap n s t \<and> (\<forall>i. task_ok (ds_ctx (cy_disp t)) (cy_threads t i))
    \<and> (\<forall>i < k. cy_threads t i = TFree)"
  using assms(4)
proof (induction k)
  case 0
  with assms(6,7) show ?case by (intro exI [of _ s]) (simp add: advance_def)
next
  case (Suc k)
  then obtain t where t: "advance C reg w cap n s t" "\<forall>i. task_ok (ds_ctx (cy_disp t)) (cy_threads t i)"
    "\<forall>i < k. cy_threads t i = TFree" by auto
  have "k < n" using Suc.prems by simp
  from task_ends [OF assms(1-3) this advance_reachable [OF assms(5) t(1)] advance_settled [OF t(1)]] t(2)
  obtain u where u: "advance C reg w cap n t u" "cy_threads u = (cy_threads t)(k := TFree)" by blast
  have "\<forall>i. task_ok (ds_ctx (cy_disp u)) (cy_threads u i)"
    using t(2) u task_ok_cong [of "ds_ctx (cy_disp u)" "ds_ctx (cy_disp t)"] by (auto simp: advance_def)
  with u(2) t(3) advance_trans [OF t(1) u(1)] show ?case by (intro exI [of _ u]) (auto simp: less_Suc_eq)
qed

section \<open>Property\<close>

text \<open>A client with one request, whose task has just been started.\<close>

lemma client_sample_started:
  "\<exists>s ctx p. (client_step sample_codec sample_reg sample_writer 8 2)\<^sup>*\<^sup>* (client_init 1) s
     \<and> cy_threads s 0 = TRun ctx p True \<and> writer_alive (cy_writer s)
     \<and> (\<forall>i. task_ok (ds_ctx (cy_disp s)) (cy_threads s i))"
proof -
  let ?step = "client_step sample_codec sample_reg sample_writer 8 2" and ?i = "client_init 1 :: nat client_sys"
  obtain tk ds where tk: "dispatch_frame sample_codec sample_reg sample_writer sample_frame (disp_init 1) = (Some tk, ds)"
    and prog: "tk_prog tk = HDone (Err (HandlerNotFound 1))"
    using sample_dispatch(1,2) by blast
  let ?s = "?i\<lparr>cy_disp := ds, cy_threads := (cy_threads ?i)(0 := TRun (tk_ctx tk) (tk_prog tk) True)\<rparr>"
  have "dispatch_frame sample_codec sample_reg sample_writer sample_frame (cy_disp ?i) = (Some tk, ds)"
    using tk by (simp add: client_init_def)
  then have "?step ?i ?s" by (rule y_spawn) (simp_all add: client_init_def)
  then have "?step\<^sup>*\<^sup>* ?i ?s" by blast
  moreover have "writer_alive (cy_writer ?s)" by (simp add: client_init_def writer_init_def writer_alive_def)
  moreover have "\<forall>i. task_ok (ds_ctx (cy_disp ?s)) (cy_threads ?s i)" by (simp add: client_init_def prog)
  moreover have "cy_threads ?s 0 = TRun (tk_ctx tk) (tk_prog tk) True" by simp
  ultimately show ?thesis by blast
qed

text \<open>C7. The client can always come to rest: from every state it can reach in which the writer task
  lives and no task waits for an abort that has not come, whatever the tasks, the counter and the
  channel are at, it can go on until every task has ended; then all permits are back, no active
  context is left, the counter is 0, and every frame that was ever accepted has been written, those
  accepted before still in their place.\<close>

theorem client_comes_to_rest:
  assumes "(client_step C reg w cap n)\<^sup>*\<^sup>* (client_init limit) s" and "unat (wh_max_pending w) + n < 2 ^ 64"
    and "0 < wh_max_pending w" and "0 < cap" and "writer_alive (cy_writer s)"
    and "\<forall>i. task_ok (ds_ctx (cy_disp s)) (cy_threads s i)"
  shows "\<exists>t. (client_step C reg w cap n)\<^sup>*\<^sup>* s t \<and> (\<forall>i. cy_threads t i = TFree)
    \<and> ds_permits (cy_disp t) = limit \<and> ds_active (cy_disp t) = Map.empty
    \<and> ws_pending (cy_writer t) = 0 \<and> ws_written (cy_writer t) = ws_accepted (cy_writer t)
    \<and> (\<exists>pre. ws_accepted (cy_writer t) = ws_accepted (cy_writer s) @ pre)"
proof -
  let ?step = "client_step C reg w cap n"
  have "in_step s" using tsys.inv_reachable [OF refl assms(1)] by (simp add: task_inv_def)
  from sends_finish [OF assms(4) order_refl this assms(5,6)] obtain t pre where t: "?step\<^sup>*\<^sup>* s t" "in_step t"
    "writer_alive (cy_writer t)" "cy_disp t = cy_disp s" "\<forall>i. task_ok (ds_ctx (cy_disp s)) (cy_threads t i)"
    "\<forall>i < n. ws_sender (cy_writer t) i = SIdle" "ws_accepted (cy_writer t) = ws_accepted (cy_writer s) @ pre" by blast
  from client_drains [OF t(3)] obtain v where v: "?step\<^sup>*\<^sup>* t (t\<lparr>cy_writer := v\<rparr>)" "ws_writer v = WWait" "ws_queue v = []"
    "ws_sender v = ws_sender (cy_writer t)" "ws_accepted v = ws_accepted (cy_writer t)" by blast
  let ?u = "t\<lparr>cy_writer := v\<rparr>"
  have reach: "?step\<^sup>*\<^sup>* (client_init limit) ?u" using assms(1) t(1) v(1) by (meson rtranclp_trans)
  have "ws_sender v i = SIdle" for i
    using t(6) v(4) tsys.inv_reachable [OF refl reach] by (cases "i < n") (auto simp: task_inv_def in_step_def)
  then have "settled (cy_writer ?u)" using v by (simp add: settled_def)
  from tasks_end [OF assms(2-4) order_refl reach this] t(4,5) obtain x where x: "advance C reg w cap n ?u x"
    and free: "\<forall>i < n. cy_threads x i = TFree" by auto
  note rx = advance_reachable [OF reach x]
  have inv: "task_inv n x" using tsys.inv_reachable [OF refl rx] .
  with free have all: "cy_threads x i = TFree" for i by (cases "i < n") (auto simp: task_inv_def)
  with inv have "ds_active (cy_disp x) = Map.empty" by (simp add: task_inv_def registered_ids_def)
  moreover have "ds_permits (cy_disp x) = limit"
    using csys.inv_reachable [OF refl rx] all by (simp add: client_inv_def permit_inv_def permit_holders_def)
  moreover have "?step\<^sup>*\<^sup>* s x" using t(1) v(1) x by (auto simp: advance_def)
  moreover have "\<exists>pre. ws_accepted (cy_writer x) = ws_accepted (cy_writer s) @ pre"
    using x t(7) v(5) by (auto simp: advance_def)
  ultimately show ?thesis using all settled_room [OF rx assms(2) advance_settled [OF x]] by blast
qed

theorem client_comes_to_rest_witness:
  "\<exists>s t ctx p. (client_step sample_codec sample_reg sample_writer 8 2)\<^sup>*\<^sup>* (client_init 1) s
     \<and> cy_threads s 0 = TRun ctx p True \<and> (client_step sample_codec sample_reg sample_writer 8 2)\<^sup>*\<^sup>* s t
     \<and> (\<forall>i. cy_threads t i = TFree) \<and> ds_permits (cy_disp t) = 1"
proof -
  obtain s ctx p where s: "(client_step sample_codec sample_reg sample_writer 8 2)\<^sup>*\<^sup>* (client_init 1) s"
    and run: "cy_threads s 0 = TRun ctx p True" and alive: "writer_alive (cy_writer s)"
    and ok: "\<forall>i. task_ok (ds_ctx (cy_disp s)) (cy_threads s i)" using client_sample_started by blast
  have room: "unat (wh_max_pending sample_writer) + 2 < 2 ^ 64" "0 < wh_max_pending sample_writer"
    by (simp_all add: WriterHandle_new_def)
  from client_comes_to_rest [OF s room _ alive ok] s run show ?thesis by auto
qed

end
