(* ===== verification/Client_Termination.thy ===== *)
theory Client_Termination
  imports Client_Progress "HOL-Library.Multiset"
begin

text \<open>
  Left to itself the running client comes to rest under every schedule (\<open>src/client.rs\<close>,
  \<open>src/handler/context.rs\<close>, \<open>src/writer.rs\<close>): without new frames, aborts, clones or events no run of its
  tasks and its writer task goes on for ever, even if writes fail or sends time out, and a state in
  which nothing can move is one in which every task has ended or waits for the abort of its request.
  As in \<open>Client_Progress\<close>, user code does not panic.
\<close>

section \<open>How a task moves\<close>

text \<open>A task and where its send is, moving on its own; what the others do to it is arbitrary.\<close>

inductive task_moves :: "'v thread \<times> sender_loc \<Rightarrow> 'v thread \<times> sender_loc \<Rightarrow> bool" where
  m_mark: "task_moves (TRun ctx (HOp op k) root, l) (TMarked ctx op k root, l)"
| m_rejected: "task_moves (TRun ctx (HOp op k) root, l) (TRun ctx (k r) root, l)"
| m_is_cancelled: "task_moves (TRun ctx (HIsCancelled kb) root, l) (TRun ctx (kb b) root, l)"
| m_has_responded: "task_moves (TRun ctx (HHasResponded kb) root, l) (TRun ctx (kb b) root, l)"
| m_cancelled: "task_moves (TRun ctx (HCancelled p) root, l) (TRun ctx p root, l)"
| m_clone_ends: "task_moves (TRun ctx (HDone r) False, l) (TFree, l)"
| m_handler_ends: "task_moves (TRun ctx (HDone r) True, l) (TForget ctx, l)"
| m_report: "task_moves (TRun ctx (HDone (Inl e)) True, l)
    (TRun ctx (HOp (SendError m) (\<lambda>_. HDone (Ok ()))) True, l)"
| m_gives_up: "task_moves (TMarked ctx op k root, l) (TRun ctx (k r) root, l)"
| m_clear: "task_moves (TMarked ctx op k root, l) (TSending ctx k root, SCleared f)"
| m_add: "sending t \<Longrightarrow> task_moves (t, SCleared f) (t, SAdded f)"
| m_enqueue: "resume t r = Some t' \<Longrightarrow> task_moves (t, SAdded f) (t', SIdle)"
| m_refuse: "sending t \<Longrightarrow> task_moves (t, SAdded f) (t, SRefused)"
| m_undo: "resume t r = Some t' \<Longrightarrow> task_moves (t, SRefused) (t', SIdle)"
| m_forget: "task_moves (TForget ctx, l) (TRelease, l)"
| m_release: "task_moves (TRelease, l) (TFree, l)"

inductive_cases task_moves_freeE: "task_moves (TFree, l) y"
inductive_cases task_moves_runE: "task_moves (TRun ctx p root, l) y"
inductive_cases task_moves_markedE: "task_moves (TMarked ctx op k root, l) y"
inductive_cases task_moves_sendingE: "task_moves (TSending ctx k root, l) y"
inductive_cases task_moves_emitE: "task_moves (TEmit, l) y"
inductive_cases task_moves_forgetE: "task_moves (TForget ctx, l) y"
inductive_cases task_moves_releaseE: "task_moves (TRelease, l) y"

abbreviation ends :: "'v thread \<times> sender_loc \<Rightarrow> bool" where
  "ends \<equiv> Wellfounded.accp (\<lambda>y x. task_moves x y)"

lemma ends_free: "ends (TFree, l)"
  by (rule accpI) (auto elim: task_moves_freeE)

lemma ends_release: "ends (TRelease, l)"
  by (rule accpI) (auto elim!: task_moves_releaseE intro: ends_free)

lemma ends_forget: "ends (TForget ctx, l)"
  by (rule accpI) (auto elim!: task_moves_forgetE intro: ends_release)

lemma ends_emit: "ends (TEmit, l)"
proof -
  have idle: "ends (TEmit, SIdle)" by (rule accpI) (auto elim: task_moves_emitE)
  have refused: "ends (TEmit, SRefused)" by (rule accpI) (auto elim!: task_moves_emitE intro: ends_free)
  have added: "ends (TEmit, SAdded f)" for f
    by (rule accpI) (auto elim!: task_moves_emitE intro: ends_free refused)
  have "ends (TEmit, SCleared f)" for f by (rule accpI) (auto elim!: task_moves_emitE intro: added)
  with idle refused added show ?thesis by (cases l) auto
qed

lemma ends_sending:
  assumes "\<And>r. ends (TRun ctx (k r) root, SIdle)"
  shows "ends (TSending ctx k root, l)"
proof -
  have idle: "ends (TSending ctx k root, SIdle)" by (rule accpI) (auto elim: task_moves_sendingE)
  have refused: "ends (TSending ctx k root, SRefused)" by (rule accpI) (auto elim!: task_moves_sendingE intro: assms)
  have added: "ends (TSending ctx k root, SAdded f)" for f
    by (rule accpI) (auto elim!: task_moves_sendingE intro: assms refused)
  have "ends (TSending ctx k root, SCleared f)" for f by (rule accpI) (auto elim!: task_moves_sendingE intro: added)
  with idle refused added show ?thesis by (cases l) auto
qed

lemma ends_marked:
  assumes "\<And>r l. ends (TRun ctx (k r) root, l)"
  shows "ends (TMarked ctx op k root, l)"
  by (rule accpI) (auto elim!: task_moves_markedE intro: assms ends_sending)

lemma ends_op:
  assumes "\<And>r l. ends (TRun ctx (k r) root, l)"
  shows "ends (TRun ctx (HOp op k) root, l)"
  by (rule accpI) (auto elim!: task_moves_runE intro: assms ends_marked)

lemma ends_done: "ends (TRun ctx (HDone r) root, l)"
proof -
  have ok: "ends (TRun ctx (HDone (Inr x)) root, l)" for root x l
    by (rule accpI) (auto elim!: task_moves_runE intro: ends_free ends_forget)
  have report: "ends (TRun ctx (HOp (SendError m) (\<lambda>_. HDone (Inr ()))) True, l)" for m l
    by (rule ends_op) (rule ok)
  show ?thesis by (rule accpI) (auto elim!: task_moves_runE intro: ends_free ends_forget report)
qed

lemma ends_run: "ends (TRun ctx p root, l)"
proof (induction p arbitrary: l)
  case (HOp op k)
  show ?case by (rule ends_op) (rule HOp.IH, rule rangeI)
next
  case (HIsCancelled k)
  show ?case by (rule accpI, erule task_moves_runE) (simp_all add: HIsCancelled.IH)
next
  case (HHasResponded k)
  show ?case by (rule accpI, erule task_moves_runE) (simp_all add: HHasResponded.IH)
next
  case (HCancelled p)
  show ?case by (rule accpI, erule task_moves_runE) (simp_all add: HCancelled.IH)
qed (rule ends_done)

lemma task_moves_ends: "ends x"
  by (cases x, rename_tac t l, case_tac t)
    (auto intro: ends_free ends_run ends_marked ends_sending ends_forget ends_release ends_emit)

lemma wf_task_moves: "wf {(y, x). task_moves x y}"
proof -
  have "wfP (\<lambda>y x. task_moves x y)" by (rule accp_wfpI) (simp add: task_moves_ends)
  then show ?thesis by (simp add: wfp_def)
qed

lemma task_moves_irrefl: "\<not> task_moves x x"
  using wf_not_refl [OF wf_task_moves, of x] by simp

section \<open>Steps without input\<close>

text \<open>A step that takes nothing from outside: it starts no task and no event, and it aborts nothing.\<close>

definition work_step ::
  "'v msgpack \<Rightarrow> 'v HandlerRegistry \<Rightarrow> WriterHandle \<Rightarrow> nat \<Rightarrow> nat \<Rightarrow> 'v client_sys \<Rightarrow> 'v client_sys \<Rightarrow> bool" where
  "work_step C reg w cap n s t \<longleftrightarrow> client_step C reg w cap n s t \<and> t \<noteq> s
     \<and> (\<forall>i. cy_threads s i = TFree \<longrightarrow> cy_threads t i = TFree)
     \<and> cs_cancelled (ds_ctx (cy_disp t)) = cs_cancelled (ds_ctx (cy_disp s))"

definition position :: "'v client_sys \<Rightarrow> nat \<Rightarrow> 'v thread \<times> sender_loc" where
  "position s i = (cy_threads s i, ws_sender (cy_writer s) i)"

lemma dispatch_frame_idle:
  assumes "dispatch_frame C reg w frame ds = (None, ds')" and "cs_cancelled (ds_ctx ds') = cs_cancelled (ds_ctx ds)"
  shows "ds' = ds"
  using assms
  by (auto simp: dispatch_frame_def Let_def token_cancel_def split: if_splits option.splits prod.splits
      intro!: disp_state.equality ctx_state.equality)

lemma call_step_moves:
  "call_step st t = Some (t', st') \<Longrightarrow> task_moves (t, l) (t', l)"
  by (erule call_step_cases) (auto intro: m_mark m_rejected)

lemma local_step_moves:
  "local_step st t = Some t' \<Longrightarrow> task_moves (t, l) (t', l)"
  by (cases "(st, t)" rule: local_step.cases)
    (auto split: if_splits option.splits
      intro: m_is_cancelled m_has_responded m_cancelled m_clone_ends m_handler_ends m_report)

text \<open>Such a step moves one task, or it is a step of the writer task.\<close>

definition one_moves :: "nat \<Rightarrow> 'v client_sys \<Rightarrow> 'v client_sys \<Rightarrow> bool" where
  "one_moves n s t \<longleftrightarrow> (\<exists>i < n. task_moves (position s i) (position t i) \<and> (\<forall>j. j \<noteq> i \<longrightarrow> position t j = position s j))"

lemma one_movesI:
  "i < n \<Longrightarrow> task_moves (position s i) (position t i) \<Longrightarrow> (\<And>j. j \<noteq> i \<Longrightarrow> position t j = position s j) \<Longrightarrow>
   one_moves n s t"
  by (auto simp: one_moves_def)

lemma work_step_cases:
  assumes "work_step C reg w cap n s t" and "in_step s"
  shows "one_moves n s t
    \<or> position t = position s \<and> writer_step (wh_max_pending w) cap 0 (cy_writer s) (cy_writer t)"
proof -
  have step: "client_step C reg w cap n s t" and neq: "t \<noteq> s"
    and can: "cs_cancelled (ds_ctx (cy_disp t)) = cs_cancelled (ds_ctx (cy_disp s))"
    using assms(1) by (auto simp: work_step_def)
  have free: "cy_threads t i = TFree" if "cy_threads s i = TFree" for i
    using assms(1) that by (auto simp: work_step_def)
  note moves = one_movesI [of _ n s t]
  from step show ?thesis
  proof (cases rule: client_step.cases)
    case (y_ignore frame ds)
    with dispatch_frame_idle [OF y_ignore(2)] can neq show ?thesis by simp
  next
    case (y_spawn frame tk ds i)
    with free [of i] show ?thesis by simp
  next
    case (y_clone j ctx p root i q)
    with free [of i] show ?thesis by simp
  next
    case (y_emit i ev data)
    with free [of i] show ?thesis by simp
  next
    case (y_call i x st)
    with call_step_moves [OF y_call(3)] show ?thesis by (intro disjI1 moves [of i]) (auto simp: position_def)
  next
    case (y_local i x)
    with local_step_moves [OF y_local(3)] show ?thesis by (intro disjI1 moves [of i]) (auto simp: position_def)
  next
    case (y_encode_fails i ctx op k root e)
    then show ?thesis by (intro disjI1 moves [of i]) (auto intro: m_gives_up simp: position_def)
  next
    case (y_timeout i ctx op k root data)
    then show ?thesis by (intro disjI1 moves [of i]) (auto intro: m_gives_up simp: position_def)
  next
    case (y_clear i ctx op k root data)
    then show ?thesis by (intro disjI1 moves [of i]) (auto intro: m_clear simp: position_def)
  next
    case (y_add i f)
    with in_step_busy [OF assms(2), of i] show ?thesis by (intro disjI1 moves [of i]) (auto intro: m_add simp: position_def)
  next
    case (y_enqueue i f x)
    then show ?thesis by (intro disjI1 moves [of i]) (auto intro: m_enqueue simp: position_def)
  next
    case (y_refused i f)
    with in_step_busy [OF assms(2), of i] show ?thesis by (intro disjI1 moves [of i]) (auto intro: m_refuse simp: position_def)
  next
    case (y_undo i x)
    then show ?thesis by (intro disjI1 moves [of i]) (auto intro: m_undo simp: position_def)
  next
    case (y_writer v)
    with writer_step_own [OF y_writer(2)] show ?thesis by (simp add: position_def fun_eq_iff)
  next
    case (y_forget i ctx)
    then show ?thesis by (intro disjI1 moves [of i]) (auto intro: m_forget simp: position_def)
  next
    case (y_release i)
    then show ?thesis by (intro disjI1 moves [of i]) (auto intro: m_release simp: position_def)
  qed
qed

section \<open>Termination\<close>

text \<open>What the writer task still has to do: the bytes of its batch, and for every frame in the channel its
  bytes and three steps.\<close>

fun writer_work :: "nat \<Rightarrow> writer_loc \<Rightarrow> nat" where
  "writer_work k (WBatch b) = length (batch_bytes b) - k + 2"
| "writer_work k (WWritten b) = 1"
| "writer_work k _ = 0"

definition backlog :: "writer_sys \<Rightarrow> nat" where
  "backlog v = (\<Sum>f\<leftarrow>ws_queue v. length (outbound_bytes f) + 3) + writer_work (ws_partial v) (ws_writer v)"

lemma backlog_less: "writer_step m cap 0 v v' \<Longrightarrow> backlog v' < backlog v"
  by (cases rule: writer_step.cases) (auto simp: backlog_def)

definition positions :: "nat \<Rightarrow> 'v client_sys \<Rightarrow> ('v thread \<times> sender_loc) multiset" where
  "positions n s = image_mset (position s) (mset_set {..<n})"

lemma positions_less:
  assumes "one_moves n s t"
  shows "(positions n t, positions n s) \<in> mult {(y, x). task_moves x y}"
proof -
  from assms obtain i where i: "i < n" "task_moves (position s i) (position t i)"
    and others: "\<forall>j. j \<noteq> i \<longrightarrow> position t j = position s j" by (auto simp: one_moves_def)
  let ?rest = "mset_set ({..<n} - {i})"
  have all: "mset_set {..<n} = add_mset i ?rest" using i(1) by (intro mset_set.remove) simp_all
  have "image_mset (position t) ?rest = image_mset (position s) ?rest"
    using others by (intro image_mset_cong) auto
  with all have "positions n t = image_mset (position s) ?rest + {#position t i#}"
    and "positions n s = image_mset (position s) ?rest + {#position s i#}"
    by (simp_all add: positions_def)
  with i(2) one_step_implies_mult [of "{#position s i#}" "{#position t i#}" "{(y, x). task_moves x y}"]
  show ?thesis by simp
qed

definition work_order :: "nat \<Rightarrow> ('v client_sys \<times> 'v client_sys) set" where
  "work_order n = inv_image (mult {(y, x). task_moves x y} <*lex*> less_than) (\<lambda>s. (positions n s, backlog (cy_writer s)))"

lemma wf_work_order: "wf (work_order n)"
  by (simp add: work_order_def wf_mult wf_task_moves wf_lex_prod)

lemma work_step_less:
  assumes "work_step C reg w cap n s t" and "in_step s"
  shows "(t, s) \<in> work_order n"
  using work_step_cases [OF assms]
proof
  assume "one_moves n s t"
  from positions_less [OF this] show ?thesis by (simp add: work_order_def)
next
  assume "position t = position s \<and> writer_step (wh_max_pending w) cap 0 (cy_writer s) (cy_writer t)"
  with backlog_less show ?thesis by (auto simp: work_order_def positions_def)
qed

lemma work_reachable:
  assumes "(client_step C reg w cap n)\<^sup>*\<^sup>* s t" and "work_step C reg w cap n t u"
  shows "(client_step C reg w cap n)\<^sup>*\<^sup>* s u"
  using assms by (auto simp: work_step_def)

lemma no_endless_work:
  assumes "(client_step C reg w cap n)\<^sup>*\<^sup>* (client_init limit) s"
  shows "\<nexists>run. run 0 = s \<and> (\<forall>k. work_step C reg w cap n (run k) (run (Suc k)))"
proof
  assume "\<exists>run. run 0 = s \<and> (\<forall>k. work_step C reg w cap n (run k) (run (Suc k)))"
  then obtain run where run: "run 0 = s" "\<forall>k. work_step C reg w cap n (run k) (run (Suc k))" by blast
  have reach: "(client_step C reg w cap n)\<^sup>*\<^sup>* (client_init limit) (run k)" for k
    using assms run by (induction k) (auto intro: work_reachable)
  have "in_step (run k)" for k using tsys.inv_reachable [OF refl reach [of k]] by (simp add: task_inv_def)
  with work_step_less run(2) have "\<forall>k. (run (Suc k), run k) \<in> work_order n" by blast
  with wf_work_order [of n] show False unfolding wf_iff_no_infinite_down_chain by blast
qed

section \<open>Where nothing moves\<close>

fun waits :: "ctx_state \<Rightarrow> 'v thread \<Rightarrow> bool" where
  "waits st (TRun ctx (HCancelled p) root) = (\<not> is_cancelled ctx st)"
| "waits st _ = False"

definition at_rest ::
  "'v msgpack \<Rightarrow> 'v HandlerRegistry \<Rightarrow> WriterHandle \<Rightarrow> nat \<Rightarrow> nat \<Rightarrow> 'v client_sys \<Rightarrow> bool" where
  "at_rest C reg w cap n s \<longleftrightarrow> (\<nexists>t. work_step C reg w cap n s t)"

text \<open>A step that moves one task that is not free is work.\<close>

lemma task_work:
  assumes "client_step C reg w cap n s t" and "task_moves (position s i) (position t i)"
    and "cy_threads s i \<noteq> TFree" and "\<And>j. j \<noteq> i \<Longrightarrow> cy_threads t j = cy_threads s j"
    and "cs_cancelled (ds_ctx (cy_disp t)) = cs_cancelled (ds_ctx (cy_disp s))"
  shows "work_step C reg w cap n s t"
proof -
  have "t \<noteq> s" using assms(2) task_moves_irrefl by metis
  moreover have "cy_threads t j = TFree" if "cy_threads s j = TFree" for j
    using assms(3,4) that by (cases "j = i") auto
  ultimately show ?thesis using assms(1,5) by (simp add: work_step_def)
qed

lemma writer_works:
  assumes "writer_step (wh_max_pending w) cap 0 (cy_writer s) v" and "v \<noteq> cy_writer s"
  shows "work_step C reg w cap n s (s\<lparr>cy_writer := v\<rparr>)"
proof -
  have "s\<lparr>cy_writer := v\<rparr> \<noteq> s"
  proof
    assume "s\<lparr>cy_writer := v\<rparr> = s"
    from arg_cong [OF this, of cy_writer] assms(2) show False by simp
  qed
  with y_writer [OF assms(1)] show ?thesis by (simp add: work_step_def)
qed

lemma rest_writer:
  assumes "at_rest C reg w cap n s"
  shows "writer_alive (cy_writer s) \<Longrightarrow> ws_writer (cy_writer s) = WWait \<and> ws_queue (cy_writer s) = []"
proof -
  let ?v = "cy_writer s"
  have stuck: "ws_writer v = ws_writer ?v \<and> ws_partial v = ws_partial ?v"
    if "writer_step (wh_max_pending w) cap 0 ?v v" for v
    using writer_works [OF that] assms by (auto simp: at_rest_def)
  have no_batch: "ws_writer ?v \<noteq> WBatch b" for b
  proof
    assume b: "ws_writer ?v = WBatch b"
    show False using stuck [OF w_write [OF b]] stuck [OF w_part [OF b, of "length (batch_bytes b)"]] b
      by (cases "ws_partial ?v < length (batch_bytes b)") auto
  qed
  have no_written: "ws_writer ?v \<noteq> WWritten b" for b
    using stuck [OF w_release] by auto
  have "ws_queue ?v = []" if "ws_writer ?v = WWait"
    using stuck [OF w_recv [OF that]] that by (cases "ws_queue ?v") auto
  with no_batch no_written show "writer_alive ?v \<Longrightarrow> ws_writer ?v = WWait \<and> ws_queue ?v = []"
    by (cases "ws_writer ?v") (auto simp: writer_alive_def)
qed

lemma rest_senders:
  assumes "at_rest C reg w cap n s" and "in_step s" and "0 < cap" and "i < n"
  shows "ws_sender (cy_writer s) i = SIdle"
proof (rule ccontr)
  let ?v = "cy_writer s" and ?step = "client_step C reg w cap n s"
  assume busy: "ws_sender ?v i \<noteq> SIdle"
  have snd: "sending (cy_threads s i)" using in_step_busy [OF assms(2) busy] .
  then have taken: "cy_threads s i \<noteq> TFree" by auto
  have resumes: "\<exists>x. resume (cy_threads s i) r = Some x" for r using snd by (cases "cy_threads s i") auto
  have stuck: False if "?step t" "task_moves (position s i) (position t i)"
    "\<And>j. j \<noteq> i \<Longrightarrow> cy_threads t j = cy_threads s j" "cy_disp t = cy_disp s" for t
    using task_work [OF that(1,2) taken that(3)] that(4) assms(1) by (auto simp: at_rest_def)
  show False
  proof (cases "ws_sender ?v i")
    case (SCleared f)
    show False using stuck [OF y_add [OF assms(4) SCleared]] snd SCleared by (auto simp: position_def intro: m_add)
  next
    case (SAdded f)
    show False
    proof (cases "writer_alive ?v")
      case True
      obtain x where x: "resume (cy_threads s i) (Ok ()) = Some x" using resumes by blast
      have "length (ws_queue ?v) < cap" using rest_writer [OF assms(1) True] assms(3) by simp
      from stuck [OF y_enqueue [OF assms(4) SAdded True this x]] x SAdded
      show False by (auto simp: position_def intro: m_enqueue)
    next
      case False
      from stuck [OF y_refused [OF assms(4) SAdded False]] snd SAdded
      show False by (auto simp: position_def intro: m_refuse)
    qed
  next
    case SRefused
    obtain x where x: "resume (cy_threads s i) (Err ConnectionClosed) = Some x" using resumes by blast
    from stuck [OF y_undo [OF assms(4) SRefused x]] x SRefused show False by (auto simp: position_def intro: m_undo)
  qed (use busy in simp)
qed

lemma rest_tasks:
  assumes "at_rest C reg w cap n s" and "in_step s" and "0 < cap" and "i < n" and "cy_threads s i \<noteq> TFree"
  shows "waits (ds_ctx (cy_disp s)) (cy_threads s i)"
proof (rule ccontr)
  let ?st = "ds_ctx (cy_disp s)"
  assume awake: "\<not> waits ?st (cy_threads s i)"
  note idle = rest_senders [OF assms(1-4)]
  have stuck: False if "client_step C reg w cap n s t" "task_moves (position s i) (position t i)"
    "\<And>j. j \<noteq> i \<Longrightarrow> cy_threads t j = cy_threads s j" "cs_cancelled (ds_ctx (cy_disp t)) = cs_cancelled ?st" for t
    using task_work [OF that(1,2) assms(5) that(3,4)] assms(1) by (auto simp: at_rest_def)
  have local: "local_step ?st (cy_threads s i) = None"
  proof (rule ccontr)
    assume "local_step ?st (cy_threads s i) \<noteq> None"
    then obtain x where x: "local_step ?st (cy_threads s i) = Some x" by blast
    from stuck [OF y_local [OF assms(4) x]] local_step_moves [OF x] show False by (auto simp: position_def)
  qed
  have call: "call_step ?st (cy_threads s i) = None"
  proof (rule ccontr)
    assume "call_step ?st (cy_threads s i) \<noteq> None"
    then obtain x st where x: "call_step ?st (cy_threads s i) = Some (x, st)" by force
    from stuck [OF y_call [OF assms(4) x]] call_step_moves [OF x] call_step_task(3) [OF x] show False
      by (auto simp: position_def)
  qed
  show False
  proof (cases "cy_threads s i")
    case (TRun ctx p root)
    then show False
    proof (cases p)
      case (HDone r)
      with TRun local show False by (cases r; cases root) auto
    next
      case (HCancelled q)
      with TRun local awake show False by (auto simp: cancelled_def)
    qed (use TRun local call in auto)
  next
    case (TMarked ctx op k root)
    show False
    proof (cases "op_payload C op")
      case (Inl e)
      from stuck [OF y_encode_fails [OF assms(4) TMarked Inl]] TMarked show False
        by (auto simp: position_def intro: m_gives_up)
    next
      case (Inr data)
      show False
      proof (cases "ws_pending (cy_writer s) < wh_max_pending w")
        case True
        from stuck [OF y_clear [OF assms(4) TMarked Inr idle True]] TMarked show False
          by (auto simp: position_def intro: m_clear)
      next
        case False
        then have "wh_max_pending w \<le> ws_pending (cy_writer s)" by simp
        from stuck [OF y_timeout [OF assms(4) TMarked Inr this]] TMarked show False
          by (auto simp: position_def intro: m_gives_up)
      qed
    qed
  next
    case (TForget ctx)
    from stuck [OF y_forget [OF assms(4) TForget]] TForget show False by (auto simp: position_def intro: m_forget)
  next
    case TRelease
    from stuck [OF y_release [OF assms(4) TRelease]] TRelease show False by (auto simp: position_def intro: m_release)
  qed (use idle assms(2,5) in \<open>auto simp: in_step_def\<close>)
qed

lemma rest_reached:
  assumes "(client_step C reg w cap n)\<^sup>*\<^sup>* (client_init limit) s"
  shows "\<exists>t. (work_step C reg w cap n)\<^sup>*\<^sup>* s t \<and> at_rest C reg w cap n t"
  using wf_work_order [of n] assms
proof (induction s rule: wf_induct_rule)
  case (less s)
  show ?case
  proof (cases "at_rest C reg w cap n s")
    case False
    then obtain u where u: "work_step C reg w cap n s u" by (auto simp: at_rest_def)
    have "in_step s" using tsys.inv_reachable [OF refl less.prems] by (simp add: task_inv_def)
    from less.IH [OF work_step_less [OF u this] work_reachable [OF less.prems u]] u show ?thesis
      by (meson converse_rtranclp_into_rtranclp)
  qed auto
qed

lemma works_reachable:
  "(work_step C reg w cap n)\<^sup>*\<^sup>* s t \<Longrightarrow> (client_step C reg w cap n)\<^sup>*\<^sup>* (client_init limit) s \<Longrightarrow>
   (client_step C reg w cap n)\<^sup>*\<^sup>* (client_init limit) t"
  by (induction rule: rtranclp_induct) (auto intro: work_reachable)

section \<open>Property\<close>

text \<open>C8. Left to itself the client comes to rest, under every schedule: from every state it can reach, no
  run without new frames, aborts, clones or events is endless, whatever sends time out and whenever a
  write fails, and such runs end. Where nothing can move any more every task has ended or waits for
  the abort of its request; if all have ended, all permits are back and no active context is left;
  and if the writer task lives, the counter is 0 and every accepted frame has been written.\<close>

theorem client_always_rests:
  assumes "(client_step C reg w cap n)\<^sup>*\<^sup>* (client_init limit) s" and "unat (wh_max_pending w) + n < 2 ^ 64"
    and "0 < cap"
  shows "(\<nexists>run. run 0 = s \<and> (\<forall>k. work_step C reg w cap n (run k) (run (Suc k))))
    \<and> (\<exists>t. (work_step C reg w cap n)\<^sup>*\<^sup>* s t \<and> at_rest C reg w cap n t)
    \<and> (\<forall>t. (work_step C reg w cap n)\<^sup>*\<^sup>* s t \<longrightarrow> at_rest C reg w cap n t \<longrightarrow>
         (\<forall>i. cy_threads t i = TFree \<or> waits (ds_ctx (cy_disp t)) (cy_threads t i))
       \<and> ((\<forall>i. cy_threads t i = TFree) \<longrightarrow> ds_permits (cy_disp t) = limit \<and> ds_active (cy_disp t) = Map.empty)
       \<and> (writer_alive (cy_writer t) \<longrightarrow>
            ws_pending (cy_writer t) = 0 \<and> ws_written (cy_writer t) = ws_accepted (cy_writer t)))"
proof (intro conjI allI impI)
  show "\<nexists>run. run 0 = s \<and> (\<forall>k. work_step C reg w cap n (run k) (run (Suc k)))"
    using no_endless_work [OF assms(1)] .
  show "\<exists>t. (work_step C reg w cap n)\<^sup>*\<^sup>* s t \<and> at_rest C reg w cap n t" using rest_reached [OF assms(1)] .
  fix t assume t: "(work_step C reg w cap n)\<^sup>*\<^sup>* s t" and rest: "at_rest C reg w cap n t"
  note reach = works_reachable [OF t assms(1)]
  have inv: "task_inv n t" using tsys.inv_reachable [OF refl reach] .
  then have in_step: "in_step t" by (simp add: task_inv_def)
  show tasks: "cy_threads t i = TFree \<or> waits (ds_ctx (cy_disp t)) (cy_threads t i)" for i
    using inv rest_tasks [OF rest in_step assms(3), of i] by (cases "i < n") (auto simp: task_inv_def)
  show "ds_active (cy_disp t) = Map.empty" if "\<forall>i. cy_threads t i = TFree"
    using inv that by (simp add: task_inv_def registered_ids_def)
  show "ds_permits (cy_disp t) = limit" if "\<forall>i. cy_threads t i = TFree"
    using csys.inv_reachable [OF refl reach] that by (simp add: client_inv_def permit_inv_def permit_holders_def)
  have "ws_sender (cy_writer t) i = SIdle" for i
    using in_step tasks [of i] by (cases "cy_threads t i") (auto simp: in_step_def)
  then have "settled (cy_writer t)" if "writer_alive (cy_writer t)"
    using rest_writer [OF rest that] by (simp add: settled_def)
  with settled_room [OF reach assms(2)] show "ws_pending (cy_writer t) = 0"
    and "ws_written (cy_writer t) = ws_accepted (cy_writer t)" if "writer_alive (cy_writer t)" using that by blast+
qed

theorem client_always_rests_witness:
  "\<exists>s t ctx p. cy_threads s 0 = TRun ctx p True
     \<and> (work_step sample_codec sample_reg sample_writer 8 2)\<^sup>*\<^sup>* s t \<and> at_rest sample_codec sample_reg sample_writer 8 2 t
     \<and> (\<forall>i. cy_threads t i = TFree \<or> waits (ds_ctx (cy_disp t)) (cy_threads t i))"
proof -
  obtain s ctx p where s: "(client_step sample_codec sample_reg sample_writer 8 2)\<^sup>*\<^sup>* (client_init 1) s"
    and run: "cy_threads s 0 = TRun ctx p True" using client_sample_started by blast
  have room: "unat (wh_max_pending sample_writer) + 2 < 2 ^ 64" by (simp add: WriterHandle_new_def)
  have all: "(\<exists>t. (work_step sample_codec sample_reg sample_writer 8 2)\<^sup>*\<^sup>* s t \<and> at_rest sample_codec sample_reg sample_writer 8 2 t)
    \<and> (\<forall>t. (work_step sample_codec sample_reg sample_writer 8 2)\<^sup>*\<^sup>* s t \<longrightarrow> at_rest sample_codec sample_reg sample_writer 8 2 t
        \<longrightarrow> (\<forall>i. cy_threads t i = TFree \<or> waits (ds_ctx (cy_disp t)) (cy_threads t i)))"
    using client_always_rests [OF s room] by simp
  then obtain t where "(work_step sample_codec sample_reg sample_writer 8 2)\<^sup>*\<^sup>* s t"
    "at_rest sample_codec sample_reg sample_writer 8 2 t" by blast
  with all run show ?thesis by blast
qed

end
