(* ===== verification/Client_Service.thy ===== *)
theory Client_Service
  imports Client_Termination
begin

text \<open>
  What the running client owes its requests (\<open>dispatch_frame\<close> of \<open>src/client.rs\<close>, \<open>src/handler/context.rs\<close>).
  A handler is responsible if it never returns \<open>Ok\<close> before a terminal operation; the spawned task
  reports its errors. Under every interleaving a request of a responsible handler has its flag set
  when its task has ended, and where no terminal operation fails behind its flag, terminal frames,
  frames under way and requests with a clear flag add up to the requests exactly.
\<close>

section \<open>Responsible handlers\<close>

text \<open>The program, started with a clear flag, does not return \<open>Ok\<close> with a clear flag.\<close>

primrec responsible :: "'v hprog \<Rightarrow> bool" where
  "responsible (HDone r) = (r \<noteq> Ok ())"
| "responsible (HOp op k) = (op_terminal op \<or> (\<forall>r. responsible (k r)))"
| "responsible (HIsCancelled k) = (\<forall>b. responsible (k b))"
| "responsible (HCancelled p) = responsible p"
| "responsible (HHasResponded k) = responsible (k False)"

definition responsible_registry :: "'v HandlerRegistry \<Rightarrow> bool" where
  "responsible_registry reg \<longleftrightarrow> (\<forall>i th. get_handler_by_id reg i = Some th \<longrightarrow>
     (\<forall>v ctx. responsible (th_handler th v ctx)))"

lemma responsible_dispatch:
  "responsible_registry reg \<Longrightarrow> responsible (dispatch C reg i data ctx)"
  by (auto simp: responsible_registry_def dispatch_def TypedHandler_call_def split: option.splits sum.splits)

text \<open>A task that will still set flag \<open>a\<close>.\<close>

fun owes :: "arc \<Rightarrow> 'v thread \<Rightarrow> bool" where
  "owes a (TRun ctx p root) \<longleftrightarrow> root \<and> rc_responded ctx = a \<and> responsible p"
| "owes a (TMarked ctx op k root) \<longleftrightarrow> root \<and> rc_responded ctx = a \<and> (\<forall>r. responsible (k r))"
| "owes a (TSending ctx k root) \<longleftrightarrow> root \<and> rc_responded ctx = a \<and> (\<forall>r. responsible (k r))"
| "owes a _ \<longleftrightarrow> False"

definition service_inv :: "'v client_sys \<Rightarrow> bool" where
  "service_inv s \<longleftrightarrow> ds_fresh (cy_disp s) = length (ds_started (cy_disp s))
   \<and> (\<forall>a < length (ds_started (cy_disp s)).
        cs_responded (ds_ctx (cy_disp s)) a \<or> (\<exists>i. owes a (cy_threads s i)))"

lemma call_step_owes:
  assumes "call_step st t = Some (t', st')"
  shows "cs_responded st a \<Longrightarrow> cs_responded st' a" and "owes a t \<Longrightarrow> owes a t' \<or> cs_responded st' a"
  using assms
  by (cases "(st, t)" rule: call_step.cases;
      auto simp: mark_responded_def has_responded_def Let_def split: if_splits)+

lemma local_step_owes:
  "local_step st t = Some t' \<Longrightarrow> owes a t \<Longrightarrow> owes a t' \<or> cs_responded st a"
  by (cases "(st, t)" rule: local_step.cases)
    (auto simp: has_responded_def split: if_splits option.splits)

lemma resume_owes: "resume t r = Some t' \<Longrightarrow> owes a t \<Longrightarrow> owes a t'"
  by (cases "(t, r)" rule: resume.cases) auto

text \<open>One task moves.\<close>

lemma service_inv_thread:
  assumes "service_inv s" and "\<And>j. j \<noteq> i \<Longrightarrow> cy_threads t j = cy_threads s j"
    and "\<And>a. cs_responded (ds_ctx (cy_disp s)) a \<Longrightarrow> cs_responded (ds_ctx (cy_disp t)) a"
    and "\<And>a. owes a (cy_threads s i) \<Longrightarrow> owes a (cy_threads t i) \<or> cs_responded (ds_ctx (cy_disp t)) a"
    and "ds_fresh (cy_disp t) = ds_fresh (cy_disp s)" and "ds_started (cy_disp t) = ds_started (cy_disp s)"
  shows "service_inv t"
  unfolding service_inv_def
proof (intro conjI allI impI)
  show "ds_fresh (cy_disp t) = length (ds_started (cy_disp t))" using assms(1,5,6) by (simp add: service_inv_def)
  fix a assume "a < length (ds_started (cy_disp t))"
  with assms(1,6) consider "cs_responded (ds_ctx (cy_disp s)) a" | j where "owes a (cy_threads s j)"
    by (auto simp: service_inv_def)
  then show "cs_responded (ds_ctx (cy_disp t)) a \<or> (\<exists>j. owes a (cy_threads t j))"
  proof cases
    case (2 j)
    then show ?thesis using assms(2) [of j] assms(4) [of a] by (cases "j = i") metis+
  qed (simp add: assms(3))
qed

lemma service_inv_spawn:
  assumes "service_inv s" and "responsible_registry reg" and "cy_threads s i = TFree"
    and d: "dispatch_frame C reg w frame (cy_disp s) = (Some tk, ds)"
  shows "service_inv (s\<lparr>cy_disp := ds, cy_threads := (cy_threads s)(i := TRun (tk_ctx tk) (tk_prog tk) True)\<rparr>)"
  unfolding service_inv_def
proof (intro conjI allI impI)
  let ?t = "s\<lparr>cy_disp := ds, cy_threads := (cy_threads s)(i := TRun (tk_ctx tk) (tk_prog tk) True)\<rparr>"
  note f = dispatch_frame_spawn [OF d]
  have fresh: "ds_fresh (cy_disp s) = length (ds_started (cy_disp s))" using assms(1) by (simp add: service_inv_def)
  then show "ds_fresh (cy_disp ?t) = length (ds_started (cy_disp ?t))" using f(4,5) by simp
  have "tk_prog tk = dispatch C reg (method_id (header frame)) (payload frame) (tk_ctx tk)"
    using d by (auto simp: dispatch_frame_def Let_def split: if_splits option.splits prod.splits)
  then have new: "owes (ds_fresh (cy_disp s)) (cy_threads ?t i)"
    using f(1) responsible_dispatch [OF assms(2)] by simp
  fix a assume a: "a < length (ds_started (cy_disp ?t))"
  show "cs_responded (ds_ctx (cy_disp ?t)) a \<or> (\<exists>j. owes a (cy_threads ?t j))"
  proof (cases "a = ds_fresh (cy_disp s)")
    case True
    with new show ?thesis by blast
  next
    case False
    with a f(5) fresh have "a < length (ds_started (cy_disp s))" by simp
    with assms(1) consider "cs_responded (ds_ctx (cy_disp s)) a" | j where "owes a (cy_threads s j)"
      by (auto simp: service_inv_def)
    then show ?thesis
    proof cases
      case 1
      with False f(3) show ?thesis by (simp add: flag_new_def token_new_def)
    next
      case (2 j)
      with assms(3) have "owes a (cy_threads ?t j)" by auto
      then show ?thesis by blast
    qed
  qed
qed

lemma service_inv_step:
  assumes "service_inv s" and "client_step C reg w cap n s t" and "responsible_registry reg"
  shows "service_inv t"
  using assms(2)
proof (cases rule: client_step.cases)
  case (y_ignore frame ds)
  with dispatch_frame_none [OF y_ignore(2)] assms(1) show ?thesis by (simp add: service_inv_def)
next
  case (y_spawn frame tk ds i)
  with service_inv_spawn [OF assms(1,3)] show ?thesis by simp
next
  case (y_call i x st)
  with call_step_owes [OF y_call(3)] show ?thesis by (intro service_inv_thread [OF assms(1), of i]) simp_all
next
  case (y_local i x)
  with local_step_owes [OF y_local(3)] show ?thesis by (intro service_inv_thread [OF assms(1), of i]) simp_all
next
  case (y_enqueue i f x)
  with resume_owes [OF y_enqueue(6)] show ?thesis by (intro service_inv_thread [OF assms(1), of i]) simp_all
next
  case (y_undo i x)
  with resume_owes [OF y_undo(4)] show ?thesis by (intro service_inv_thread [OF assms(1), of i]) simp_all
next
  case (y_clone j ctx p root i q)
  then show ?thesis by (intro service_inv_thread [OF assms(1), of i]) simp_all
next
  case (y_encode_fails i ctx op k root e)
  then show ?thesis by (intro service_inv_thread [OF assms(1), of i]) simp_all
next
  case (y_timeout i ctx op k root data)
  then show ?thesis by (intro service_inv_thread [OF assms(1), of i]) simp_all
next
  case (y_clear i ctx op k root data)
  then show ?thesis by (intro service_inv_thread [OF assms(1), of i]) simp_all
next
  case (y_emit i ev data)
  then show ?thesis by (intro service_inv_thread [OF assms(1), of i]) simp_all
next
  case (y_forget i ctx)
  then show ?thesis by (intro service_inv_thread [OF assms(1), of i]) simp_all
next
  case (y_release i)
  then show ?thesis by (intro service_inv_thread [OF assms(1), of i]) simp_all
qed (use assms(1) in \<open>simp_all add: service_inv_def\<close>)

section \<open>Exact accounts\<close>

text \<open>A step behind which the writer task lives, in which a terminal operation that has passed its flag
  stays where it is or goes on to its \<open>send\<close>, and in which no handler panics (a task that gives its
  permit back has removed its active context).\<close>

definition faultless :: "'v client_sys \<Rightarrow> 'v client_sys \<Rightarrow> bool" where
  "faultless s t \<longleftrightarrow> writer_alive (cy_writer t)
   \<and> (\<forall>i ctx op k root. cy_threads s i = TMarked ctx op k root \<longrightarrow> op_terminal op \<longrightarrow>
        cy_threads t i = cy_threads s i \<or> sending (cy_threads t i))
   \<and> (\<forall>i. cy_threads t i = TRelease \<longrightarrow> cy_threads s i = TRelease \<or> (\<exists>ctx. cy_threads s i = TForget ctx))"

lemma faultlessD:
  "faultless s t \<Longrightarrow> cy_threads s i = TMarked ctx op k root \<Longrightarrow> op_terminal op \<Longrightarrow>
   cy_threads t i = cy_threads s i \<or> sending (cy_threads t i)"
  by (simp add: faultless_def)

text \<open>The panics of a faultless run are those of tasks the handlers spawned, between their operations.\<close>

lemma faultless_panic:
  assumes "faultless s (s\<lparr>cy_threads := (cy_threads s)(i := x)\<rparr>)" and "panic_step (cy_threads s i) = Some x"
  shows "\<not> owes a (cy_threads s i)" and "under_way ids (cy_threads s i) l = 0"
proof -
  have rel: "x \<noteq> TRelease"
    using assms by (cases "cy_threads s i") (auto simp: faultless_def dest!: spec [of _ i])
  show "\<not> owes a (cy_threads s i)" using assms(2) rel by (cases "cy_threads s i") auto
  show "under_way ids (cy_threads s i) l = 0"
  proof (cases "cy_threads s i")
    case (TMarked ctx op k root)
    with assms(2) rel faultlessD [OF assms(1) TMarked] show ?thesis by (auto split: if_splits)
  qed (use assms(2) in auto)
qed

lemma service_inv_crash:
  assumes "service_inv s" and "crash_step C reg w cap n s t" and "faultless s t" and "responsible_registry reg"
  shows "service_inv t"
  using assms(2)
proof cases
  case z_step
  with service_inv_step [OF assms(1)] assms(4) show ?thesis by blast
next
  case (z_panic i x)
  with faultless_panic(1) [of s i x] assms(3) show ?thesis
    by (intro service_inv_thread [OF assms(1), of i]) simp_all
qed

definition account :: "nat \<Rightarrow> u16 \<times> u32 \<Rightarrow> 'v client_sys \<Rightarrow> nat" where
  "account n ids s = answers_in ids (ws_accepted (cy_writer s)) + under_way_all n ids s + unanswered ids (cy_disp s)"

definition exact_inv :: "nat \<Rightarrow> 'v client_sys \<Rightarrow> bool" where
  "exact_inv n s \<longleftrightarrow> link_inv s \<and> writer_alive (cy_writer s) \<and> (\<forall>i. ws_sender (cy_writer s) i \<noteq> SRefused)
   \<and> (\<forall>ids. account n ids s = requests ids (ds_started (cy_disp s)))"

lemma account_thread:
  assumes "i < n" and "\<And>j. j \<noteq> i \<Longrightarrow> cy_threads t j = cy_threads s j"
    and "\<And>j. j \<noteq> i \<Longrightarrow> ws_sender (cy_writer t) j = ws_sender (cy_writer s) j"
    and "answers_in ids (ws_accepted (cy_writer t)) + under_way ids (cy_threads t i) (ws_sender (cy_writer t) i)
      = answers_in ids (ws_accepted (cy_writer s)) + under_way ids (cy_threads s i) (ws_sender (cy_writer s) i)"
    and "unanswered ids (cy_disp t) = unanswered ids (cy_disp s)"
  shows "account n ids t = account n ids s"
  using assms(4,5) under_way_upd [OF assms(1-3), of ids] by (simp add: account_def)

lemma account_step:
  assumes "client_step C reg w cap n s t" and "faultless s t" and "exact_inv n s"
  shows "account n ids t + requests ids (ds_started (cy_disp s))
    = account n ids s + requests ids (ds_started (cy_disp t))"
proof -
  note inv = assms(3) [unfolded exact_inv_def]
  from assms(1) show ?thesis
  proof (cases rule: client_step.cases)
    case (y_ignore frame ds)
    with dispatch_frame_none [OF y_ignore(2)] show ?thesis
      by (simp add: account_def unanswered_def under_way_all_def)
  next
    case (y_spawn frame tk ds i)
    with account_spawn [OF _ y_spawn(3,4,2), of ids] inv show ?thesis
      by (simp add: account_def link_inv_def)
  next
    case (y_call i x st)
    with account_call [OF _ y_call(2,3), of ids] inv show ?thesis by (simp add: account_def)
  next
    case (y_local i x)
    have "under_way ids (cy_threads s i) l = 0" for l
      using y_local(3) by (cases "cy_threads s i") simp_all
    with y_local local_step_keeps(3) [OF y_local(3)] account_thread [of i n t s ids] show ?thesis by simp
  next
    case (y_enqueue i f x)
    with resume_keeps(3,4) [OF y_enqueue(6)] account_thread [of i n t s ids] show ?thesis by simp
  next
    case (y_undo i x)
    with inv show ?thesis by simp
  next
    case (y_writer v)
    with writer_only [OF y_writer(2)] show ?thesis by (simp add: account_def under_way_all_def)
  next
    case (y_add i f)
    have "under_way ids (cy_threads s i) (SAdded f) = under_way ids (cy_threads s i) (SCleared f)"
      by (cases "cy_threads s i") simp_all
    with y_add account_thread [of i n t s ids] show ?thesis by simp
  next
    case (y_refused i f)
    with inv show ?thesis by simp
  next
    case (y_clone j ctx p root i q)
    with account_thread [of i n t s ids] show ?thesis by simp
  next
    case (y_encode_fails i ctx op k root e)
    then have "\<not> op_terminal op" using faultlessD [OF assms(2), of i ctx op k root] by auto
    with y_encode_fails account_thread [of i n t s ids] show ?thesis by simp
  next
    case (y_timeout i ctx op k root data)
    then have "\<not> op_terminal op" using faultlessD [OF assms(2), of i ctx op k root] by auto
    with y_timeout account_thread [of i n t s ids] show ?thesis by simp
  next
    case (y_clear i ctx op k root data)
    with account_thread [of i n t s ids] show ?thesis by simp
  next
    case (y_emit i ev data)
    with account_thread [of i n t s ids] show ?thesis by simp
  next
    case (y_forget i ctx)
    with account_thread [of i n t s ids] show ?thesis by (simp add: unanswered_def)
  next
    case (y_release i)
    with account_thread [of i n t s ids] show ?thesis by (simp add: unanswered_def)
  qed
qed

lemma faultless_no_refusal:
  assumes "client_step C reg w cap n s t" and "writer_alive (cy_writer s)"
    and "\<forall>i. ws_sender (cy_writer s) i \<noteq> SRefused"
  shows "ws_sender (cy_writer t) i \<noteq> SRefused"
  using assms
proof (cases rule: client_step.cases)
  case (y_writer v)
  with writer_only [OF y_writer(2)] assms(3) show ?thesis by simp
qed auto

lemma exact_inv_step:
  assumes "exact_inv n s" and "crash_step C reg w cap n s t" and "faultless s t"
  shows "exact_inv n t"
  using assms(2)
proof cases
  case z_step
  note inv = assms(1) [unfolded exact_inv_def]
  show ?thesis unfolding exact_inv_def
  proof (intro conjI allI)
    show "link_inv t" using link_inv_step [OF z_step] inv by blast
    show "writer_alive (cy_writer t)" using assms(3) by (simp add: faultless_def)
    show "ws_sender (cy_writer t) i \<noteq> SRefused" for i
      using faultless_no_refusal [OF z_step] inv by blast
    show "account n ids t = requests ids (ds_started (cy_disp t))" for ids
      using account_step [OF z_step assms(3,1), of ids] inv by simp
  qed
next
  case (z_panic i x)
  have "account n ids t = account n ids s" for ids
    using z_panic panic_step_keeps(3) [OF z_panic(3)] faultless_panic(2) [of s i x] assms(3)
    by (intro account_thread [of i]) simp_all
  with assms(1) link_inv_panic [OF _ z_panic(3)] z_panic show ?thesis by (simp add: exact_inv_def)
qed

lemma exact_inv_init: "exact_inv n (client_init limit)"
  by (simp add: exact_inv_def client_init_def disp_init_def writer_init_def link_inv_def contexts_def
      account_def under_way_all_def unanswered_def requests_def writer_alive_def)

lemma service_inv_init: "service_inv (client_init limit)"
  by (simp add: service_inv_def client_init_def disp_init_def)

text \<open>When all tasks have ended, every request has been answered once.\<close>

lemma all_answered:
  assumes "exact_inv n s" and "service_inv s" and "\<forall>i. cy_threads s i = TFree"
  shows "answers_in ids (ws_accepted (cy_writer s)) = requests ids (ds_started (cy_disp s))"
proof -
  have "unanswered ids (cy_disp s) = 0" and "under_way_all n ids s = 0"
    using assms(2,3) by (simp_all add: service_inv_def unanswered_def under_way_all_def)
  moreover have "account n ids s = requests ids (ds_started (cy_disp s))"
    using assms(1) unfolding exact_inv_def by blast
  ultimately show ?thesis by (simp add: account_def)
qed

end
