(* ===== verification/Transport.thy ===== *)
theory Transport
  imports Errors
begin

text \<open>
  The address of the data plane and the Unix listener's handling of the socket file
  (\<open>src/transport/pipe.rs\<close>). The environment variables, the process id, the clock and the value the
  process-wide counter had are arguments; the file system and the socket calls are the fields of
  the record \<open>socket_api\<close>, those of Windows named pipes the fields of \<open>named_pipe_api\<close>, and the
  polling functions of tokio's streams the fields of \<open>stream_api\<close>.
\<close>

section \<open>Model\<close>

definition trim_end_slashes :: "rstr \<Rightarrow> rstr" where
  "trim_end_slashes s = rev (dropWhile (\<lambda>c. c = CHR ''/'') (rev s))"

definition non_empty :: "rstr option \<Rightarrow> rstr option" where
  "non_empty v = (case v of Some s \<Rightarrow> if s \<noteq> [] then Some s else None | None \<Rightarrow> None)"

definition unix_runtime_dir :: "(rstr \<Rightarrow> rstr option) \<Rightarrow> rstr" where
  "unix_runtime_dir env =
     (let raw = (case non_empty (env ''XDG_RUNTIME_DIR'') of
            Some s \<Rightarrow> s
          | None \<Rightarrow> (case non_empty (env ''TMPDIR'') of Some s \<Rightarrow> s | None \<Rightarrow> ''/tmp''));
          trimmed = trim_end_slashes raw
      in if trimmed = [] then ''/tmp'' else trimmed)"

text \<open>\<open>clock\<close> is the time since the epoch in nanoseconds, absent if the clock is before it.\<close>

definition rand_u64 :: "u64 \<Rightarrow> nat option \<Rightarrow> u32 \<Rightarrow> u64" where
  "rand_u64 seq clock pid =
     (let nanos = (case clock of Some n \<Rightarrow> word_of_nat n | None \<Rightarrow> 0)
      in (nanos * 0x517cc1b727220a95 + seq * 0x9E3779B97F4A7C15) XOR ucast pid)"

definition pipe_path_unix :: "(rstr \<Rightarrow> rstr option) \<Rightarrow> u32 \<Rightarrow> u64 \<Rightarrow> rstr" where
  "pipe_path_unix env pid rand =
     unix_runtime_dir env @ ''/procwire-'' @ show_dec (unat pid) @ ''-'' @ show_hex (unat rand) @ ''.sock''"

definition pipe_path_windows :: "u32 \<Rightarrow> u64 \<Rightarrow> rstr" where
  "pipe_path_windows pid rand =
     [CHR 0x5C, CHR 0x5C] @ ''.'' @ [CHR 0x5C] @ ''pipe'' @ [CHR 0x5C] @ ''procwire-''
       @ show_dec (unat pid) @ ''-'' @ show_hex (unat rand)"

definition generate_pipe_path ::
  "bool \<Rightarrow> (rstr \<Rightarrow> rstr option) \<Rightarrow> u32 \<Rightarrow> u64 \<Rightarrow> nat option \<Rightarrow> rstr" where
  "generate_pipe_path is_unix env pid seq clock =
     (let rand = rand_u64 seq clock pid
      in if is_unix then pipe_path_unix env pid rand else pipe_path_windows pid rand)"

record 'f socket_api =
  path_exists :: "rstr \<Rightarrow> 'f \<Rightarrow> bool"
  remove_file :: "rstr \<Rightarrow> 'f \<Rightarrow> (unit, io_error) result \<times> 'f"
  unix_listen :: "rstr \<Rightarrow> 'f \<Rightarrow> (nat, io_error) result \<times> 'f"
  unix_accept :: "nat \<Rightarrow> 'f \<Rightarrow> (nat, io_error) result \<times> 'f"

record PipeListener =
  pl_listener :: nat
  pl_path :: rstr

record PipeStream =
  ps_stream :: nat

record PipeCleanup =
  pc_path :: rstr

definition PipeListener_bind ::
  "'f socket_api \<Rightarrow> rstr \<Rightarrow> 'f \<Rightarrow> (PipeListener, ProcwireError) result \<times> 'f" where
  "PipeListener_bind F path fs =
     (case (if path_exists F path fs then remove_file F path fs else (Ok (), fs)) of
        (Inl e, fs) \<Rightarrow> (Err (Io e), fs)
      | (Inr _, fs) \<Rightarrow> (case unix_listen F path fs of
          (Inl e, fs) \<Rightarrow> (Err (Io e), fs)
        | (Inr l, fs) \<Rightarrow> (Ok \<lparr>pl_listener = l, pl_path = path\<rparr>, fs)))"

definition PipeListener_accept ::
  "'f socket_api \<Rightarrow> PipeListener \<Rightarrow> 'f \<Rightarrow> (PipeStream, ProcwireError) result \<times> 'f" where
  "PipeListener_accept F self fs = (case unix_accept F (pl_listener self) fs of
     (Inl e, fs) \<Rightarrow> (Err (Io e), fs)
   | (Inr s, fs) \<Rightarrow> (Ok \<lparr>ps_stream = s\<rparr>, fs))"

definition PipeListener_path :: "PipeListener \<Rightarrow> rstr" where
  "PipeListener_path self = pl_path self"

definition cleanup_guard :: "PipeListener \<Rightarrow> PipeCleanup" where
  "cleanup_guard self = \<lparr>pc_path = pl_path self\<rparr>"

definition PipeCleanup_drop :: "'f socket_api \<Rightarrow> PipeCleanup \<Rightarrow> 'f \<Rightarrow> 'f" where
  "PipeCleanup_drop F self fs = snd (remove_file F (pc_path self) fs)"

definition PipeListener_drop :: "'f socket_api \<Rightarrow> PipeListener \<Rightarrow> 'f \<Rightarrow> 'f" where
  "PipeListener_drop F self fs = snd (remove_file F (pl_path self) fs)"

definition create_pipe_listener ::
  "'f socket_api \<Rightarrow> rstr \<Rightarrow> 'f \<Rightarrow> (PipeListener, ProcwireError) result \<times> 'f" where
  "create_pipe_listener F path fs = PipeListener_bind F path fs"

text \<open>The stream. A poll returns \<open>None\<close> for \<open>Poll::Pending\<close>; the read half and the write half of a
  split stream are the stream itself.\<close>

record 's stream_api =
  sa_poll_read :: "nat \<Rightarrow> nat \<Rightarrow> 's \<Rightarrow> (bytes, io_error) result option \<times> 's"
  sa_poll_write :: "nat \<Rightarrow> bytes \<Rightarrow> 's \<Rightarrow> (nat, io_error) result option \<times> 's"
  sa_poll_flush :: "nat \<Rightarrow> 's \<Rightarrow> (unit, io_error) result option \<times> 's"
  sa_poll_shutdown :: "nat \<Rightarrow> 's \<Rightarrow> (unit, io_error) result option \<times> 's"

definition into_split :: "PipeStream \<Rightarrow> nat \<times> nat" where
  "into_split self = (ps_stream self, ps_stream self)"

definition PipeStream_inner :: "PipeStream \<Rightarrow> nat" where
  "PipeStream_inner self = ps_stream self"

definition PipeStream_poll_read ::
  "'s stream_api \<Rightarrow> PipeStream \<Rightarrow> nat \<Rightarrow> 's \<Rightarrow> (bytes, io_error) result option \<times> 's" where
  "PipeStream_poll_read A self capacity s = sa_poll_read A (ps_stream self) capacity s"

definition PipeStream_poll_write ::
  "'s stream_api \<Rightarrow> PipeStream \<Rightarrow> bytes \<Rightarrow> 's \<Rightarrow> (nat, io_error) result option \<times> 's" where
  "PipeStream_poll_write A self buf s = sa_poll_write A (ps_stream self) buf s"

definition PipeStream_poll_flush ::
  "'s stream_api \<Rightarrow> PipeStream \<Rightarrow> 's \<Rightarrow> (unit, io_error) result option \<times> 's" where
  "PipeStream_poll_flush A self s = sa_poll_flush A (ps_stream self) s"

definition PipeStream_poll_shutdown ::
  "'s stream_api \<Rightarrow> PipeStream \<Rightarrow> 's \<Rightarrow> (unit, io_error) result option \<times> 's" where
  "PipeStream_poll_shutdown A self s = sa_poll_shutdown A (ps_stream self) s"

text \<open>The Windows listener. \<open>np_create\<close> is \<open>ServerOptions::create\<close> with the flag
  \<open>first_pipe_instance\<close>, \<open>np_close\<close> is dropping a server; the server that \<open>bind\<close> creates is dropped
  at once, since nothing keeps it.\<close>

record 'f named_pipe_api =
  np_create :: "bool \<Rightarrow> rstr \<Rightarrow> 'f \<Rightarrow> (nat, io_error) result \<times> 'f"
  np_connect :: "nat \<Rightarrow> 'f \<Rightarrow> (unit, io_error) result \<times> 'f"
  np_close :: "nat \<Rightarrow> 'f \<Rightarrow> 'f"

record WinPipeListener =
  wl_path :: rstr

record WinPipeStream =
  ws_pipe :: nat

record WinPipeCleanup =
  wc_path :: rstr

definition WinPipeListener_bind ::
  "'f named_pipe_api \<Rightarrow> rstr \<Rightarrow> 'f \<Rightarrow> (WinPipeListener, ProcwireError) result \<times> 'f" where
  "WinPipeListener_bind N path fs = (case np_create N True path fs of
     (Inl e, fs) \<Rightarrow> (Err (Io e), fs)
   | (Inr server, fs) \<Rightarrow> (Ok \<lparr>wl_path = path\<rparr>, np_close N server fs))"

definition WinPipeListener_accept ::
  "'f named_pipe_api \<Rightarrow> WinPipeListener \<Rightarrow> 'f \<Rightarrow> (WinPipeStream, ProcwireError) result \<times> 'f" where
  "WinPipeListener_accept N self fs = (case np_create N False (wl_path self) fs of
     (Inl e, fs) \<Rightarrow> (Err (Io e), fs)
   | (Inr server, fs) \<Rightarrow> (case np_connect N server fs of
       (Inl e, fs) \<Rightarrow> (Err (Io e), np_close N server fs)
     | (Inr _, fs) \<Rightarrow> (Ok \<lparr>ws_pipe = server\<rparr>, fs)))"

definition WinPipeListener_path :: "WinPipeListener \<Rightarrow> rstr" where
  "WinPipeListener_path self = wl_path self"

definition WinPipeListener_cleanup_guard :: "WinPipeListener \<Rightarrow> WinPipeCleanup" where
  "WinPipeListener_cleanup_guard self = \<lparr>wc_path = wl_path self\<rparr>"

definition WinPipeCleanup_drop :: "WinPipeCleanup \<Rightarrow> 'f \<Rightarrow> 'f" where
  "WinPipeCleanup_drop self fs = fs"

definition WinPipeStream_into_split :: "WinPipeStream \<Rightarrow> nat \<times> nat" where
  "WinPipeStream_into_split self = (ws_pipe self, ws_pipe self)"

definition WinPipeStream_inner :: "WinPipeStream \<Rightarrow> nat" where
  "WinPipeStream_inner self = ws_pipe self"

definition WinPipeStream_poll_read ::
  "'s stream_api \<Rightarrow> WinPipeStream \<Rightarrow> nat \<Rightarrow> 's \<Rightarrow> (bytes, io_error) result option \<times> 's" where
  "WinPipeStream_poll_read A self capacity s = sa_poll_read A (ws_pipe self) capacity s"

definition WinPipeStream_poll_write ::
  "'s stream_api \<Rightarrow> WinPipeStream \<Rightarrow> bytes \<Rightarrow> 's \<Rightarrow> (nat, io_error) result option \<times> 's" where
  "WinPipeStream_poll_write A self buf s = sa_poll_write A (ws_pipe self) buf s"

definition WinPipeStream_poll_flush ::
  "'s stream_api \<Rightarrow> WinPipeStream \<Rightarrow> 's \<Rightarrow> (unit, io_error) result option \<times> 's" where
  "WinPipeStream_poll_flush A self s = sa_poll_flush A (ws_pipe self) s"

definition WinPipeStream_poll_shutdown ::
  "'s stream_api \<Rightarrow> WinPipeStream \<Rightarrow> 's \<Rightarrow> (unit, io_error) result option \<times> 's" where
  "WinPipeStream_poll_shutdown A self s = sa_poll_shutdown A (ws_pipe self) s"

section \<open>Contracts of the calls\<close>

text \<open>\<open>files\<close> are the paths that exist: removing and listening change only their own path, and
  accepting changes none; \<open>removable\<close> says that an existing file can be removed.\<close>

definition socket_contract :: "'f socket_api \<Rightarrow> ('f \<Rightarrow> rstr set) \<Rightarrow> bool" where
  "socket_contract F files \<longleftrightarrow>
     (\<forall>p fs. path_exists F p fs \<longleftrightarrow> p \<in> files fs)
   \<and> (\<forall>p fs. files (snd (remove_file F p fs)) =
        (if is_ok (fst (remove_file F p fs)) then files fs - {p} else files fs))
   \<and> (\<forall>p fs. files (snd (unix_listen F p fs)) =
        (if is_ok (fst (unix_listen F p fs)) then insert p (files fs) else files fs))
   \<and> (\<forall>l fs. files (snd (unix_accept F l fs)) = files fs)"

definition removable :: "'f socket_api \<Rightarrow> ('f \<Rightarrow> rstr set) \<Rightarrow> bool" where
  "removable F files \<longleftrightarrow> (\<forall>p fs. p \<in> files fs \<longrightarrow> is_ok (fst (remove_file F p fs)))"

text \<open>\<open>servers\<close> are the server instances of each pipe name; a client can connect to a name only
  while it has one.\<close>

definition named_pipe_contract :: "'f named_pipe_api \<Rightarrow> ('f \<Rightarrow> rstr \<Rightarrow> nat set) \<Rightarrow> bool" where
  "named_pipe_contract N servers \<longleftrightarrow>
     (\<forall>first p fs fs' h. np_create N first p fs = (Ok h, fs') \<longrightarrow>
        (first \<longrightarrow> servers fs p = {}) \<and> servers fs' = (servers fs)(p := insert h (servers fs p)))
   \<and> (\<forall>first p fs fs' e. np_create N first p fs = (Err e, fs') \<longrightarrow> servers fs' = servers fs)
   \<and> (\<forall>h fs. servers (snd (np_connect N h fs)) = servers fs)
   \<and> (\<forall>h fs. servers (np_close N h fs) = (\<lambda>p. servers fs p - {h}))"

section \<open>Lemmas\<close>

lemma listener_drop_files:
  assumes "socket_contract F files" and "removable F files"
  shows "files (PipeListener_drop F l fs) = files fs - {pl_path l}"
  using assms by (auto simp: socket_contract_def removable_def PipeListener_drop_def)

lemma socket_contractD:
  assumes "socket_contract F files"
  shows "path_exists F p fs \<longleftrightarrow> p \<in> files fs"
    and "remove_file F p fs = (x, fs') \<Longrightarrow> files fs' = (if is_ok x then files fs - {p} else files fs)"
    and "unix_listen F p fs = (y, fs') \<Longrightarrow> files fs' = (if is_ok y then insert p (files fs) else files fs)"
    and "unix_accept F l fs = (z, fs') \<Longrightarrow> files fs' = files fs"
  using assms unfolding socket_contract_def by (metis fst_conv snd_conv)+

lemma bind_files:
  assumes "socket_contract F files" and "removable F files" and "PipeListener_bind F path fs = (r, fs')"
  shows "files fs' = (if is_ok r then insert path (files fs) else files fs - {path})
    \<and> (is_ok r \<longrightarrow> pl_path (projr r) = path)"
proof -
  obtain x fs1 where x: "(if path_exists F path fs then remove_file F path fs else (Ok (), fs)) = (x, fs1)"
    by fastforce
  have "is_ok x \<and> files fs1 = files fs - {path}"
  proof (cases "path \<in> files fs")
    case True
    then have "remove_file F path fs = (x, fs1)" using x socket_contractD(1) [OF assms(1)] by simp
    with True assms(2) socket_contractD(2) [OF assms(1) this] show ?thesis
      by (metis removable_def fst_conv)
  qed (use x socket_contractD(1) [OF assms(1)] in auto)
  then obtain u where u: "x = Inr u" and fs1: "files fs1 = files fs - {path}" by (cases x) auto
  obtain y fs2 where y: "unix_listen F path fs1 = (y, fs2)" by fastforce
  have "(r, fs') = (case y of Inl e \<Rightarrow> (Err (Io e), fs2) | Inr l \<Rightarrow> (Ok \<lparr>pl_listener = l, pl_path = path\<rparr>, fs2))"
    using assms(3) unfolding PipeListener_bind_def x u by (simp add: y)
  with socket_contractD(3) [OF assms(1) y] fs1 show ?thesis by (cases y) auto
qed

lemma accept_files:
  assumes "socket_contract F files" and "PipeListener_accept F l fs = (r, fs')"
  shows "files fs' = files fs"
  using assms(2)
  by (auto simp: PipeListener_accept_def socket_contractD(4) [OF assms(1)] split: prod.splits sum.splits)

lemma trim_end_slashes_last: "trim_end_slashes s \<noteq> [] \<Longrightarrow> last (trim_end_slashes s) \<noteq> CHR ''/''"
  using hd_dropWhile [of "\<lambda>c. c = CHR ''/''" "rev s"]
  by (simp only: trim_end_slashes_def rev_is_Nil_conv last_rev) simp

lemma digit_char_not_dash: "d < 16 \<Longrightarrow> digit_char d \<noteq> CHR ''-'' \<and> digit_char d \<noteq> CHR ''.''"
  by (auto simp: digit_char_def char_of_eq_iff take_bit_eq_mod)

lemma show_base_digits:
  assumes "1 < b" and "b \<le> 16"
  shows "CHR ''-'' \<notin> set (show_base b n) \<and> CHR ''.'' \<notin> set (show_base b n)"
proof (induction n rule: less_induct)
  case (less n)
  have lt: "n mod b < 16" using assms by (meson mod_less_divisor order.strict_trans2 zero_less_one order.strict_trans)
  show ?case
  proof (cases "n < b")
    case True
    with assms digit_char_not_dash [of n] show ?thesis by (subst (1 2) show_base.simps) auto
  next
    case False
    with assms have "n div b < n" by simp
    from less.IH [OF this] digit_char_not_dash [OF lt] False assms(1) show ?thesis
      by (subst (1 2) show_base.simps) auto
  qed
qed

lemma split_at_unique:
  assumes "a @ x # b = c @ x # d" and "x \<notin> set a" and "x \<notin> set c"
  shows "a = c \<and> b = d"
  using assms by (induction a arbitrary: c) (auto simp: Cons_eq_append_conv append_eq_Cons_conv)

lemma name_suffix_inj:
  assumes "show_dec m @ ''-'' @ show_hex r @ s = show_dec m' @ ''-'' @ show_hex r' @ s"
  shows "m = m' \<and> r = r'"
proof -
  have nd: "CHR ''-'' \<notin> set (show_dec k)" for k
    using show_base_digits [of 10 k] by (simp add: show_dec_def)
  from assms have "show_dec m @ CHR ''-'' # (show_hex r @ s) = show_dec m' @ CHR ''-'' # (show_hex r' @ s)"
    by simp
  from split_at_unique [OF this nd nd] have "show_dec m = show_dec m'" "show_hex r = show_hex r'"
    by simp_all
  then show ?thesis by (simp add: show_dec_inj show_hex_inj)
qed

lemma mult_inj:
  assumes "i * a = (1 :: u64)" and "x * a = y * a"
  shows "x = y"
proof -
  from assms(2) have "i * (x * a) = i * (y * a)" by simp
  then have "x * (i * a) = y * (i * a)" by (simp only: mult.left_commute [of i])
  with assms(1) show ?thesis by simp
qed

lemma xor_right_cancel: "(x :: u64) XOR k = y XOR k \<longleftrightarrow> x = y"
proof
  assume "x XOR k = y XOR k"
  then have "(x XOR k) XOR k = (y XOR k) XOR k" by simp
  then show "x = y" by (simp add: xor.assoc)
qed simp

section \<open>Properties\<close>

text \<open>The socket path is the chosen base directory, which is never empty and never ends in a
  slash, then one slash, the process id and the random value; and paths under the same environment
  are equal only if process id and random value are.\<close>

theorem pipe_path_well_formed:
  "(\<exists>base. pipe_path_unix env pid rand
      = base @ ''/procwire-'' @ show_dec (unat pid) @ ''-'' @ show_hex (unat rand) @ ''.sock''
      \<and> base \<noteq> [] \<and> last base \<noteq> CHR ''/'')
   \<and> (pipe_path_unix env pid rand = pipe_path_unix env pid' rand' \<longleftrightarrow> pid = pid' \<and> rand = rand')"
proof
  have "unix_runtime_dir env \<noteq> [] \<and> last (unix_runtime_dir env) \<noteq> CHR ''/''"
    using trim_end_slashes_last by (auto simp: unix_runtime_dir_def Let_def)
  then show "\<exists>base. pipe_path_unix env pid rand
      = base @ ''/procwire-'' @ show_dec (unat pid) @ ''-'' @ show_hex (unat rand) @ ''.sock''
      \<and> base \<noteq> [] \<and> last base \<noteq> CHR ''/''"
    unfolding pipe_path_unix_def by blast
  show "pipe_path_unix env pid rand = pipe_path_unix env pid' rand' \<longleftrightarrow> pid = pid' \<and> rand = rand'"
    by (auto simp: pipe_path_unix_def word_unat_eq_iff dest: name_suffix_inj [of _ _ "''.sock''", simplified])
qed

text \<open>With a clock that does not move, the values of a process are different for different
  values of the counter; but the mixing does not make every two calls differ, as the code's
  comment says: there are clock readings at which two successive calls agree.\<close>

theorem rand_u64_distinct:
  "(rand_u64 seq clock pid = rand_u64 seq' clock pid \<longleftrightarrow> seq = seq')
   \<and> rand_u64 1 (Some 13157835391224263807) pid = rand_u64 0 (Some 0) pid"
proof
  have inv: "0xf1de83e19937733d * 0x9E3779B97F4A7C15 = (1 :: u64)" by simp
  show "rand_u64 seq clock pid = rand_u64 seq' clock pid \<longleftrightarrow> seq = seq'"
    using mult_inj [OF inv, of seq seq'] by (auto simp: rand_u64_def Let_def xor_right_cancel)
  have e: "word_of_nat 13157835391224263807 * 0x517cc1b727220a95 + 1 * 0x9E3779B97F4A7C15 = (0 :: u64)"
    by simp
  show "rand_u64 1 (Some 13157835391224263807) pid = rand_u64 0 (Some 0) pid"
    unfolding rand_u64_def Let_def option.case e by simp
qed

text \<open>On Windows a bound listener does not listen: when \<open>bind\<close> returns, the pipe name has no server
  instance any more, so a client that reads the announced path and connects before \<open>accept\<close> is
  called finds no pipe; only \<open>accept\<close> creates the instance it then serves.\<close>

theorem windows_bind_not_listening:
  assumes "named_pipe_contract N servers"
  shows "(WinPipeListener_bind N path fs = (Ok l, fs') \<longrightarrow> servers fs' path = {} \<and> wl_path l = path)
    \<and> (WinPipeListener_accept N l fs = (Ok stream, fs') \<longrightarrow> ws_pipe stream \<in> servers fs' (wl_path l))"
proof (intro conjI impI)
  assume b: "WinPipeListener_bind N path fs = (Ok l, fs')"
  then obtain h fs1 where c: "np_create N True path fs = (Ok h, fs1)" and "fs' = np_close N h fs1"
    and "wl_path l = path"
    by (auto simp: WinPipeListener_bind_def split: prod.splits sum.splits)
  with assms show "servers fs' path = {}" "wl_path l = path"
    by (auto simp: named_pipe_contract_def)
next
  assume "WinPipeListener_accept N l fs = (Ok stream, fs')"
  then obtain h fs1 u where c: "np_create N False (wl_path l) fs = (Ok h, fs1)"
    and "np_connect N h fs1 = (Inr u, fs')" and "ws_pipe stream = h"
    by (auto simp: WinPipeListener_accept_def split: prod.splits sum.splits)
  moreover from this have "servers fs' = servers fs1"
    using assms by (metis named_pipe_contract_def snd_conv)
  ultimately show "ws_pipe stream \<in> servers fs' (wl_path l)"
    using assms by (auto simp: named_pipe_contract_def)
qed

text \<open>A world of pipe names with their instances, numbered in the order of creation.\<close>

definition sample_pipes :: "(nat \<times> (rstr \<Rightarrow> nat set)) named_pipe_api" where
  "sample_pipes = \<lparr>np_create = (\<lambda>first p (n, sv). if first \<and> sv p \<noteq> {} then (Inl (io_error_new OtherIo ''access denied''), (n, sv))
       else (Inr n, (Suc n, sv(p := insert n (sv p))))),
     np_connect = (\<lambda>h fs. (Inr (), fs)), np_close = (\<lambda>h (n, sv). (n, \<lambda>p. sv p - {h}))\<rparr>"

theorem windows_bind_not_listening_witness:
  "snd (snd (WinPipeListener_bind sample_pipes ''p'' (0, \<lambda>_. {}))) ''p'' = {}"
proof -
  have "named_pipe_contract sample_pipes snd"
    by (auto simp: named_pipe_contract_def sample_pipes_def split: if_splits)
  from windows_bind_not_listening [OF this] show ?thesis
    by (auto simp: WinPipeListener_bind_def sample_pipes_def)
qed

end
