(* ===== verification/Control_Plane.thy ===== *)
theory Control_Plane
  imports Init_Message
begin

text \<open>
  The control plane on stdio (\<open>src/control/stdio.rs\<close>, \<open>src/control/stdin.rs\<close>). Strings are their
  UTF-8 bytes, so \<open>str::trim\<close> strips the encodings of the White\_Space characters. Standard output
  is the record \<open>stdout_handle\<close> of the two functions the code calls; what the reads of standard
  input return is a list, the reader's argument, and a reader that has used it up is still
  blocked in a read. \<open>serde_json\<close> is an argument.
\<close>

section \<open>Standard output\<close>

record 'o stdout_handle =
  write_all :: "rstr \<Rightarrow> 'o \<Rightarrow> (unit, io_error) result \<times> 'o"
  flush_stdout :: "'o \<Rightarrow> (unit, io_error) result \<times> 'o"

definition newline :: rstr where
  "newline = [CHR 0x0A]"

definition write_stdout_line ::
  "'o stdout_handle \<Rightarrow> rstr \<Rightarrow> 'o \<Rightarrow> (unit, io_error) result \<times> 'o" where
  "write_stdout_line H line out = (case write_all H line out of
     (Inl e, out) \<Rightarrow> (Err e, out)
   | (Inr _, out) \<Rightarrow> (case write_all H newline out of
       (Inl e, out) \<Rightarrow> (Err e, out)
     | (Inr _, out) \<Rightarrow> flush_stdout H out))"

definition write_stdout_json ::
  "('v \<Rightarrow> (rstr, rstr) result) \<Rightarrow> 'o stdout_handle \<Rightarrow> 'v \<Rightarrow> 'o \<Rightarrow> (unit, ProcwireError) result \<times> 'o"
  where
  "write_stdout_json to_string H value out = (case to_string value of
     Inl e \<Rightarrow> (Err (Json e), out)
   | Inr s \<Rightarrow> (case write_stdout_line H s out of
       (Inl e, out) \<Rightarrow> (Err (Io e), out)
     | (Inr _, out) \<Rightarrow> (Ok (), out)))"

text \<open>What \<open>write_all\<close> and \<open>flush\<close> promise of what the parent can read.\<close>

definition stdout_contract :: "'o stdout_handle \<Rightarrow> ('o \<Rightarrow> rstr) \<Rightarrow> bool" where
  "stdout_contract H seen \<longleftrightarrow>
     (\<forall>s out. case write_all H s out of
        (Inr _, out') \<Rightarrow> seen out' = seen out @ s
      | (Inl _, out') \<Rightarrow> (\<exists>k. seen out' = seen out @ take k s))
   \<and> (\<forall>out. seen (snd (flush_stdout H out)) = seen out)"

lemma stdout_write:
  assumes "stdout_contract H seen"
  shows "write_all H s out = (Inr u, out') \<Longrightarrow> seen out' = seen out @ s"
    and "write_all H s out = (Inl e, out') \<Longrightarrow> \<exists>k. seen out' = seen out @ take k s"
    and "flush_stdout H out = (r, out') \<Longrightarrow> seen out' = seen out"
proof -
  from assms have "case write_all H s out of (Inr _, out') \<Rightarrow> seen out' = seen out @ s
      | (Inl _, out') \<Rightarrow> (\<exists>k. seen out' = seen out @ take k s)"
    and "seen (snd (flush_stdout H out)) = seen out"
    by (simp_all add: stdout_contract_def)
  then show "write_all H s out = (Inr u, out') \<Longrightarrow> seen out' = seen out @ s"
    and "write_all H s out = (Inl e, out') \<Longrightarrow> \<exists>k. seen out' = seen out @ take k s"
    and "flush_stdout H out = (r, out') \<Longrightarrow> seen out' = seen out"
    by simp_all
qed

lemma write_stdout_line_spec:
  assumes "stdout_contract H seen" and "write_stdout_line H line out = (r, out')"
  shows "(\<exists>k. seen out' = seen out @ take k (line @ newline))
    \<and> (is_ok r \<longrightarrow> seen out' = seen out @ line @ newline)"
proof -
  obtain r1 o1 where w1: "write_all H line out = (r1, o1)" by fastforce
  obtain r2 o2 where w2: "write_all H newline o1 = (r2, o2)" by fastforce
  show ?thesis
  proof (cases r1)
    case (Inl e)
    with w1 obtain k where "seen o1 = seen out @ take k line"
      using stdout_write(2) [OF assms(1)] by blast
    then have "seen o1 = seen out @ take (min k (length line)) (line @ newline)"
      by (simp add: min_def)
    moreover have "r = Inl e" "out' = o1" using assms(2) w1 Inl by (simp_all add: write_stdout_line_def)
    ultimately show ?thesis by (simp only: sum.disc simp_thms) blast
  next
    case (Inr u)
    with w1 have s1: "seen o1 = seen out @ line" using stdout_write(1) [OF assms(1)] by blast
    show ?thesis
    proof (cases r2)
      case (Inl e)
      with w2 obtain k where "seen o2 = seen o1 @ take k newline"
        using stdout_write(2) [OF assms(1)] by blast
      with s1 have "seen o2 = seen out @ take (length line + k) (line @ newline)" by simp
      moreover have "r = Inl e" "out' = o2"
        using assms(2) w1 w2 \<open>r1 = Inr u\<close> Inl by (simp_all add: write_stdout_line_def)
      ultimately show ?thesis by (simp only: sum.disc simp_thms) blast
    next
      case (Inr v)
      with w2 s1 have "seen o2 = seen out @ line @ newline"
        using stdout_write(1) [OF assms(1), of newline o1 v o2] by simp
      moreover have "flush_stdout H o2 = (r, out')"
        using assms(2) w1 w2 \<open>r1 = Inr u\<close> Inr by (simp add: write_stdout_line_def)
      ultimately have "seen out' = seen out @ line @ newline"
        using stdout_write(3) [OF assms(1)] by metis
      then show ?thesis by (auto intro: exI [of _ "length (line @ newline)"])
    qed
  qed
qed

section \<open>Trimming\<close>

text \<open>The UTF-8 encodings of the characters with the White\_Space property.\<close>

definition white_space :: "rstr list" where
  "white_space =
     [[CHR 0x09], [CHR 0x0A], [CHR 0x0B], [CHR 0x0C], [CHR 0x0D], [CHR 0x20],
      [CHR 0xC2, CHR 0x85], [CHR 0xC2, CHR 0xA0], [CHR 0xE1, CHR 0x9A, CHR 0x80],
      [CHR 0xE2, CHR 0x80, CHR 0x80], [CHR 0xE2, CHR 0x80, CHR 0x81],
      [CHR 0xE2, CHR 0x80, CHR 0x82], [CHR 0xE2, CHR 0x80, CHR 0x83],
      [CHR 0xE2, CHR 0x80, CHR 0x84], [CHR 0xE2, CHR 0x80, CHR 0x85],
      [CHR 0xE2, CHR 0x80, CHR 0x86], [CHR 0xE2, CHR 0x80, CHR 0x87],
      [CHR 0xE2, CHR 0x80, CHR 0x88], [CHR 0xE2, CHR 0x80, CHR 0x89],
      [CHR 0xE2, CHR 0x80, CHR 0x8A], [CHR 0xE2, CHR 0x80, CHR 0xA8],
      [CHR 0xE2, CHR 0x80, CHR 0xA9], [CHR 0xE2, CHR 0x80, CHR 0xAF],
      [CHR 0xE2, CHR 0x81, CHR 0x9F], [CHR 0xE3, CHR 0x80, CHR 0x80]]"

definition leading :: "rstr list \<Rightarrow> rstr \<Rightarrow> rstr option" where
  "leading ws s = find (\<lambda>w. w \<noteq> [] \<and> take (length w) s = w) ws"

lemma leading_SomeD: "leading ws s = Some w \<Longrightarrow> w \<in> set ws \<and> w \<noteq> [] \<and> (\<exists>t. s = w @ t)"
  by (auto simp: leading_def find_Some_iff) (metis append_take_drop_id)

function strip_leading :: "rstr list \<Rightarrow> rstr \<Rightarrow> rstr" where
  "strip_leading ws s = (case leading ws s of
     None \<Rightarrow> s | Some w \<Rightarrow> strip_leading ws (drop (length w) s))"
  by auto
termination
  by (relation "measure (\<lambda>(ws, s). length s)") (auto dest!: leading_SomeD)

declare strip_leading.simps [simp del]

definition trim_start :: "rstr \<Rightarrow> rstr" where
  "trim_start s = strip_leading white_space s"

definition trim_end :: "rstr \<Rightarrow> rstr" where
  "trim_end s = rev (strip_leading (map rev white_space) (rev s))"

definition trim :: "rstr \<Rightarrow> rstr" where
  "trim s = trim_end (trim_start s)"

section \<open>The reader of standard input\<close>

definition PONG_MESSAGE :: rstr where
  "PONG_MESSAGE = ''{'' @ [CHR 0x22] @ ''jsonrpc'' @ [CHR 0x22] @ '':'' @ [CHR 0x22] @ ''2.0''
     @ [CHR 0x22] @ '','' @ [CHR 0x22] @ ''method'' @ [CHR 0x22] @ '':'' @ [CHR 0x22] @ ''$pong''
     @ [CHR 0x22] @ ''}''"

datatype ControlAction = Pong | Shutdown | Ignore

definition as_str :: "json \<Rightarrow> rstr option" where
  "as_str v = (case v of JString s \<Rightarrow> Some s | _ \<Rightarrow> None)"

definition parse_control_line :: "(rstr \<Rightarrow> (json, rstr) result) \<Rightarrow> rstr \<Rightarrow> ControlAction" where
  "parse_control_line from_str line =
     (let trimmed = trim line in
      if take 1 trimmed \<noteq> ''{'' then Ignore
      else (case from_str trimmed of
          Inl _ \<Rightarrow> Ignore
        | Inr value \<Rightarrow>
            (let m = Option.bind (json_get value ''method'') as_str in
             if m = Some ''$ping'' then Pong
             else if m = Some ''$shutdown'' then Shutdown
             else Ignore)))"

datatype read_line = Eof | Line rstr | ReadError io_error

record 'o reader_out =
  ro_returned :: bool
  ro_stdout :: 'o
  ro_cancelled :: bool

fun run_control_reader ::
  "(rstr \<Rightarrow> (json, rstr) result) \<Rightarrow> 'o stdout_handle \<Rightarrow> read_line list \<Rightarrow> bool \<Rightarrow> 'o \<Rightarrow> 'o reader_out"
  where
  "run_control_reader from_str H [] token out =
     \<lparr>ro_returned = False, ro_stdout = out, ro_cancelled = token\<rparr>"
| "run_control_reader from_str H (Eof # reads) token out =
     \<lparr>ro_returned = True, ro_stdout = out, ro_cancelled = token\<rparr>"
| "run_control_reader from_str H (ReadError e # reads) token out =
     \<lparr>ro_returned = True, ro_stdout = out, ro_cancelled = token\<rparr>"
| "run_control_reader from_str H (Line line # reads) token out =
     (case parse_control_line from_str line of
        Pong \<Rightarrow> (case write_stdout_line H PONG_MESSAGE out of
            (Inl e, out) \<Rightarrow> \<lparr>ro_returned = True, ro_stdout = out, ro_cancelled = token\<rparr>
          | (Inr _, out) \<Rightarrow> run_control_reader from_str H reads token out)
      | Shutdown \<Rightarrow> \<lparr>ro_returned = True, ro_stdout = out, ro_cancelled = True\<rparr>
      | Ignore \<Rightarrow> run_control_reader from_str H reads token out)"

section \<open>Trimming: lemmas\<close>

lemma strip_leading_None: "leading ws s = None \<Longrightarrow> strip_leading ws s = s"
  by (subst strip_leading.simps) simp

lemma strip_leading_Some: "leading ws (w @ t) = Some w \<Longrightarrow> strip_leading ws (w @ t) = strip_leading ws t"
  by (subst strip_leading.simps) simp

lemma strip_leading_end: "leading ws (strip_leading ws s) = None"
proof (induction ws s rule: strip_leading.induct)
  case (1 ws s)
  then show ?case by (cases "leading ws s") (subst strip_leading.simps, simp)+
qed

text \<open>The encodings, and their reversals, are prefix-free, so the first one that matches is the
  only one.\<close>

definition clash_free :: "rstr list \<Rightarrow> bool" where
  "clash_free ws \<longleftrightarrow> list_all (\<lambda>v. v \<noteq> [] \<and>
     list_all (\<lambda>w. v = w \<or> take (length v) w \<noteq> take (length w) v) ws) ws"

lemma leading_clash_free:
  assumes "clash_free ws" and "w \<in> set ws"
  shows "leading ws (w @ t) = Some w"
proof -
  have "w \<noteq> []" using assms by (simp add: clash_free_def list_all_iff)
  then have "leading ws (w @ t) \<noteq> None" using assms(2) by (auto simp: leading_def find_None_iff)
  then obtain v where v: "leading ws (w @ t) = Some v" by auto
  then obtain u where "v \<in> set ws" "w @ t = v @ u" using leading_SomeD by metis
  moreover from this(2) have "take (length v) w = take (length w) v"
    by (auto simp: append_eq_append_conv2)
  ultimately show ?thesis using assms v by (auto simp: clash_free_def list_all_iff)
qed

lemma clash_free_white_space: "clash_free white_space" "clash_free (map rev white_space)"
  by code_simp+

lemma white_space_leading: "w \<in> set white_space \<Longrightarrow> leading white_space (w @ t) = Some w"
  by (rule leading_clash_free [OF clash_free_white_space(1)])

lemma white_space_trailing:
  "w \<in> set white_space \<Longrightarrow> leading (map rev white_space) (rev w @ t) = Some (rev w)"
  by (rule leading_clash_free [OF clash_free_white_space(2)]) simp

text \<open>No encoding ends inside another one: what follows the first byte is a continuation byte.\<close>

definition is_cont :: "char \<Rightarrow> bool" where
  "is_cont c \<longleftrightarrow> 128 \<le> (of_char c :: nat) \<and> (of_char c :: nat) < 192"

lemma white_space_cont:
  "\<forall>w \<in> set white_space. w \<noteq> [] \<and> \<not> is_cont (hd w) \<and> (\<forall>c \<in> set (tl w). is_cont c)"
  by (simp add: white_space_def is_cont_def)

lemma white_space_no_straddle:
  assumes "a @ b \<in> set white_space" and "b @ c \<in> set white_space" and "b \<noteq> []"
  shows "a = []"
proof (rule ccontr)
  assume "a \<noteq> []"
  with assms(3) have "hd b \<in> set (tl (a @ b))" by (cases a) auto
  then have "is_cont (hd b)" using white_space_cont assms(1) by blast
  moreover have "\<not> is_cont (hd (b @ c))" using white_space_cont assms(2) by blast
  ultimately show False using assms(3) by simp
qed

lemma trim_end_white_space: "w \<in> set white_space \<Longrightarrow> trim_end (s @ w) = trim_end s"
  by (simp add: trim_end_def strip_leading_Some white_space_trailing)

lemma trim_start_white_space: "w \<in> set white_space \<Longrightarrow> trim_start (w @ s) = trim_start s"
  by (simp add: trim_start_def strip_leading_Some white_space_leading)

lemma leading_Nil [simp]: "leading ws [] = None"
  by (auto simp: leading_def find_None_iff)

lemma leading_append_white_space:
  assumes "leading white_space s = None" and "s \<noteq> []" and "w \<in> set white_space"
  shows "leading white_space (s @ w) = None"
proof (rule ccontr)
  assume "leading white_space (s @ w) \<noteq> None"
  then obtain v t where v: "v \<in> set white_space" "v \<noteq> []" "s @ w = v @ t"
    using leading_SomeD by blast
  from v(3) consider u where "s = v @ u" | u where "v = s @ u" "w = u @ t" "u \<noteq> []"
    by (auto simp: append_eq_append_conv2) (metis append.right_neutral)
  then show False
  proof cases
    case 1
    with assms(1) white_space_leading [OF v(1)] show False by simp
  next
    case 2
    with white_space_no_straddle [of s u t] v(1) assms show False by simp
  qed
qed

lemma trim_append_white_space:
  assumes w: "w \<in> set white_space"
  shows "trim (s @ w) = trim s"
proof -
  have "trim_end (strip_leading ws (s @ w)) = trim_end (strip_leading ws s)" if "ws = white_space" for ws
    using that
  proof (induction ws s rule: strip_leading.induct)
    case (1 ws s)
    show ?case
    proof (cases "leading ws s")
      case None
      show ?thesis
      proof (cases "s = []")
        case True
        have "strip_leading ws (w @ []) = strip_leading ws []"
          using "1.prems" w by (intro strip_leading_Some) (simp add: white_space_leading [of _ "[]", simplified])
        with True show ?thesis by simp
      next
        case False
        with None "1.prems" w have "leading ws (s @ w) = None"
          by (simp add: leading_append_white_space)
        with None w show ?thesis by (simp add: strip_leading_None trim_end_white_space)
      qed
    next
      case (Some v)
      then obtain t where t: "s = v @ t" "v \<in> set ws" using leading_SomeD by blast
      with "1.prems" have "leading ws (v @ t @ w) = Some v" by (simp add: white_space_leading)
      with Some t "1.IH" [OF Some] "1.prems" show ?thesis
        by (simp add: strip_leading_Some)
    qed
  qed
  then show ?thesis by (simp add: trim_def trim_start_def)
qed

lemma trim_surrounded:
  assumes "set pre \<subseteq> set white_space" and "set post \<subseteq> set white_space"
  shows "trim (concat pre @ s @ concat post) = trim s"
proof -
  have "trim (t @ concat post) = trim t" for t
    using assms(2)
  proof (induction post arbitrary: t)
    case (Cons w post)
    then show ?case using Cons.IH [of "t @ w"] by (simp add: trim_append_white_space)
  qed simp
  moreover have "trim (concat pre @ t) = trim t" for t
    using assms(1) by (induction pre) (auto simp: trim_def trim_start_white_space)
  ultimately show ?thesis by (metis append.assoc)
qed

section \<open>The reader: lemmas\<close>

text \<open>The lines the reader answers: those before the first shutdown request, end of file or read
  error.\<close>

fun is_served :: "(rstr \<Rightarrow> (json, rstr) result) \<Rightarrow> read_line \<Rightarrow> bool" where
  "is_served from_str (Line l) \<longleftrightarrow> parse_control_line from_str l \<noteq> Shutdown"
| "is_served from_str _ \<longleftrightarrow> False"

fun is_ping :: "(rstr \<Rightarrow> (json, rstr) result) \<Rightarrow> read_line \<Rightarrow> bool" where
  "is_ping from_str (Line l) \<longleftrightarrow> parse_control_line from_str l = Pong"
| "is_ping from_str _ \<longleftrightarrow> False"

fun is_line :: "read_line \<Rightarrow> bool" where
  "is_line (Line l) \<longleftrightarrow> True"
| "is_line _ \<longleftrightarrow> False"

definition stdout_works :: "'o stdout_handle \<Rightarrow> bool" where
  "stdout_works H \<longleftrightarrow> (\<forall>s out. is_ok (fst (write_all H s out))) \<and> (\<forall>out. is_ok (fst (flush_stdout H out)))"

lemma write_stdout_line_works: "stdout_works H \<Longrightarrow> is_ok (fst (write_stdout_line H l out))"
  unfolding stdout_works_def write_stdout_line_def
  by (auto split: prod.splits sum.splits) (metis fst_conv sum.disc(1))+

section \<open>Properties\<close>

text \<open>A standard output that keeps everything, for concrete runs, and a parser that knows two
  lines.\<close>

definition sample_stdout :: "rstr stdout_handle" where
  "sample_stdout = \<lparr>write_all = (\<lambda>s out. (Inr (), out @ s)), flush_stdout = (\<lambda>out. (Inr (), out))\<rparr>"

definition sample_from_str :: "rstr \<Rightarrow> (json, rstr) result" where
  "sample_from_str s = (if s = ''{ping}'' then Inr (JObject [''method'' \<mapsto> JString ''$ping''])
     else if s = ''{stop}'' then Inr (JObject [''method'' \<mapsto> JString ''$shutdown''])
     else Inl ''expected value'')"

lemma sample_stdout_ok [simp]: "stdout_contract sample_stdout id" "stdout_works sample_stdout"
  by (simp_all add: stdout_contract_def stdout_works_def sample_stdout_def)

text \<open>C33. Heartbeat and shutdown: with a working standard output the reader writes exactly one
  \<open>$pong\<close> line per \<open>$ping\<close> among the lines before the first \<open>$shutdown\<close>, end of file or read
  error, and nothing else; it returns exactly when one of these comes; and it cancels the shutdown
  token exactly when that is a \<open>$shutdown\<close>.\<close>

theorem control_reader_reflex:
  assumes "stdout_contract H seen" and "stdout_works H"
    and "ro = run_control_reader from_str H reads token out"
    and "served = takeWhile (is_served from_str) reads"
    and "rest = dropWhile (is_served from_str) reads"
  shows "seen (ro_stdout ro) = seen out
      @ concat (replicate (length (filter (is_ping from_str) served)) (PONG_MESSAGE @ newline))
    \<and> ro_returned ro = (rest \<noteq> [])
    \<and> ro_cancelled ro = (token \<or> rest \<noteq> [] \<and> is_line (hd rest))"
  using assms(3-5)
proof (induction reads arbitrary: out served ro)
  case (Cons x reads)
  show ?case
  proof (cases x)
    case (Line l)
    show ?thesis
    proof (cases "parse_control_line from_str l")
      case Pong
      obtain u o1 where w: "write_stdout_line H PONG_MESSAGE out = (Inr u, o1)"
        using write_stdout_line_works [OF assms(2), of PONG_MESSAGE out]
        by (cases "write_stdout_line H PONG_MESSAGE out"; cases "fst (write_stdout_line H PONG_MESSAGE out)") auto
      have "seen o1 = seen out @ PONG_MESSAGE @ newline"
        using write_stdout_line_spec [OF assms(1) w] by simp
      with Cons.IH [of _ o1] Cons.prems Line Pong w show ?thesis by simp
    qed (use Cons Line in simp_all)
  qed (use Cons.prems in simp_all)
qed simp

theorem control_reader_reflex_witness:
  "ro_cancelled (run_control_reader sample_from_str sample_stdout [Line ''{ping}'', Line ''{stop}''] False [])"
  using control_reader_reflex [OF sample_stdout_ok, of _ sample_from_str
      "[Line ''{ping}'', Line ''{stop}'']" False "[]", OF refl refl refl]
  by (simp add: parse_control_line_def trim_def trim_start_def trim_end_def sample_from_str_def
      strip_leading.simps leading_def white_space_def as_str_def)

text \<open>White space around a control line (the line terminator \<open>read_line\<close> keeps, a carriage
  return, or any other Unicode white space) does not change what the line means, whatever the
  JSON parser; and a line that does not start with an opening brace is ignored.\<close>

theorem control_line_white_space:
  assumes "set pre \<subseteq> set white_space" and "set post \<subseteq> set white_space"
  shows "parse_control_line from_str (concat pre @ line @ concat post)
      = parse_control_line from_str line
    \<and> (take 1 (trim line) \<noteq> ''{'' \<longrightarrow> parse_control_line from_str line = Ignore)"
  using trim_surrounded [OF assms] by (simp add: parse_control_line_def)

theorem control_line_white_space_witness:
  "parse_control_line sample_from_str (''{ping}'' @ [CHR 0x0D, CHR 0x0A])
     = parse_control_line sample_from_str ''{ping}''"
  using control_line_white_space [of "[]" "[[CHR 0x0D], [CHR 0x0A]]" sample_from_str "''{ping}''"]
  by (simp add: white_space_def)

text \<open>\<open>write_stdout_line\<close> gives the parent the line and one line feed, nothing else; when it
  fails, the parent has seen a prefix of that.\<close>

theorem write_stdout_line_exact:
  assumes "stdout_contract H seen" and "write_stdout_line H line out = (r, out')"
  shows "(\<exists>k. seen out' = seen out @ take k (line @ [CHR 0x0A]))
    \<and> (r = Ok () \<longrightarrow> seen out' = seen out @ line @ [CHR 0x0A])"
  using write_stdout_line_spec [OF assms] by (auto simp: newline_def)

theorem write_stdout_line_exact_witness:
  "snd (write_stdout_line sample_stdout ''x'' []) = ''x'' @ [CHR 0x0A]"
  using write_stdout_line_exact [OF sample_stdout_ok(1), of "''x''" "[]" "Inr ()"
      "''x'' @ [CHR 0x0A]"]
  by (simp add: write_stdout_line_def sample_stdout_def newline_def)

end
