(* ===== verification/Client.thy ===== *)
theory Client
  imports Request_System Transport Control_Plane
begin

text \<open>
  The builder and the client (\<open>src/client.rs\<close>). \<open>Client_start\<close> composes the other components in the
  order of the code; everything it meets outside the repository (environment variables, clock,
  sockets, standard output, the thread spawn, the connections' reads, the channel constructor) is
  in the record \<open>start_world\<close>, an argument. The accept loop runs on fuel, one unit per connection.
\<close>

section \<open>Builder\<close>

definition DEFAULT_MAX_CONCURRENT_HANDLERS :: usize where
  "DEFAULT_MAX_CONCURRENT_HANDLERS = 256"

record 'v ClientBuilder =
  cb_registry :: "'v HandlerRegistry"
  cb_writer_config :: WriterConfig
  cb_max_concurrent_handlers :: usize
  cb_max_payload_size :: u32
  cb_auth_token :: "rstr option"

definition ClientBuilder_new :: "'v ClientBuilder" where
  "ClientBuilder_new = \<lparr>cb_registry = HandlerRegistry_new, cb_writer_config = WriterConfig_default,
     cb_max_concurrent_handlers = DEFAULT_MAX_CONCURRENT_HANDLERS,
     cb_max_payload_size = DEFAULT_MAX_PAYLOAD_SIZE, cb_auth_token = None\<rparr>"

definition ClientBuilder_default :: "'v ClientBuilder" where
  "ClientBuilder_default = ClientBuilder_new"

definition Client_builder :: "'v ClientBuilder" where
  "Client_builder = ClientBuilder_new"

text \<open>The flag of the registering methods says whether the build checks for overflow.\<close>

definition builder_handle ::
  "bool \<Rightarrow> rstr \<Rightarrow> 'v handler \<Rightarrow> 'v ClientBuilder \<Rightarrow> ('v ClientBuilder, fault) result" where
  "builder_handle oc m h b = and_then (register oc m RResult h (cb_registry b))
     (\<lambda>reg. Ok (b\<lparr>cb_registry := reg\<rparr>))"

definition builder_handle_stream ::
  "bool \<Rightarrow> rstr \<Rightarrow> 'v handler \<Rightarrow> 'v ClientBuilder \<Rightarrow> ('v ClientBuilder, fault) result" where
  "builder_handle_stream oc m h b = and_then (register oc m RStream h (cb_registry b))
     (\<lambda>reg. Ok (b\<lparr>cb_registry := reg\<rparr>))"

definition builder_handle_ack ::
  "bool \<Rightarrow> rstr \<Rightarrow> 'v handler \<Rightarrow> 'v ClientBuilder \<Rightarrow> ('v ClientBuilder, fault) result" where
  "builder_handle_ack oc m h b = and_then (register oc m RAck h (cb_registry b))
     (\<lambda>reg. Ok (b\<lparr>cb_registry := reg\<rparr>))"

definition builder_event ::
  "bool \<Rightarrow> rstr \<Rightarrow> 'v ClientBuilder \<Rightarrow> ('v ClientBuilder, fault) result" where
  "builder_event oc name b = and_then (register_event oc name (cb_registry b))
     (\<lambda>reg. Ok (b\<lparr>cb_registry := reg\<rparr>))"

definition max_concurrent_handlers :: "usize \<Rightarrow> 'v ClientBuilder \<Rightarrow> 'v ClientBuilder" where
  "max_concurrent_handlers limit b = b\<lparr>cb_max_concurrent_handlers := limit\<rparr>"

definition builder_max_pending_frames :: "usize \<Rightarrow> 'v ClientBuilder \<Rightarrow> 'v ClientBuilder" where
  "builder_max_pending_frames limit b =
     b\<lparr>cb_writer_config := (cb_writer_config b)\<lparr>max_pending_frames := limit\<rparr>\<rparr>"

definition builder_channel_capacity :: "usize \<Rightarrow> 'v ClientBuilder \<Rightarrow> 'v ClientBuilder" where
  "builder_channel_capacity capacity b =
     b\<lparr>cb_writer_config := (cb_writer_config b)\<lparr>channel_capacity := capacity\<rparr>\<rparr>"

definition builder_backpressure_timeout :: "duration \<Rightarrow> 'v ClientBuilder \<Rightarrow> 'v ClientBuilder" where
  "builder_backpressure_timeout timeout b =
     b\<lparr>cb_writer_config := (cb_writer_config b)\<lparr>backpressure_timeout := timeout\<rparr>\<rparr>"

definition builder_max_payload_size :: "u32 \<Rightarrow> 'v ClientBuilder \<Rightarrow> 'v ClientBuilder" where
  "builder_max_payload_size size' b =
     b\<lparr>cb_max_payload_size := min size' ABSOLUTE_MAX_PAYLOAD_SIZE\<rparr>"

definition builder_auth_token :: "rstr \<Rightarrow> 'v ClientBuilder \<Rightarrow> 'v ClientBuilder" where
  "builder_auth_token token b = b\<lparr>cb_auth_token := Some token\<rparr>"

text \<open>The token \<open>ClientBuilder::start\<close> passes on.\<close>

definition effective_token :: "(rstr \<Rightarrow> rstr option) \<Rightarrow> 'v ClientBuilder \<Rightarrow> rstr option" where
  "effective_token env b =
     non_empty (case cb_auth_token b of Some t \<Rightarrow> Some t | None \<Rightarrow> env ''PROCWIRE_TOKEN'')"

section \<open>Starting\<close>

text \<open>What \<open>start\<close> meets. \<open>sw_channel\<close> and \<open>sw_semaphore\<close> are the runtime's channel and semaphore
  constructors, which panic for sizes they do not support; a panic is a fault among the results.\<close>

record ('f, 'o) start_world =
  sw_env :: "rstr \<Rightarrow> rstr option"
  sw_pid :: u32
  sw_seq :: u64
  sw_clock :: "nat option"
  sw_sockets :: "'f socket_api"
  sw_to_string :: "json \<Rightarrow> (rstr, rstr) result"
  sw_stdout :: "'o stdout_handle"
  sw_thread :: "(unit, io_error) result"
  sw_reads :: "nat \<Rightarrow> read_outcome list"
  sw_channel :: "usize \<Rightarrow> (sender, fault) result"
  sw_semaphore :: "usize \<Rightarrow> (unit, fault) result"
  sw_counter :: arc
  sw_oneshot :: arc
  sw_token :: arc

text \<open>The connection the loop leaves with: the reads still to come, the frame buffer and the frames
  pipelined behind the AUTH frame.\<close>

record adopted =
  ad_reads :: "read_outcome list"
  ad_buffer :: FrameBuffer
  ad_frames :: "Frame list"

fun accept_loop ::
  "nat \<Rightarrow> 'f socket_api \<Rightarrow> (nat \<Rightarrow> read_outcome list) \<Rightarrow> PipeListener \<Rightarrow> rstr option \<Rightarrow> u32 \<Rightarrow> 'f \<Rightarrow>
     (adopted, ProcwireError) result option \<times> 'f" where
  "accept_loop 0 F rds l auth_token m fs = (None, fs)"
| "accept_loop (Suc n) F rds l auth_token m fs =
     (case PipeListener_accept F l fs of
        (Inl e, fs) \<Rightarrow> (Some (Err e), fs)
      | (Inr stream, fs) \<Rightarrow>
          (let reads = rds (ps_stream stream) in
           case auth_token of
             None \<Rightarrow> (Some (Ok \<lparr>ad_reads = reads, ad_buffer = FrameBuffer_with_max_payload m,
                 ad_frames = []\<rparr>), fs)
           | Some token \<Rightarrow> (case run_auth_handshake reads token m of
               (Some (Adopted fb frames), rest) \<Rightarrow>
                 (Some (Ok \<lparr>ad_reads = rest, ad_buffer = fb, ad_frames = frames\<rparr>), fs)
             | (Some Rejected, rest) \<Rightarrow> accept_loop n F rds l auth_token m fs
             | (None, rest) \<Rightarrow> (None, fs))))"

text \<open>The client: registry, writer, and the addresses of the two shutdown signals;
  \<open>cl_connection\<close> and \<open>cl_dispatch\<close> are what the spawned read task starts with, the latter holding
  the map of active contexts the client shares with it.\<close>

record 'v Client =
  cl_registry :: "'v HandlerRegistry"
  cl_writer :: WriterHandle
  cl_shutdown_rx :: arc
  cl_shutdown_token :: arc
  cl_connection :: adopted
  cl_dispatch :: disp_state

type_synonym ('v, 'f, 'o) start_result = "('v Client, fault) result option \<times> 'f \<times> 'o \<times> heap"

text \<open>The listener is dropped, and its socket file removed, when \<open>start\<close> returns.\<close>

definition Client_start ::
  "nat \<Rightarrow> ('f, 'o) start_world \<Rightarrow> 'v HandlerRegistry \<Rightarrow> (rstr \<times> 'v MethodEntry) list \<Rightarrow>
     (rstr \<times> u16) list \<Rightarrow> WriterConfig \<Rightarrow> usize \<Rightarrow> u32 \<Rightarrow> rstr option \<Rightarrow> 'f \<Rightarrow> 'o \<Rightarrow> heap \<Rightarrow>
     ('v, 'f, 'o) start_result" where
  "Client_start n W reg methods events config limit m auth_token fs out hp =
     (let path = generate_pipe_path True (sw_env W) (sw_pid W) (sw_seq W) (sw_clock W) in
      case PipeListener_bind (sw_sockets W) path fs of
        (Inl e, fs) \<Rightarrow> (Some (Err (Fail e)), fs, out, hp)
      | (Inr l, fs) \<Rightarrow>
          (let schema = build_schema methods events;
               dropped = PipeListener_drop (sw_sockets W) l
           in case build_init_message (sw_to_string W) path schema of
             Inl f \<Rightarrow> (Some (Err f), dropped fs, out, hp)
           | Inr init_msg \<Rightarrow> (case write_stdout_line (sw_stdout W) init_msg out of
               (Inl e, out) \<Rightarrow> (Some (Err (Fail (Io e))), dropped fs, out, hp)
             | (Inr _, out) \<Rightarrow> (case sw_thread W of
                 Inl e \<Rightarrow> (Some (Err (Fail (Io e))), dropped fs, out, hp)
               | Inr _ \<Rightarrow> (case accept_loop n (sw_sockets W) (sw_reads W) l auth_token m fs of
                   (None, fs) \<Rightarrow> (None, fs, out, hp)
                 | (Some (Inl e), fs) \<Rightarrow> (Some (Err (Fail e)), dropped fs, out, hp)
                 | (Some (Inr conn), fs) \<Rightarrow>
                     (case spawn_writer_task (sw_channel W) config (sw_counter W) hp of
                        Inl f \<Rightarrow> (Some (Err f), dropped fs, out, hp)
                      | Inr (w, hp) \<Rightarrow> (case sw_semaphore W limit of
                          Inl f \<Rightarrow> (Some (Err f), dropped fs, out, hp)
                        | Inr _ \<Rightarrow>
                            (Some (Ok \<lparr>cl_registry = reg, cl_writer = w,
                               cl_shutdown_rx = sw_oneshot W, cl_shutdown_token = sw_token W,
                               cl_connection = conn, cl_dispatch = disp_init (unat limit)\<rparr>), dropped fs, out, hp))))))))"

definition ClientBuilder_start ::
  "nat \<Rightarrow> ('f, 'o) start_world \<Rightarrow> 'v ClientBuilder \<Rightarrow> (rstr \<times> 'v MethodEntry) list \<Rightarrow>
     (rstr \<times> u16) list \<Rightarrow> 'f \<Rightarrow> 'o \<Rightarrow> heap \<Rightarrow> ('v, 'f, 'o) start_result" where
  "ClientBuilder_start n W b methods events =
     Client_start n W (cb_registry b) methods events (cb_writer_config b)
       (cb_max_concurrent_handlers b) (cb_max_payload_size b) (effective_token (sw_env W) b)"

section \<open>A running client\<close>

definition unknown_event :: "rstr \<Rightarrow> ProcwireError" where
  "unknown_event event = Protocol (''Unknown event: '' @ event)"

definition Client_emit ::
  "'v msgpack \<Rightarrow> 'v Client \<Rightarrow> rstr \<Rightarrow> 'v \<Rightarrow> send_env \<Rightarrow> send_out" where
  "Client_emit C self event data env = (case get_event_id (cl_registry self) event of
     None \<Rightarrow> \<lparr>out_result = Some (Err (unknown_event event)), out_ops = [], out_sent = []\<rparr>
   | Some i \<Rightarrow> (case MsgPackCodec_encode C data of
       Inl e \<Rightarrow> \<lparr>out_result = Some (Err e), out_ops = [], out_sent = []\<rparr>
     | Inr p \<Rightarrow> WriterHandle_send (cl_writer self) (event_frame i p) env))"

definition Client_emit_raw :: "'v Client \<Rightarrow> rstr \<Rightarrow> bytes \<Rightarrow> send_env \<Rightarrow> send_out" where
  "Client_emit_raw self event data env = (case get_event_id (cl_registry self) event of
     None \<Rightarrow> \<lparr>out_result = Some (Err (unknown_event event)), out_ops = [], out_sent = []\<rparr>
   | Some i \<Rightarrow> WriterHandle_send (cl_writer self) (event_frame i data) env)"

definition Client_is_backpressure_active :: "'v Client \<Rightarrow> heap \<Rightarrow> bool" where
  "Client_is_backpressure_active self h = is_backpressure_active (cl_writer self) h"

definition pending_frames :: "'v Client \<Rightarrow> heap \<Rightarrow> usize" where
  "pending_frames self h = WriterHandle_pending_count (cl_writer self) h"

text \<open>The state of the shutdown signals: which oneshot channels have fired and which tokens are
  cancelled. The spawned read task fires its channel when the loop has returned, with or without an
  error; \<open>wait_for_shutdown\<close> selects between the channel and the token and waits (\<open>None\<close>) until one
  of them is ready.\<close>

record signals =
  sg_fired :: "arc \<Rightarrow> bool"
  sg_cancelled :: "arc \<Rightarrow> bool"

definition read_task_end :: "arc \<Rightarrow> (unit, fault) result option \<Rightarrow> signals \<Rightarrow> signals" where
  "read_task_end tx r sg = (case r of
     None \<Rightarrow> sg
   | Some _ \<Rightarrow> sg\<lparr>sg_fired := (sg_fired sg)(tx := True)\<rparr>)"

definition wait_for_shutdown :: "'v Client \<Rightarrow> signals \<Rightarrow> (unit, ProcwireError) result option" where
  "wait_for_shutdown self sg =
     (if sg_fired sg (cl_shutdown_rx self) then Some (Ok ())
      else if sg_cancelled sg (cl_shutdown_token self) then Some (Ok ())
      else None)"

definition is_shutdown_requested :: "'v Client \<Rightarrow> signals \<Rightarrow> bool" where
  "is_shutdown_requested self sg = sg_cancelled sg (cl_shutdown_token self)"

section \<open>Lemmas\<close>

lemma event_sent:
  "out_sent (Client_emit_raw self event data env) =
     (case get_event_id (cl_registry self) event of None \<Rightarrow> []
      | Some i \<Rightarrow> if out_result (Client_emit_raw self event data env) = Some (Ok ())
          then [event_frame i data] else [])"
  by (simp add: Client_emit_raw_def ws.sent_eq split: option.split)

lemma accept_loop_adopted:
  assumes "accept_loop n F rds l (Some token) m fs = (Some (Ok conn), fs')"
  shows "\<exists>c chunks first. rds c = map Read chunks @ ad_reads conn \<and> [] \<notin> set chunks
    \<and> parse_all m (concat chunks) = (first # ad_frames conn, None, unread (ad_buffer conn))
    \<and> method_id (header first) = AUTH_METHOD_ID \<and> payload first = str_bytes token
    \<and> fb_inv (ad_buffer conn) \<and> max_payload_size (ad_buffer conn) = m"
  using assms
proof (induction n arbitrary: fs)
  case (Suc n)
  obtain stream fs1 where acc: "PipeListener_accept F l fs = (Inr stream, fs1)"
    using Suc.prems by (auto split: prod.splits sum.splits)
  obtain x rest where h: "run_auth_handshake (rds (ps_stream stream)) token m = (x, rest)" by fastforce
  show ?case
  proof (cases x)
    case None
    with Suc.prems acc h show ?thesis by simp
  next
    case (Some outcome)
    show ?thesis
    proof (cases outcome)
      case (Adopted fb frames)
      with Suc.prems acc h Some have "conn = \<lparr>ad_reads = rest, ad_buffer = fb, ad_frames = frames\<rparr>"
        by simp
      moreover have "auth_loop (FrameBuffer_with_max_payload m) token (rds (ps_stream stream))
          = (Some (Adopted fb frames), rest)"
        using h Some Adopted by (simp add: run_auth_handshake_def)
      ultimately show ?thesis using auth_loop_adopted [of "FrameBuffer_with_max_payload m"] by fastforce
    next
      case Rejected
      with Suc.prems acc h Some have "accept_loop n F rds l (Some token) m fs1 = (Some (Ok conn), fs')"
        by simp
      then show ?thesis by (rule Suc.IH)
    qed
  qed
qed simp

lemma start_Ok:
  assumes "Client_start n W reg methods events config limit m auth_token fs out hp
      = (Some (Ok client), fs', out', hp')"
  shows "\<exists>path l fs1 fs2 msg u. path = generate_pipe_path True (sw_env W) (sw_pid W) (sw_seq W) (sw_clock W)
    \<and> PipeListener_bind (sw_sockets W) path fs = (Ok l, fs1)
    \<and> build_init_message (sw_to_string W) path (build_schema methods events) = Ok msg
    \<and> write_stdout_line (sw_stdout W) msg out = (Inr u, out')
    \<and> accept_loop n (sw_sockets W) (sw_reads W) l auth_token m fs1 = (Some (Ok (cl_connection client)), fs2)
    \<and> cl_registry client = reg \<and> wh_max_pending (cl_writer client) = max_pending_frames config
    \<and> hp' (wh_pending (cl_writer client)) = 0 \<and> cl_dispatch client = disp_init (unat limit)"
  using assms
  by (auto simp: Client_start_def Let_def spawn_writer_task_def WriterHandle_new_def
      split: prod.splits sum.splits option.splits)

lemma accept_loop_files:
  assumes "socket_contract F files"
  shows "accept_loop n F rds l tok m fs = (r, fs') \<Longrightarrow> files fs' = files fs"
proof (induction n arbitrary: fs)
  case (Suc n)
  obtain x fs1 where a: "PipeListener_accept F l fs = (x, fs1)" by fastforce
  note f = accept_files [OF assms a]
  show ?case
  proof (cases "\<exists>token stream rest. tok = Some token \<and> x = Inr stream
      \<and> run_auth_handshake (rds (ps_stream stream)) token m = (Some Rejected, rest)")
    case True
    with Suc.prems a have "accept_loop n F rds l tok m fs1 = (r, fs')" by auto
    with Suc.IH f show ?thesis by simp
  next
    case False
    with Suc.prems a have "fs' = fs1"
      by (auto simp: Let_def split: sum.splits option.splits prod.splits AuthOutcome.splits)
    with f show ?thesis by simp
  qed
qed simp

section \<open>Properties\<close>

text \<open>C29. The client announces only a path it listens on: nothing is written to standard output
  unless binding the generated path succeeded; what is written is then the \<open>$init\<close> line for
  exactly that path and a schema that lists exactly the methods and events of the registry (all of
  the line when \<open>start\<close> succeeds, else at most a prefix); and a started client has its counter at
  zero and all handler permits free.\<close>

theorem start_announces_bound_path:
  assumes "stdout_contract (sw_stdout W) seen"
    and "lists_map methods (reg_methods reg)" and "lists_map events (reg_events reg)"
    and "path = generate_pipe_path True (sw_env W) (sw_pid W) (sw_seq W) (sw_clock W)"
    and "Client_start n W reg methods events config limit m auth_token fs out hp = (r, fs', out', hp')"
  shows "\<exists>schema.
    (\<forall>name. get_method name schema =
        map_option (\<lambda>e. \<lparr>ms_id = me_id e, ms_response = me_response_type e\<rparr>) (reg_methods reg name)
      \<and> get_event name schema = map_option EventSchema.make (get_event_id reg name))
    \<and> ((\<exists>l fs1. PipeListener_bind (sw_sockets W) path fs = (Ok l, fs1)
        \<and> (out' = out \<or> (\<exists>msg k. build_init_message (sw_to_string W) path schema
             = Ok msg \<and> seen out' = seen out @ take k (msg @ [CHR 0x0A]))))
      \<or> (\<exists>e fs1. PipeListener_bind (sw_sockets W) path fs = (Err e, fs1)
           \<and> r = Some (Err (Fail e)) \<and> out' = out))
    \<and> (\<forall>client. r = Some (Ok client) \<longrightarrow>
      (\<exists>msg. build_init_message (sw_to_string W) path schema = Ok msg
         \<and> seen out' = seen out @ msg @ [CHR 0x0A])
      \<and> hp' (wh_pending (cl_writer client)) = 0 \<and> ds_permits (cl_dispatch client) = unat limit)"
    (is "\<exists>schema. ?lists schema \<and> ?announced schema \<and> (\<forall>client. _ \<longrightarrow> ?started schema client)")
proof (intro exI [of _ "build_schema methods events"] conjI allI impI)
  let ?s = "build_schema methods events"
  show "get_method name ?s =
      map_option (\<lambda>e. \<lparr>ms_id = me_id e, ms_response = me_response_type e\<rparr>) (reg_methods reg name)"
    "get_event name ?s = map_option EventSchema.make (get_event_id reg name)" for name
    using build_schema_announces [OF assms(2,3)] by simp_all
  obtain b fs1 where b: "PipeListener_bind (sw_sockets W) path fs = (b, fs1)" by fastforce
  have line: "\<exists>k. seen o2 = seen out @ take k (msg @ [CHR 0x0A])"
    if "write_stdout_line (sw_stdout W) msg out = (x, o2)" for msg x o2
    using write_stdout_line_spec [OF assms(1) that] by (simp add: newline_def)
  show "?announced ?s"
    using assms(4,5) b line
    by (cases b) (auto simp: Client_start_def Let_def split: prod.splits sum.splits option.splits)
  fix client assume "r = Some (Ok client)"
  with assms(5) have ok: "Client_start n W reg methods events config limit m auth_token fs out hp
      = (Some (Ok client), fs', out', hp')" by simp
  from start_Ok [OF ok] assms(4) write_stdout_line_spec [OF assms(1)]
  show "\<exists>msg. build_init_message (sw_to_string W) path ?s = Ok msg \<and> seen out' = seen out @ msg @ [CHR 0x0A]"
    "hp' (wh_pending (cl_writer client)) = 0" "ds_permits (cl_dispatch client) = unat limit"
    by (fastforce simp: newline_def disp_init_def)+
qed

text \<open>A world in which every call succeeds and the peer sends one AUTH frame, for concrete runs.\<close>

definition sample_world :: "(unit, rstr) start_world" where
  "sample_world = \<lparr>sw_env = (\<lambda>_. None), sw_pid = 7, sw_seq = 0, sw_clock = None,
     sw_sockets = \<lparr>path_exists = (\<lambda>_ _. False), remove_file = (\<lambda>_ fs. (Inr (), fs)),
       unix_listen = (\<lambda>_ fs. (Inr 0, fs)), unix_accept = (\<lambda>_ fs. (Inr 0, fs))\<rparr>,
     sw_to_string = (\<lambda>_. Inr ''init''), sw_stdout = sample_stdout, sw_thread = Inr (),
     sw_reads = (\<lambda>_. [Read (frame_bytes sample_auth)]), sw_channel = (\<lambda>_. Inr 0), sw_semaphore = (\<lambda>_. Ok ()), sw_counter = 0, sw_oneshot = 0, sw_token = 0\<rparr>"

abbreviation sample_start :: "rstr option \<Rightarrow> (nat, unit, rstr) start_result" where
  "sample_start token \<equiv> Client_start 1 sample_world HandlerRegistry_new [] [] WriterConfig_default 256 100
     token () [] (\<lambda>_. 5)"

lemma sample_start_eq:
  "\<exists>client hp. sample_start None = (Some (Ok client), (), ''init'' @ [CHR 0x0A], hp)"
  by (simp add: Client_start_def sample_world_def PipeListener_bind_def PipeListener_accept_def
      build_init_message_def write_stdout_line_def sample_stdout_def spawn_writer_task_def newline_def Let_def)

theorem start_announces_bound_path_witness:
  "\<exists>schema msg. build_init_message (sw_to_string sample_world)
       (generate_pipe_path True (sw_env sample_world) (sw_pid sample_world) (sw_seq sample_world)
         (sw_clock sample_world)) schema = Ok msg
     \<and> get_method ''echo'' schema = None \<and> ''init'' @ [CHR 0x0A] = msg @ [CHR 0x0A]"
proof -
  obtain client hp where s: "sample_start None = (Some (Ok client), (), ''init'' @ [CHR 0x0A], hp)"
    using sample_start_eq by blast
  have "stdout_contract (sw_stdout sample_world) id" by (simp add: sample_world_def)
  from start_announces_bound_path [OF this _ _ refl s] show ?thesis
    by (fastforce simp: HandlerRegistry_new_def)
qed

text \<open>C34. The socket file does not outlive \<open>start\<close>: on a file system that keeps its contract and lets
  the client remove its own file, the file of the generated path exists while the client waits for
  its parent, is gone when \<open>start\<close> has returned, whatever the result, and no other file is touched.\<close>

theorem start_leaves_no_socket:
  assumes "socket_contract (sw_sockets W) files" and "removable (sw_sockets W) files"
    and "path = generate_pipe_path True (sw_env W) (sw_pid W) (sw_seq W) (sw_clock W)"
    and "Client_start n W reg methods events config limit m auth_token fs out hp = (r, fs', out', hp')"
  shows "files fs' = (if r = None then insert path (files fs) else files fs - {path})"
proof -
  obtain b fs1 where b: "PipeListener_bind (sw_sockets W) path fs = (b, fs1)" by fastforce
  note bf = bind_files [OF assms(1,2) b]
  show ?thesis
  proof (cases b)
    case (Inl e)
    with assms(3,4) b bf show ?thesis by (auto simp: Client_start_def Let_def)
  next
    case (Inr l)
    with bf have l: "files fs1 = insert path (files fs)" "pl_path l = path" by auto
    have drop: "files (PipeListener_drop (sw_sockets W) l fs2) = files fs2 - {path}" for fs2
      using listener_drop_files [OF assms(1,2)] l(2) by simp
    obtain a fs2 where a: "accept_loop n (sw_sockets W) (sw_reads W) l auth_token m fs1 = (a, fs2)" by fastforce
    have "files fs2 = insert path (files fs)" using accept_loop_files [OF assms(1) a] l(1) by simp
    with assms(3,4) b Inr l drop a show ?thesis
      by (auto simp: Client_start_def Let_def split: sum.splits option.splits prod.splits)
  qed
qed

definition sample_files :: "rstr set socket_api" where
  "sample_files = \<lparr>path_exists = (\<lambda>p fs. p \<in> fs),
     remove_file = (\<lambda>p fs. if p \<in> fs then (Inr (), fs - {p}) else (Inl (io_error_new OtherIo ''not found''), fs)),
     unix_listen = (\<lambda>p fs. (Inr 0, insert p fs)), unix_accept = (\<lambda>_ fs. (Inr 0, fs))\<rparr>"

abbreviation sample_file_world :: "(rstr set, rstr) start_world" where
  "sample_file_world \<equiv> \<lparr>sw_env = (\<lambda>_. None), sw_pid = 7, sw_seq = 0, sw_clock = None, sw_sockets = sample_files,
     sw_to_string = (\<lambda>_. Inr ''init''), sw_stdout = sample_stdout, sw_thread = Inr (),
     sw_reads = (\<lambda>_. [Read (frame_bytes sample_auth)]), sw_channel = (\<lambda>_. Inr 0), sw_semaphore = (\<lambda>_. Ok ()), sw_counter = 0,
     sw_oneshot = 0, sw_token = 0\<rparr>"

theorem start_leaves_no_socket_witness:
  "fst (snd (Client_start 1 sample_file_world (HandlerRegistry_new :: nat HandlerRegistry) [] [] WriterConfig_default
     256 100 None {''/etc/passwd''} [] (\<lambda>_. 5))) = {''/etc/passwd''}"
proof -
  let ?run = "Client_start 1 sample_file_world (HandlerRegistry_new :: nat HandlerRegistry) [] [] WriterConfig_default
     256 100 None {''/etc/passwd''} [] (\<lambda>_. 5)"
  obtain r fs' out' hp' where run: "?run = (r, fs', out', hp')" by (rule prod_cases4)
  have "socket_contract (sw_sockets sample_file_world) id" "removable (sw_sockets sample_file_world) id"
    by (simp_all add: socket_contract_def removable_def sample_files_def)
  from start_leaves_no_socket [OF this refl run]
  have fs': "fs' = (if r = None then insert (pipe_path_unix (\<lambda>_. None) 7 (rand_u64 0 None 7)) {''/etc/passwd''}
      else {''/etc/passwd''} - {pipe_path_unix (\<lambda>_. None) 7 (rand_u64 0 None 7)})"
    by (simp add: generate_pipe_path_def Let_def)
  have "r \<noteq> None"
    using run by (auto simp: Client_start_def sample_files_def PipeListener_bind_def PipeListener_accept_def
        build_init_message_def write_stdout_line_def sample_stdout_def spawn_writer_task_def Let_def
        split: if_splits)
  moreover have "pipe_path_unix (\<lambda>_. None) 7 (rand_u64 0 None 7) \<noteq> ''/etc/passwd''"
    by (simp add: pipe_path_unix_def unix_runtime_dir_def non_empty_def trim_end_slashes_def Let_def)
  ultimately show ?thesis using run fs' by auto
qed

text \<open>C10. With a token, explicit or from the environment, only a peer that proves it is served: if
  \<open>start\<close> succeeds, the adopted connection began with a valid AUTH frame whose payload is the
  token, and the frames and bytes the client goes on with are the rest of what that peer sent. An
  explicit token takes precedence over the environment, and an empty one disables the check.\<close>

theorem start_requires_token:
  assumes "effective_token (sw_env W) b = Some token"
    and "ClientBuilder_start n W b methods events fs out hp = (Some (Ok client), fs', out', hp')"
  shows "(token \<noteq> [] \<and> (cb_auth_token b = Some token
        \<or> cb_auth_token b = None \<and> sw_env W ''PROCWIRE_TOKEN'' = Some token))
    \<and> (\<exists>c chunks first. sw_reads W c = map Read chunks @ ad_reads (cl_connection client)
      \<and> method_id (header first) = AUTH_METHOD_ID \<and> payload first = str_bytes token
      \<and> list_all (frame_ok (cb_max_payload_size b)) (first # ad_frames (cl_connection client))
      \<and> concat chunks = frame_bytes first @ concat (map frame_bytes (ad_frames (cl_connection client)))
           @ unread (ad_buffer (cl_connection client)))"
proof
  show "token \<noteq> [] \<and> (cb_auth_token b = Some token
        \<or> cb_auth_token b = None \<and> sw_env W ''PROCWIRE_TOKEN'' = Some token)"
    using assms(1) by (auto simp: effective_token_def non_empty_def split: option.splits if_splits)
  obtain l fs1 fs2 where "accept_loop n (sw_sockets W) (sw_reads W) l (Some token)
      (cb_max_payload_size b) fs1 = (Some (Ok (cl_connection client)), fs2)"
    using start_Ok [OF assms(2) [unfolded ClientBuilder_start_def assms(1)]] by blast
  from accept_loop_adopted [OF this] obtain c chunks first where
    *: "sw_reads W c = map Read chunks @ ad_reads (cl_connection client)"
      "parse_all (cb_max_payload_size b) (concat chunks)
         = (first # ad_frames (cl_connection client), None, unread (ad_buffer (cl_connection client)))"
      "method_id (header first) = AUTH_METHOD_ID" "payload first = str_bytes token"
    by blast
  with parse_all_sound [OF *(2)] show "\<exists>c chunks first.
      sw_reads W c = map Read chunks @ ad_reads (cl_connection client)
      \<and> method_id (header first) = AUTH_METHOD_ID \<and> payload first = str_bytes token
      \<and> list_all (frame_ok (cb_max_payload_size b)) (first # ad_frames (cl_connection client))
      \<and> concat chunks = frame_bytes first @ concat (map frame_bytes (ad_frames (cl_connection client)))
           @ unread (ad_buffer (cl_connection client))"
    by (intro exI [of _ c] exI [of _ chunks] exI [of _ first]) simp
qed

lemma sample_builder_start:
  "\<exists>client out hp. ClientBuilder_start 1 sample_world
     (builder_auth_token ''hi'' (builder_max_payload_size 100 (ClientBuilder_new :: nat ClientBuilder)))
     [] [] () [] (\<lambda>_. 5) = (Some (Ok client), (), out, hp)"
proof -
  obtain fb frames rest where r: "run_auth_handshake [Read (frame_bytes sample_auth)] ''hi'' 100
      = (Some (Adopted fb frames), rest)"
    using sample_auth_adopted by blast
  then show ?thesis
    by (simp add: ClientBuilder_start_def Client_start_def sample_world_def PipeListener_bind_def
        PipeListener_accept_def build_init_message_def write_stdout_line_def sample_stdout_def
        spawn_writer_task_def Let_def effective_token_def non_empty_def builder_auth_token_def
        builder_max_payload_size_def ClientBuilder_new_def ABSOLUTE_MAX_PAYLOAD_SIZE_def min_def)
qed

theorem start_requires_token_witness:
  "\<exists>c chunks (first :: Frame) (conn :: adopted). sw_reads sample_world c = map Read chunks @ ad_reads conn
     \<and> method_id (header first) = AUTH_METHOD_ID \<and> payload first = str_bytes ''hi''"
proof -
  let ?b = "builder_auth_token ''hi'' (builder_max_payload_size 100 (ClientBuilder_new :: nat ClientBuilder))"
  have tok: "effective_token (sw_env sample_world) ?b = Some ''hi''"
    by (simp add: effective_token_def non_empty_def builder_auth_token_def)
  obtain client out hp where
    started: "ClientBuilder_start 1 sample_world ?b [] [] () [] (\<lambda>_. 5) = (Some (Ok client), (), out, hp)"
    using sample_builder_start by blast
  from start_requires_token [OF tok started] show ?thesis by blast
qed

text \<open>A silent connection blocks the real parent: while authentication is on and an accepted
  peer sends nothing and stays connected, the accept loop does not look at any other connection,
  however long it runs.\<close>

theorem silent_peer_blocks_accept:
  assumes "PipeListener_accept F l fs = (Ok stream, fs1)" and "rds (ps_stream stream) = []"
  shows "accept_loop n F rds l (Some token) m fs = (None, if n = 0 then fs else fs1)"
  using assms by (cases n) (simp_all add: run_auth_handshake_def)

theorem silent_peer_blocks_accept_witness:
  "accept_loop 5 (sw_sockets sample_world) (\<lambda>_. []) \<lparr>pl_listener = 0, pl_path = ''/tmp/p''\<rparr> (Some ''hi'') 100 ()
     = (None, ())"
  using silent_peer_blocks_accept [of "sw_sockets sample_world" "\<lparr>pl_listener = 0, pl_path = ''/tmp/p''\<rparr>" "()"
      "\<lparr>ps_stream = 0\<rparr>" "()" "\<lambda>_. []" 5 "''hi''" 100]
  by (simp add: sample_world_def PipeListener_accept_def)

text \<open>Events: emitting a registered event that is accepted puts exactly one frame into the
  channel, an event frame (to the parent, no response, request id 0) with the event's id and the
  payload; an unknown event and a failed send put nothing there, and the counter stays as it was.\<close>

theorem emit_raw_sends_event:
  "out_sent (Client_emit_raw self event data env) =
     (if out_result (Client_emit_raw self event data env) = Some (Ok ())
      then [OutboundFrame_new (Header_new (the (get_event_id (cl_registry self) event))
              DIRECTION_TO_PARENT 0 (word_of_nat (length data))) data] else [])
   \<and> (get_event_id (cl_registry self) event = None \<longrightarrow>
        out_result (Client_emit_raw self event data env)
          = Some (Err (Protocol (''Unknown event: '' @ event))))
   \<and> (out_result (Client_emit_raw self event data env) \<noteq> None \<longrightarrow>
        (\<forall>p. net_pending (out_ops (Client_emit_raw self event data env)) p
           = p + of_nat (length (out_sent (Client_emit_raw self event data env)))))
   \<and> (\<forall>i n. Header_is_event (Header_new i DIRECTION_TO_PARENT 0 n)
        \<and> Header_is_to_parent (Header_new i DIRECTION_TO_PARENT 0 n)
        \<and> \<not> Header_is_response (Header_new i DIRECTION_TO_PARENT 0 n))"
proof (intro conjI)
  show "out_sent (Client_emit_raw self event data env) =
     (if out_result (Client_emit_raw self event data env) = Some (Ok ())
      then [OutboundFrame_new (Header_new (the (get_event_id (cl_registry self) event))
              DIRECTION_TO_PARENT 0 (word_of_nat (length data))) data] else [])"
    by (cases "get_event_id (cl_registry self) event")
      (simp_all add: event_sent event_frame_def, simp add: Client_emit_raw_def)
  show "get_event_id (cl_registry self) event = None \<longrightarrow>
        out_result (Client_emit_raw self event data env)
          = Some (Err (Protocol (''Unknown event: '' @ event)))"
    by (simp add: Client_emit_raw_def unknown_event_def)
  show "out_result (Client_emit_raw self event data env) \<noteq> None \<longrightarrow>
        (\<forall>p. net_pending (out_ops (Client_emit_raw self event data env)) p
           = p + of_nat (length (out_sent (Client_emit_raw self event data env))))"
    by (cases "get_event_id (cl_registry self) event") (simp_all add: Client_emit_raw_def ws.net_eq)
  show "\<forall>i n. Header_is_event (Header_new i DIRECTION_TO_PARENT 0 n)
        \<and> Header_is_to_parent (Header_new i DIRECTION_TO_PARENT 0 n)
        \<and> \<not> Header_is_response (Header_new i DIRECTION_TO_PARENT 0 n)"
    by (simp add: Header_is_event_def Header_is_to_parent_def Header_is_response_def Header_new_def
        has_flag_def flag_bits)
qed

abbreviation sample_client :: "nat Client" where
  "sample_client \<equiv> \<lparr>cl_registry = HandlerRegistry_new\<lparr>reg_events := [''tick'' \<mapsto> 3]\<rparr>,
     cl_writer = sample_writer, cl_shutdown_rx = 0, cl_shutdown_token = 0, cl_connection = \<lparr>ad_reads = [],
       ad_buffer = FrameBuffer_with_max_payload 100, ad_frames = []\<rparr>, cl_dispatch = disp_init 1\<rparr>"

theorem emit_raw_sends_event_witness:
  "out_sent (Client_emit_raw sample_client ''tick'' [1] sample_env)
     = [OutboundFrame_new (Header_new 3 DIRECTION_TO_PARENT 0 1) [1]]"
proof -
  have "out_result (Client_emit_raw sample_client ''tick'' [1] sample_env) = Some (Ok ())"
    by (simp add: Client_emit_raw_def get_event_id_def send_room WriterHandle_new_def)
  with emit_raw_sends_event [of sample_client "''tick''" "[1]" sample_env] show ?thesis
    by (simp add: get_event_id_def)
qed

end
