(* ===== verification/Connection.thy ===== *)
theory Connection
  imports Client_Service Client "HOL-Library.Sublist"
begin

text \<open>
  An adopted connection as a whole (\<open>read_loop\<close> of \<open>src/client.rs\<close> with everything it starts): the read
  loop reads whatever the socket gives, its frame buffer cuts that into frames, each frame is
  dispatched in its turn, and between any two of these steps the tasks and the writer task of
  \<open>Client_System\<close> move on, panics of user code included. What has been dispatched is tied to the bytes read, so the answers can be
  compared with what the parent sent.
\<close>

section \<open>Model\<close>

text \<open>The frames \<open>dispatch_frame\<close> takes for requests.\<close>

definition request_frame :: "Frame \<Rightarrow> bool" where
  "request_frame f \<longleftrightarrow> method_id (header f) \<noteq> ABORT_METHOD_ID \<and> method_id (header f) \<noteq> AUTH_METHOD_ID
     \<and> \<not> Header_is_response (header f)"

text \<open>The client, the frame buffer, the frames of the last read still to be dispatched and the loop's
  result once it has returned. The bytes read so far, the frames dispatched so far and the requests
  among them that were dropped for want of a permit are history variables, which no step reads.\<close>

record 'v connection =
  cn_client :: "'v client_sys"
  cn_buffer :: FrameBuffer
  cn_frames :: "Frame list"
  cn_result :: "(unit, fault) result option"
  cn_read :: bytes
  cn_done :: "Frame list"
  cn_dropped :: "Frame list"

text \<open>A step of the client that is none of the read loop's.\<close>

definition inner_step ::
  "'v msgpack \<Rightarrow> 'v HandlerRegistry \<Rightarrow> WriterHandle \<Rightarrow> nat \<Rightarrow> nat \<Rightarrow> 'v client_sys \<Rightarrow> 'v client_sys \<Rightarrow> bool" where
  "inner_step C reg w cap n s t \<longleftrightarrow> crash_step C reg w cap n s t
     \<and> ds_started (cy_disp t) = ds_started (cy_disp s)
     \<and> cs_cancelled (ds_ctx (cy_disp t)) = cs_cancelled (ds_ctx (cy_disp s))"

inductive conn_step ::
  "'v msgpack \<Rightarrow> 'v HandlerRegistry \<Rightarrow> WriterHandle \<Rightarrow> nat \<Rightarrow> nat \<Rightarrow> 'v connection \<Rightarrow> 'v connection \<Rightarrow> bool"
  for C reg w cap n where
  c_read: "cn_result s = None \<Longrightarrow> cn_frames s = [] \<Longrightarrow> data \<noteq> [] \<Longrightarrow> push (cn_buffer s) data = (Ok frames, fb) \<Longrightarrow>
    conn_step C reg w cap n s (s\<lparr>cn_buffer := fb, cn_frames := frames, cn_read := cn_read s @ data\<rparr>)"
| c_framing: "cn_result s = None \<Longrightarrow> cn_frames s = [] \<Longrightarrow> data \<noteq> [] \<Longrightarrow> push (cn_buffer s) data = (Err e, fb) \<Longrightarrow>
    conn_step C reg w cap n s (s\<lparr>cn_buffer := fb, cn_result := Some (Err e), cn_read := cn_read s @ data\<rparr>)"
| c_closed: "cn_result s = None \<Longrightarrow> cn_frames s = [] \<Longrightarrow>
    conn_step C reg w cap n s (s\<lparr>cn_result := Some (Ok ())\<rparr>)"
| c_fails: "cn_result s = None \<Longrightarrow> cn_frames s = [] \<Longrightarrow>
    conn_step C reg w cap n s (s\<lparr>cn_result := Some (Err (Fail (Io e)))\<rparr>)"
| c_ignore: "cn_frames s = frame # frames \<Longrightarrow>
    dispatch_frame C reg w frame (cy_disp (cn_client s)) = (None, ds) \<Longrightarrow>
    conn_step C reg w cap n s
      (s\<lparr>cn_client := (cn_client s)\<lparr>cy_disp := ds\<rparr>, cn_frames := frames, cn_done := cn_done s @ [frame],
         cn_dropped := cn_dropped s @ (if request_frame frame then [frame] else [])\<rparr>)"
| c_spawn: "cn_frames s = frame # frames \<Longrightarrow>
    dispatch_frame C reg w frame (cy_disp (cn_client s)) = (Some tk, ds) \<Longrightarrow>
    i < n \<Longrightarrow> cy_threads (cn_client s) i = TFree \<Longrightarrow>
    conn_step C reg w cap n s
      (s\<lparr>cn_client := (cn_client s)\<lparr>cy_disp := ds,
           cy_threads := (cy_threads (cn_client s))(i := TRun (tk_ctx tk) (tk_prog tk) True)\<rparr>,
         cn_frames := frames, cn_done := cn_done s @ [frame]\<rparr>)"
| c_inner: "inner_step C reg w cap n (cn_client s) t \<Longrightarrow> conn_step C reg w cap n s (s\<lparr>cn_client := t\<rparr>)"

text \<open>The connection as the handshake leaves it: what is in the buffer and the frames behind AUTH.\<close>

definition conn_init :: "nat \<Rightarrow> FrameBuffer \<Rightarrow> Frame list \<Rightarrow> 'v connection" where
  "conn_init limit fb frames = \<lparr>cn_client = client_init limit, cn_buffer = fb, cn_frames = frames,
     cn_result = None, cn_read = [], cn_done = [], cn_dropped = []\<rparr>"

section \<open>The connection runs the client\<close>

lemma conn_step_client:
  assumes "conn_step C reg w cap n s t"
  shows "(crash_step C reg w cap n)\<^sup>=\<^sup>= (cn_client s) (cn_client t)"
  using assms by cases (auto simp: inner_step_def intro: z_step y_ignore y_spawn)

lemma conn_steps_client:
  "(conn_step C reg w cap n)\<^sup>*\<^sup>* s t \<Longrightarrow> (crash_step C reg w cap n)\<^sup>*\<^sup>* (cn_client s) (cn_client t)"
proof (induction rule: rtranclp_induct)
  case (step t u)
  from conn_step_client [OF step.hyps(2)] step.IH show ?case by auto
qed simp

lemma conn_reachable:
  "(conn_step C reg w cap n)\<^sup>*\<^sup>* (conn_init limit fb frames) s \<Longrightarrow>
   (crash_step C reg w cap n)\<^sup>*\<^sup>* (client_init limit) (cn_client s)"
  using conn_steps_client [of C reg w cap n "conn_init limit fb frames" s] by (simp add: conn_init_def)

section \<open>What has been dispatched\<close>

text \<open>While the stream is valid, the frames dispatched and to be dispatched are those of the handshake
  followed by those of the bytes read; behind a framing error nothing more is dispatched.\<close>

definition input_inv :: "FrameBuffer \<Rightarrow> Frame list \<Rightarrow> 'v connection \<Rightarrow> bool" where
  "input_inv fb frames s \<longleftrightarrow> (cn_result s \<noteq> None \<longrightarrow> cn_frames s = []) \<and> (
     (\<exists>gs. parse_all (max_payload_size fb) (unread fb @ cn_read s) = (gs, None, unread (cn_buffer s))
        \<and> fb_inv (cn_buffer s) \<and> max_payload_size (cn_buffer s) = max_payload_size fb
        \<and> frames @ gs = cn_done s @ cn_frames s)
   \<or> (\<exists>gs x e r. cn_result s = Some (Err x)
        \<and> parse_all (max_payload_size fb) (unread fb @ cn_read s) = (gs, Some e, r)
        \<and> prefix (cn_done s) (frames @ gs)))"

lemma input_inv_init: "drained_buffer fb \<Longrightarrow> input_inv fb frames (conn_init limit fb frames)"
  by (simp add: input_inv_def conn_init_def frame_simps)

lemma input_inv_push:
  assumes "input_inv fb frames s" and "cn_result s = None" and "cn_frames s = []"
  shows "push (cn_buffer s) data = (Ok gs, fb') \<Longrightarrow>
      input_inv fb frames (s\<lparr>cn_buffer := fb', cn_frames := gs, cn_read := cn_read s @ data\<rparr>)"
    and "push (cn_buffer s) data = (Err e, fb') \<Longrightarrow>
      input_inv fb frames (s\<lparr>cn_buffer := fb', cn_result := Some (Err e), cn_read := cn_read s @ data\<rparr>)"
proof -
  let ?m = "max_payload_size fb"
  obtain hs where pa: "parse_all ?m (unread fb @ cn_read s) = (hs, None, unread (cn_buffer s))"
    and fb: "fb_inv (cn_buffer s)" "max_payload_size (cn_buffer s) = ?m" and hs: "frames @ hs = cn_done s"
    using assms by (auto simp: input_inv_def)
  note more = parse_all_append [of ?m "unread fb @ cn_read s" data]
  show "input_inv fb frames (s\<lparr>cn_buffer := fb', cn_frames := gs, cn_read := cn_read s @ data\<rparr>)"
    if p: "push (cn_buffer s) data = (Ok gs, fb')"
  proof -
    obtain r where r: "parse_all ?m (unread (cn_buffer s) @ data) = (gs, None, r)" "fb' = settle ?m r"
      using p push_Ok_iff [OF fb(1)] fb(2) by auto
    have "fb_inv fb'" using parse_all_rest_None [OF r(1)] r(2) by (simp add: fb_inv_settle)
    with more pa r hs assms(2) show ?thesis by (auto simp: input_inv_def)
  qed
  show "input_inv fb frames (s\<lparr>cn_buffer := fb', cn_result := Some (Err e), cn_read := cn_read s @ data\<rparr>)"
    if p: "push (cn_buffer s) data = (Err e, fb')"
  proof -
    obtain gs x r where "parse_all ?m (unread (cn_buffer s) @ data) = (gs, Some x, r)"
      using p push_Err_iff [OF fb(1)] fb(2) by auto
    with more pa hs [symmetric] assms(3) show ?thesis by (auto simp: input_inv_def)
  qed
qed

lemma input_inv_step:
  assumes "input_inv fb frames s" and "conn_step C reg w cap n s t"
  shows "input_inv fb frames t"
  using assms(2)
proof (cases rule: conn_step.cases)
  case (c_read data gs fb')
  with input_inv_push(1) [OF assms(1)] show ?thesis by simp
next
  case (c_framing data e fb')
  with input_inv_push(2) [OF assms(1)] show ?thesis by simp
qed (use assms(1) in \<open>auto simp: input_inv_def\<close>)

section \<open>What has been started\<close>

lemma dispatch_frame_request:
  "dispatch_frame C reg w f ds = (None, ds') \<Longrightarrow> \<not> request_frame f \<or> ds_permits ds = 0"
  "dispatch_frame C reg w f ds = (Some tk, ds') \<Longrightarrow> request_frame f"
  by (auto simp: dispatch_frame_def request_frame_def Let_def split: if_splits option.splits prod.splits)

text \<open>The tasks started are those of requests dispatched, in their order; the requests started and the
  requests dropped are the requests dispatched; a request is dropped only when all permits are out,
  which takes as many requests before it as there are permits.\<close>

definition intake_inv :: "nat \<Rightarrow> 'v connection \<Rightarrow> bool" where
  "intake_inv limit s \<longleftrightarrow> (let ds = cy_disp (cn_client s); calls = filter request_frame (cn_done s) in
     subseq (ds_started ds) calls \<and> mset (ds_started ds) + mset (cn_dropped s) = mset calls
     \<and> limit \<le> ds_permits ds + length (ds_started ds)
     \<and> (cn_dropped s \<noteq> [] \<longrightarrow> limit \<le> length (ds_started ds)))"

lemma intake_inv_init: "intake_inv limit (conn_init limit fb frames)"
  by (simp add: intake_inv_def conn_init_def client_init_def disp_init_def)

lemma crash_step_permits:
  assumes "crash_step C reg w cap n s t" and "ds_started (cy_disp t) = ds_started (cy_disp s)"
  shows "ds_permits (cy_disp s) \<le> ds_permits (cy_disp t)"
  using assms(1)
proof cases
  case z_step
  then show ?thesis using assms(2)
    by (cases rule: client_step.cases) (auto dest: dispatch_frame_none(1) dispatch_frame_spawn(5))
qed simp

lemma intake_inv_step:
  assumes "intake_inv limit s" and "conn_step C reg w cap n s t"
  shows "intake_inv limit t"
  using assms(2)
proof (cases rule: conn_step.cases)
  case (c_ignore frame frames ds)
  with dispatch_frame_none [OF c_ignore(3)] dispatch_frame_request(1) [OF c_ignore(3)] assms(1) show ?thesis
    by (auto simp: intake_inv_def Let_def)
next
  case (c_spawn frame frames tk ds i)
  with dispatch_frame_request(2) [OF c_spawn(3)] dispatch_frame_spawn(5) [OF c_spawn(3)]
    dispatch_frame_cases(2) [OF c_spawn(3)] assms(1) show ?thesis
    by (auto simp: intake_inv_def Let_def)
next
  case (c_inner u)
  with crash_step_permits [of C reg w cap n "cn_client s" u] assms(1) show ?thesis
    by (auto simp: intake_inv_def inner_step_def Let_def)
qed (use assms(1) in \<open>auto simp: intake_inv_def Let_def\<close>)

interpretation conn: invariant_system "\<lambda>s. drained_buffer fb \<and> s = conn_init limit fb frames" "conn_step C reg w cap n"
  "\<lambda>s. input_inv fb frames s \<and> intake_inv limit s" for C reg w cap n limit fb frames
  by unfold_locales (auto simp: input_inv_init intake_inv_init intro: input_inv_step intake_inv_step)

text \<open>The requests among the frames of the handshake and of the bytes read.\<close>

definition calls :: "FrameBuffer \<Rightarrow> Frame list \<Rightarrow> bytes \<Rightarrow> Frame list" where
  "calls fb frames bs = filter request_frame (frames @ fst (parse_all (max_payload_size fb) (unread fb @ bs)))"

lemma started_calls:
  assumes "drained_buffer fb" and "(conn_step C reg w cap n)\<^sup>*\<^sup>* (conn_init limit fb frames) s"
  shows "subseq (ds_started (cy_disp (cn_client s))) (calls fb frames (cn_read s))"
    and "cn_result s = Some (Ok ()) \<Longrightarrow>
      mset (ds_started (cy_disp (cn_client s))) + mset (cn_dropped s) = mset (calls fb frames (cn_read s))"
    and "cn_result s = Some (Ok ()) \<Longrightarrow> fst (snd (parse_all (max_payload_size fb) (unread fb @ cn_read s))) = None"
    and "cn_dropped s \<noteq> [] \<Longrightarrow> limit < length (calls fb frames (cn_read s))"
proof -
  have inp: "input_inv fb frames s" and tak: "intake_inv limit s"
    using conn.inv_reachable [OF conjI [OF assms(1) refl] assms(2)] by blast+
  note taken = tak [unfolded intake_inv_def Let_def]
  have "prefix (cn_done s) (frames @ fst (parse_all (max_payload_size fb) (unread fb @ cn_read s)))"
    using inp by (auto simp: input_inv_def)
  then have sub: "subseq (filter request_frame (cn_done s)) (calls fb frames (cn_read s))"
    unfolding calls_def by (intro subseq_filter) (rule prefix_imp_subseq)
  with taken show "subseq (ds_started (cy_disp (cn_client s))) (calls fb frames (cn_read s))"
    by (blast intro: subseq_order.order_trans)
  show "limit < length (calls fb frames (cn_read s))" if "cn_dropped s \<noteq> []"
  proof -
    have "length (ds_started (cy_disp (cn_client s))) + length (cn_dropped s) = length (filter request_frame (cn_done s))"
      using taken by (metis size_mset size_union)
    with taken that list_emb_length [OF sub] show ?thesis by (cases "cn_dropped s") simp_all
  qed
  assume closed: "cn_result s = Some (Ok ())"
  with inp show "fst (snd (parse_all (max_payload_size fb) (unread fb @ cn_read s))) = None"
    by (auto simp: input_inv_def)
  have "calls fb frames (cn_read s) = filter request_frame (cn_done s)"
    using inp closed by (auto simp: input_inv_def calls_def simp del: filter_append)
  with taken show "mset (ds_started (cy_disp (cn_client s))) + mset (cn_dropped s) = mset (calls fb frames (cn_read s))"
    by simp
qed

lemma requests_mset: "mset xs + mset ys = mset zs \<Longrightarrow> requests ids xs + requests ids ys = requests ids zs"
  by (drule arg_cong [of _ _ "\<lambda>M. size (filter_mset (\<lambda>f. frame_ids f = ids) M)"])
    (simp add: requests_def flip: size_mset)

lemma requests_subseq: "subseq xs ys \<Longrightarrow> requests ids xs \<le> requests ids ys"
  unfolding requests_def by (rule list_emb_length) (rule subseq_filter)

lemma subseq_set: "subseq xs ys \<Longrightarrow> set xs \<subseteq> set ys"
  by (auto elim: list_emb_set)

section \<open>Undisturbed runs\<close>

definition smooth_step ::
  "'v msgpack \<Rightarrow> 'v HandlerRegistry \<Rightarrow> WriterHandle \<Rightarrow> nat \<Rightarrow> nat \<Rightarrow> 'v connection \<Rightarrow> 'v connection \<Rightarrow> bool" where
  "smooth_step C reg w cap n s t \<longleftrightarrow> conn_step C reg w cap n s t \<and> faultless (cn_client s) (cn_client t)"

lemma smooth_steps: "(smooth_step C reg w cap n)\<^sup>*\<^sup>* s t \<Longrightarrow> (conn_step C reg w cap n)\<^sup>*\<^sup>* s t"
  by (erule mono_rtranclp [rule_format, rotated]) (simp add: smooth_step_def)

interpretation smooth: invariant_system "\<lambda>s. responsible_registry reg \<and> s = conn_init limit fb frames"
  "smooth_step C reg w cap n"
  "\<lambda>s. responsible_registry reg \<and> exact_inv n (cn_client s) \<and> service_inv (cn_client s)" for C reg w cap n limit fb frames
proof
  show "responsible_registry reg \<and> exact_inv n (cn_client s) \<and> service_inv (cn_client s)"
    if "responsible_registry reg \<and> s = conn_init limit fb frames" for s :: "'a connection"
    using that by (simp add: conn_init_def exact_inv_init service_inv_init)
  show "responsible_registry reg \<and> exact_inv n (cn_client t) \<and> service_inv (cn_client t)"
    if inv: "responsible_registry reg \<and> exact_inv n (cn_client s) \<and> service_inv (cn_client s)"
      and step: "smooth_step C reg w cap n s t" for s t
    using conn_step_client [of C reg w cap n s t] step inv exact_inv_step [of n "cn_client s" C reg w cap "cn_client t"]
      service_inv_crash [of "cn_client s" C reg w cap n "cn_client t"] by (auto simp: smooth_step_def)
qed

text \<open>Once the parent has closed the connection and all tasks have ended, each request that was not
  dropped has been answered once.\<close>

lemma calls_answered:
  assumes "drained_buffer fb" and "(smooth_step C reg w cap n)\<^sup>*\<^sup>* (conn_init limit fb frames) s"
    and "responsible_registry reg" and "cn_result s = Some (Ok ())" and "\<forall>i. cy_threads (cn_client s) i = TFree"
  shows "answers_in ids (ws_accepted (cy_writer (cn_client s))) + requests ids (cn_dropped s)
    = requests ids (calls fb frames (cn_read s))"
proof -
  have "exact_inv n (cn_client s)" "service_inv (cn_client s)"
    using smooth.inv_reachable [OF conjI [OF assms(3) refl] assms(2)] by blast+
  from all_answered [OF this assms(5)]
    requests_mset [OF started_calls(2) [OF assms(1) smooth_steps [OF assms(2)] assms(4)], of ids]
  show ?thesis by simp
qed

section \<open>From start to the connection\<close>

text \<open>The last steps of \<open>Client::start\<close>: the writer task and the read loop are spawned on the adopted
  connection.\<close>

definition adopted_connection :: "'v Client \<Rightarrow> 'v connection" where
  "adopted_connection client = \<lparr>cn_client = \<lparr>cy_disp = cl_dispatch client, cy_threads = (\<lambda>_. TFree), cy_writer = writer_init\<rparr>,
     cn_buffer = ad_buffer (cl_connection client), cn_frames = ad_frames (cl_connection client),
     cn_result = None, cn_read = [], cn_done = [], cn_dropped = []\<rparr>"

lemma started_connection:
  assumes "effective_token (sw_env W) b = Some token"
    and "ClientBuilder_start k W b methods events fs out hp = (Some (Ok client), fs', out', hp')"
  shows "adopted_connection client = conn_init (unat (cb_max_concurrent_handlers b))
        (ad_buffer (cl_connection client)) (ad_frames (cl_connection client))"
    and "cl_registry client = cb_registry b" and "drained_buffer (ad_buffer (cl_connection client))"
    and "\<exists>c past first gs e r. sw_reads W c = map Read past @ ad_reads (cl_connection client)
      \<and> parse_all (cb_max_payload_size b) (concat past @ bs) = (first # gs, e, r)
      \<and> method_id (header first) = AUTH_METHOD_ID \<and> payload first = str_bytes token
      \<and> calls (ad_buffer (cl_connection client)) (ad_frames (cl_connection client)) bs = filter request_frame gs
      \<and> e = fst (snd (parse_all (max_payload_size (ad_buffer (cl_connection client)))
          (unread (ad_buffer (cl_connection client)) @ bs)))"
proof -
  let ?m = "cb_max_payload_size b" and ?conn = "cl_connection client"
  from start_Ok [OF assms(2) [unfolded ClientBuilder_start_def assms(1)]] obtain l fs1 fs2 where
    acc: "accept_loop k (sw_sockets W) (sw_reads W) l (Some token) ?m fs1 = (Some (Ok ?conn), fs2)"
    and reg: "cl_registry client = cb_registry b"
    and disp: "cl_dispatch client = disp_init (unat (cb_max_concurrent_handlers b))" by blast
  from accept_loop_adopted [OF acc] obtain c past first where
    ad: "sw_reads W c = map Read past @ ad_reads ?conn"
      "parse_all ?m (concat past) = (first # ad_frames ?conn, None, unread (ad_buffer ?conn))"
      "method_id (header first) = AUTH_METHOD_ID" "payload first = str_bytes token"
      "fb_inv (ad_buffer ?conn)" "max_payload_size (ad_buffer ?conn) = ?m" by blast
  show "adopted_connection client = conn_init (unat (cb_max_concurrent_handlers b)) (ad_buffer ?conn) (ad_frames ?conn)"
    by (simp add: adopted_connection_def conn_init_def client_init_def disp)
  show "cl_registry client = cb_registry b" by (rule reg)
  show "drained_buffer (ad_buffer ?conn)" using parse_all_rest_None [OF ad(2)] ad(5,6) by simp
  obtain hs e r where hs: "parse_all ?m (unread (ad_buffer ?conn) @ bs) = (hs, e, r)" by (rule prod_cases3)
  with parse_all_append [of ?m "concat past" bs] ad(2)
  have "parse_all ?m (concat past @ bs) = (first # ad_frames ?conn @ hs, e, r)" by simp
  with ad hs show "\<exists>c past first gs e r. sw_reads W c = map Read past @ ad_reads ?conn
      \<and> parse_all ?m (concat past @ bs) = (first # gs, e, r)
      \<and> method_id (header first) = AUTH_METHOD_ID \<and> payload first = str_bytes token
      \<and> calls (ad_buffer ?conn) (ad_frames ?conn) bs = filter request_frame gs
      \<and> e = fst (snd (parse_all (max_payload_size (ad_buffer ?conn)) (unread (ad_buffer ?conn) @ bs)))"
    unfolding calls_def by (metis fst_conv snd_conv)
qed

section \<open>A run\<close>

text \<open>The task of a request for an unknown method at every point of its course, with the writer task.\<close>

abbreviation sample_running :: "disp_state \<Rightarrow> nat thread \<Rightarrow> writer_sys \<Rightarrow> nat client_sys" where
  "sample_running ds t v \<equiv> \<lparr>cy_disp = ds, cy_threads = (\<lambda>_. TFree)(0 := t), cy_writer = v\<rparr>"

abbreviation sample_conn :: "FrameBuffer \<Rightarrow> nat client_sys \<Rightarrow> nat connection" where
  "sample_conn fb cs \<equiv> \<lparr>cn_client = cs, cn_buffer = fb, cn_frames = [], cn_result = None, cn_read = [],
     cn_done = [sample_frame], cn_dropped = []\<rparr>"

lemma sample_smooth:
  assumes "client_step sample_codec sample_reg w 8 2 (sample_running ds t v) (sample_running ds' t' v')"
    and "ds_started ds' = ds_started ds" and "cs_cancelled (ds_ctx ds') = cs_cancelled (ds_ctx ds)"
    and "writer_alive v'" and "\<And>ctx op k root. t = TMarked ctx op k root \<Longrightarrow> sending t'"
    and "t' = TRelease \<Longrightarrow> \<exists>ctx. t = TForget ctx"
  shows "smooth_step sample_codec sample_reg w 8 2 (sample_conn fb (sample_running ds t v)) (sample_conn fb (sample_running ds' t' v'))"
  using assms z_step [OF assms(1)] c_inner [of sample_codec sample_reg w 8 2 "sample_conn fb (sample_running ds t v)" "sample_running ds' t' v'"]
  by (auto simp: smooth_step_def inner_step_def faultless_def)

text \<open>The end of the task, and the writer task writing the only frame before the parent closes.\<close>

lemma sample_task_end:
  assumes "writer_alive v"
  shows "\<exists>ds'. (smooth_step sample_codec sample_reg w 8 2)\<^sup>*\<^sup>* (sample_conn fb (sample_running ds (TRun ctx (HDone (Ok ())) True) v))
    (sample_conn fb (sample_running ds' TFree v))"
proof -
  let ?smooth = "smooth_step sample_codec sample_reg w 8 2"
  define d1 where "d1 = ds\<lparr>ds_active := (ds_active ds)(rc_request_id ctx := None)\<rparr>"
  define d2 where "d2 = d1\<lparr>ds_permits := ds_permits d1 + 1\<rparr>"
  have "?smooth (sample_conn fb (sample_running ds (TRun ctx (HDone (Ok ())) True) v)) (sample_conn fb (sample_running ds (TForget ctx) v))"
    using y_local [of 0 2 "sample_running ds (TRun ctx (HDone (Ok ())) True) v"] assms by (intro sample_smooth) simp_all
  moreover have "?smooth (sample_conn fb (sample_running ds (TForget ctx) v)) (sample_conn fb (sample_running d1 TRelease v))"
    using y_forget [of 0 2 "sample_running ds (TForget ctx) v" ctx] assms by (intro sample_smooth) (simp_all add: d1_def)
  moreover have "?smooth (sample_conn fb (sample_running d1 TRelease v)) (sample_conn fb (sample_running d2 TFree v))"
    using y_release [of 0 2 "sample_running d1 TRelease v"] assms by (intro sample_smooth) (simp_all add: d2_def)
  ultimately show ?thesis by (meson rtranclp.intros)
qed

lemma sample_writes:
  assumes "ws_writer v = WWait" and "ws_queue v = [f]" and "ws_sender v = (\<lambda>_. SIdle)" and "ws_written v = []"
    and "ws_wire v = []" and "outbound_ok f"
  shows "\<exists>s. (smooth_step sample_codec sample_reg w 8 2)\<^sup>*\<^sup>* (sample_conn fb (sample_running ds TFree v)) s
    \<and> cn_result s = Some (Ok ()) \<and> cn_read s = [] \<and> cn_dropped s = [] \<and> (\<forall>i. cy_threads (cn_client s) i = TFree)
    \<and> settled (cy_writer (cn_client s)) \<and> ws_accepted (cy_writer (cn_client s)) = ws_accepted v
    \<and> ws_wire (cy_writer (cn_client s)) = outbound_bytes f"
proof -
  let ?smooth = "smooth_step sample_codec sample_reg w 8 2" and ?b = "batch_bytes [f]"
  define v1 where "v1 = v\<lparr>ws_queue := [], ws_writer := WBatch [f], ws_partial := 0\<rparr>"
  define v2 where "v2 = v1\<lparr>ws_partial := length ?b,
    ws_wire := ws_wire v1 @ take (length ?b - ws_partial v1) (drop (ws_partial v1) ?b)\<rparr>"
  define v3 where "v3 = v2\<lparr>ws_writer := WWritten [f], ws_written := ws_written v2 @ [f]\<rparr>"
  define v4 where "v4 = v3\<lparr>ws_pending := ws_pending v3 - of_nat (length [f]), ws_writer := WWait\<rparr>"
  let ?s = "(sample_conn fb (sample_running ds TFree v4))\<lparr>cn_result := Some (Ok ())\<rparr>"
  note vs = v1_def v2_def v3_def v4_def writer_alive_def
  have smooth: "?smooth (sample_conn fb (sample_running ds TFree u)) (sample_conn fb (sample_running ds TFree u'))"
    if "writer_step (wh_max_pending w) 8 0 u u'" "writer_alive u'" for u u'
    using y_writer [of w 8 "sample_running ds TFree u" u'] that by (intro sample_smooth) simp_all
  have "writer_step (wh_max_pending w) 8 0 v v1" using assms(1,2) by (simp add: v1_def w_recv)
  moreover have "writer_step (wh_max_pending w) 8 0 v1 v2"
    unfolding v2_def using outbound_bytes_nonempty [OF assms(6)] by (intro w_part) (simp_all add: v1_def)
  moreover have "writer_step (wh_max_pending w) 8 0 v2 v3"
    unfolding v3_def by (intro w_write) (simp_all add: v1_def v2_def)
  moreover have "writer_step (wh_max_pending w) 8 0 v3 v4" unfolding v4_def by (intro w_release) (simp add: v3_def)
  moreover have "?smooth (sample_conn fb (sample_running ds TFree v4)) ?s"
    using c_closed [of "sample_conn fb (sample_running ds TFree v4)"]
    by (simp add: smooth_step_def faultless_def vs)
  ultimately have "?smooth\<^sup>*\<^sup>* (sample_conn fb (sample_running ds TFree v)) ?s"
    using smooth [of v v1] smooth [of v1 v2] smooth [of v2 v3] smooth [of v3 v4]
    by (simp add: vs)
  moreover have "settled (cy_writer (cn_client ?s))" "ws_accepted (cy_writer (cn_client ?s)) = ws_accepted v"
    "ws_wire (cy_writer (cn_client ?s)) = outbound_bytes f"
    using assms by (simp_all add: settled_def vs)
  ultimately show ?thesis by (intro exI [of _ ?s]) simp
qed

text \<open>A terminal operation that finds the flag clear and the counter and the channel empty.\<close>

lemma sample_operation:
  assumes "\<not> has_responded ctx (ds_ctx ds)" and "0 < wh_max_pending w" and "op_terminal op"
    and "op_payload sample_codec op = Ok data"
  defines "f \<equiv> ctx_frame ctx (op_flags ctx op) data"
  shows "\<exists>ds' v. (smooth_step sample_codec sample_reg w 8 2)\<^sup>*\<^sup>* (sample_conn fb (sample_running ds (TRun ctx (HOp op k) True) writer_init))
      (sample_conn fb (sample_running ds' (TRun ctx (k (Ok ())) True) v))
    \<and> ws_writer v = WWait \<and> ws_queue v = [f] \<and> ws_sender v = (\<lambda>_. SIdle) \<and> ws_written v = []
    \<and> ws_wire v = [] \<and> ws_accepted v = [f]"
proof -
  let ?smooth = "smooth_step sample_codec sample_reg w 8 2" and ?v = writer_init
  define d1 where "d1 = ds\<lparr>ds_ctx := snd (mark_responded ctx (ds_ctx ds))\<rparr>"
  define v1 where "v1 = ?v\<lparr>ws_sender := (ws_sender ?v)(0 := SCleared f)\<rparr>"
  define v2 where "v2 = v1\<lparr>ws_pending := ws_pending v1 + 1, ws_sender := (ws_sender v1)(0 := SAdded f)\<rparr>"
  define v3 where "v3 = v2\<lparr>ws_sender := (ws_sender v2)(0 := SIdle), ws_queue := ws_queue v2 @ [f],
    ws_accepted := ws_accepted v2 @ [f]\<rparr>"
  define at where "at = (\<lambda>ds t v. sample_conn fb (sample_running ds t v))"
  note vs = v1_def v2_def v3_def writer_init_def writer_alive_def
  note run = sample_smooth [where w = w and fb = fb]
  have "?smooth (at ds (TRun ctx (HOp op k) True) ?v) (at d1 (TMarked ctx op k True) ?v)"
    unfolding at_def using y_call [of 0 2 "sample_running ds (TRun ctx (HOp op k) True) ?v" _ "snd (mark_responded ctx (ds_ctx ds))"] assms(1,3)
    by (intro run) (simp_all add: d1_def vs mark_responded_def has_responded_def Let_def)
  moreover have "?smooth (at d1 (TMarked ctx op k True) ?v) (at d1 (TSending ctx k True) v1)"
    unfolding at_def using y_clear [of 0 2 "sample_running d1 (TMarked ctx op k True) ?v" ctx op k True sample_codec data w] assms(2,4)
    by (intro run) (simp_all add: vs f_def)
  moreover have "?smooth (at d1 (TSending ctx k True) v1) (at d1 (TSending ctx k True) v2)"
    unfolding at_def using y_add [of 0 2 "sample_running d1 (TSending ctx k True) v1" f] by (intro run) (simp_all add: vs)
  moreover have "?smooth (at d1 (TSending ctx k True) v2) (at d1 (TRun ctx (k (Ok ())) True) v3)"
    unfolding at_def using y_enqueue [of 0 2 "sample_running d1 (TSending ctx k True) v2" f 8]
    by (intro run) (simp_all add: vs)
  ultimately have "?smooth\<^sup>*\<^sup>* (at ds (TRun ctx (HOp op k) True) ?v) (at d1 (TRun ctx (k (Ok ())) True) v3)"
    by (meson rtranclp.intros)
  moreover have "ws_writer v3 = WWait" "ws_queue v3 = [f]" "ws_sender v3 = (\<lambda>_. SIdle)" "ws_written v3 = []"
    "ws_wire v3 = []" "ws_accepted v3 = [f]"
    by (simp_all add: vs fun_eq_iff)
  ultimately show ?thesis unfolding at_def by blast
qed

lemma sample_spawn_limit:
  assumes "0 < limit"
  shows "\<exists>tk ds. dispatch_frame sample_codec sample_reg w sample_frame (disp_init limit) = (Some tk, ds)
    \<and> tk_prog tk = HDone (Err (HandlerNotFound 1))"
  using assms by (auto simp: dispatch_frame_def with_writer_and_token_def Let_def disp_init_def Header_new_def
      ABORT_METHOD_ID_def AUTH_METHOD_ID_def Header_is_response_def dispatch_def get_handler_by_id_def
      HandlerRegistry_new_def)

lemma conn_sample_run:
  assumes "0 < wh_max_pending w" and "0 < limit"
  shows "\<exists>s. (smooth_step sample_codec sample_reg w 8 2)\<^sup>*\<^sup>* (conn_init limit fb [sample_frame]) s
    \<and> cn_result s = Some (Ok ()) \<and> cn_read s = [] \<and> cn_dropped s = [] \<and> (\<forall>i. cy_threads (cn_client s) i = TFree)
    \<and> settled (cy_writer (cn_client s)) \<and> ws_accepted (cy_writer (cn_client s)) = [sample_answer]
    \<and> ws_wire (cy_writer (cn_client s)) = batch_bytes [sample_answer]"
proof -
  let ?smooth = "smooth_step sample_codec sample_reg w 8 2"
  obtain tk ds where tk: "dispatch_frame sample_codec sample_reg w sample_frame (disp_init limit) = (Some tk, ds)"
    and prog: "tk_prog tk = HDone (Err (HandlerNotFound 1))"
    using sample_spawn_limit [OF assms(2)] by blast
  note d = dispatch_frame_spawn [OF tk]
  let ?ctx = "tk_ctx tk" and ?k = "\<lambda>_. HDone (Ok ()) :: nat hprog" and ?v = writer_init
  let ?op = "SendError (ProcwireError_to_string (HandlerNotFound 1)) :: nat ctx_op"
  have fresh: "\<not> has_responded ?ctx (ds_ctx ds)" using d(1,3) by (simp add: has_responded_def flag_new_def)
  have frame: "ctx_frame ?ctx (op_flags ?ctx ?op) [] = sample_answer"
    using d(1) by (simp add: ctx_frame_def error_flags_def get_response_type_by_id_def HandlerRegistry_new_def Header_new_def)
  define at where "at = (\<lambda>ds t v. sample_conn fb (sample_running ds t v))"
  have "?smooth (conn_init limit fb [sample_frame]) (at ds (TRun ?ctx (HDone (Err (HandlerNotFound 1))) True) ?v)"
    using c_spawn [of "conn_init limit fb [sample_frame]" sample_frame "[]" sample_codec sample_reg w tk ds 0 2 8] tk
    by (simp add: at_def smooth_step_def conn_init_def client_init_def prog faultless_def writer_init_def writer_alive_def
        fun_upd_def)
  moreover have "?smooth (at ds (TRun ?ctx (HDone (Err (HandlerNotFound 1))) True) ?v) (at ds (TRun ?ctx (HOp ?op ?k) True) ?v)"
    unfolding at_def using y_local [of 0 2 "sample_running ds (TRun ?ctx (HDone (Err (HandlerNotFound 1))) True) ?v"] fresh
    by (intro sample_smooth) (simp_all add: writer_init_def writer_alive_def)
  ultimately have start: "?smooth\<^sup>*\<^sup>* (conn_init limit fb [sample_frame]) (at ds (TRun ?ctx (HOp ?op ?k) True) ?v)"
    by (meson rtranclp.intros)
  have "op_terminal ?op" "op_payload sample_codec ?op = Ok []"
    by (simp_all add: MsgPackCodec_encode_str_def sample_codec_def)
  from sample_operation [OF fresh assms(1) this, where fb = fb and k = ?k] obtain d1 v where
    mid: "?smooth\<^sup>*\<^sup>* (at ds (TRun ?ctx (HOp ?op ?k) True) ?v) (at d1 (TRun ?ctx (HDone (Ok ())) True) v)"
    and v: "ws_writer v = WWait" "ws_queue v = [sample_answer]" "ws_sender v = (\<lambda>_. SIdle)" "ws_written v = []"
      "ws_wire v = []" "ws_accepted v = [sample_answer]"
    unfolding at_def frame by blast
  have alive: "writer_alive v" by (simp add: writer_alive_def v)
  from sample_task_end [OF alive, where w = w and fb = fb and ds = d1 and ctx = ?ctx] obtain d2 where
    over: "?smooth\<^sup>*\<^sup>* (at d1 (TRun ?ctx (HDone (Ok ())) True) v) (at d2 TFree v)" unfolding at_def by blast
  from sample_writes [OF v(1-5), where w = w and fb = fb and ds = d2] obtain s where
    s: "?smooth\<^sup>*\<^sup>* (at d2 TFree v) s" "cn_result s = Some (Ok ()) \<and> cn_read s = [] \<and> cn_dropped s = []
      \<and> (\<forall>i. cy_threads (cn_client s) i = TFree) \<and> settled (cy_writer (cn_client s))"
      "ws_accepted (cy_writer (cn_client s)) = [sample_answer]" "ws_wire (cy_writer (cn_client s)) = batch_bytes [sample_answer]"
    using v(6) unfolding at_def by auto
  have "?smooth\<^sup>*\<^sup>* (conn_init limit fb [sample_frame]) s"
    using rtranclp_trans [OF rtranclp_trans [OF start mid] rtranclp_trans [OF over s(1)]] .
  with s(2-4) show ?thesis by blast
qed

end
