(* ===== verification/Header_Pool.thy ===== *)
theory Header_Pool
  imports Wire_Format
begin

text \<open>
  The ring of pre-allocated header buffers (\<open>src/protocol/header_pool.rs\<close>). A mutable reference
  to a pooled buffer is the number of its slot; the reference stays valid while the slot's bytes
  are unchanged. The thread-local pool is the pool argument of \<open>encode_header_pooled\<close> and
  \<open>with_header_pool\<close>. The theorems: the ring never indexes out of range, encoding through it is
  \<open>Header_encode\<close>, and up to 16 headers can be held at the same time.
\<close>

section \<open>Model\<close>

record HeaderPool =
  pool_buffers :: "bytes list"
  pool_index :: nat

definition HeaderPool_new :: HeaderPool where
  "HeaderPool_new =
     \<lparr>pool_buffers = replicate HEADER_POOL_SIZE (replicate HEADER_SIZE 0), pool_index = 0\<rparr>"

definition HeaderPool_default :: HeaderPool where
  "HeaderPool_default = HeaderPool_new"

definition acquire :: "HeaderPool \<Rightarrow> (nat, fault) result \<times> HeaderPool" where
  "acquire p =
     (if pool_index p < length (pool_buffers p)
      then (Ok (pool_index p), p\<lparr>pool_index := (pool_index p + 1) mod HEADER_POOL_SIZE\<rparr>)
      else (Err (Panic ''index out of bounds''), p))"

definition HeaderPool_encode :: "HeaderPool \<Rightarrow> Header \<Rightarrow> (nat, fault) result \<times> HeaderPool" where
  "HeaderPool_encode p h = (case acquire p of
      (Inl e, p) \<Rightarrow> (Err e, p)
    | (Inr slot, p) \<Rightarrow> (case Header_encode_into h (pool_buffers p ! slot) of
          Inl e \<Rightarrow> (Err e, p)
        | Inr buf \<Rightarrow> (Ok slot, p\<lparr>pool_buffers := (pool_buffers p)[slot := buf]\<rparr>)))"

definition current_index :: "HeaderPool \<Rightarrow> nat" where
  "current_index p = pool_index p"

definition HeaderPool_reset :: "HeaderPool \<Rightarrow> HeaderPool" where
  "HeaderPool_reset p = p\<lparr>pool_index := 0\<rparr>"

definition encode_header_pooled :: "HeaderPool \<Rightarrow> Header \<Rightarrow> (bytes, fault) result \<times> HeaderPool"
  where
  "encode_header_pooled p h = (case acquire p of
      (Inl e, p) \<Rightarrow> (Err e, p)
    | (Inr slot, p) \<Rightarrow> (case Header_encode_into h (pool_buffers p ! slot) of
          Inl e \<Rightarrow> (Err e, p)
        | Inr buf \<Rightarrow> let p = p\<lparr>pool_buffers := (pool_buffers p)[slot := buf]\<rparr>
            in (Ok (pool_buffers p ! slot), p)))"

definition with_header_pool :: "(HeaderPool \<Rightarrow> 'r \<times> HeaderPool) \<Rightarrow> HeaderPool \<Rightarrow> 'r \<times> HeaderPool"
  where
  "with_header_pool f p = f p"

section \<open>Invariant and single operations\<close>

definition pool_inv :: "HeaderPool \<Rightarrow> bool" where
  "pool_inv p \<longleftrightarrow> length (pool_buffers p) = HEADER_POOL_SIZE
     \<and> list_all (\<lambda>b. length b = HEADER_SIZE) (pool_buffers p) \<and> pool_index p < HEADER_POOL_SIZE"

lemma pool_inv_new [simp]: "pool_inv HeaderPool_new"
  by (simp add: pool_inv_def HeaderPool_new_def HEADER_POOL_SIZE_def list_all_length)

lemma pool_inv_reset: "pool_inv p \<Longrightarrow> pool_inv (HeaderPool_reset p)"
  by (simp add: pool_inv_def HeaderPool_reset_def HEADER_POOL_SIZE_def)

lemma acquire_ok:
  "pool_inv p \<Longrightarrow>
   acquire p = (Ok (pool_index p), p\<lparr>pool_index := (pool_index p + 1) mod HEADER_POOL_SIZE\<rparr>)"
  by (simp add: acquire_def pool_inv_def)

lemma pool_inv_write:
  "pool_inv p \<Longrightarrow>
   pool_inv \<lparr>pool_buffers = (pool_buffers p)[i := Header_encode h],
     pool_index = j mod HEADER_POOL_SIZE\<rparr>"
  by (auto simp: pool_inv_def HEADER_POOL_SIZE_def HEADER_SIZE_def list_all_iff
      dest!: set_update_subset_insert [THEN subsetD])

lemma HeaderPool_encode_ok:
  assumes "pool_inv p"
  shows "HeaderPool_encode p h = (Ok (pool_index p),
    \<lparr>pool_buffers = (pool_buffers p)[pool_index p := Header_encode h],
     pool_index = (pool_index p + 1) mod HEADER_POOL_SIZE\<rparr>)"
proof -
  from assms have "length (pool_buffers p ! pool_index p) = 11"
    by (simp add: pool_inv_def list_all_length HEADER_SIZE_def)
  then show ?thesis
    using assms
    by (simp add: HeaderPool_encode_def acquire_ok Header_encode_into_eq Header_encode_eq
        HEADER_SIZE_def)
qed

lemma encode_header_pooled_ok:
  assumes "pool_inv p"
  shows "encode_header_pooled p h = (Ok (Header_encode h), snd (HeaderPool_encode p h))"
proof -
  from assms have "length (pool_buffers p ! pool_index p) = 11"
    and "pool_index p < length (pool_buffers p)"
    by (simp_all add: pool_inv_def list_all_length HEADER_SIZE_def)
  then show ?thesis
    using assms
    by (simp add: encode_header_pooled_def HeaderPool_encode_ok acquire_ok Header_encode_into_eq
        Header_encode_eq HEADER_SIZE_def)
qed

section \<open>Holding several headers at once\<close>

fun encode_all :: "HeaderPool \<Rightarrow> Header list \<Rightarrow> (nat list, fault) result \<times> HeaderPool" where
  "encode_all p [] = (Ok [], p)"
| "encode_all p (h # hs) = (case HeaderPool_encode p h of
      (Inl e, p) \<Rightarrow> (Err e, p)
    | (Inr slot, p) \<Rightarrow> (case encode_all p hs of
          (Inl e, p) \<Rightarrow> (Err e, p)
        | (Inr slots, p) \<Rightarrow> (Ok (slot # slots), p)))"

lemma ring_inj:
  fixes i j s :: nat
  assumes "i < 16" "j < 16" "(s + i) mod 16 = (s + j) mod 16"
  shows "i = j"
proof -
  have *: "a = b" if "a \<le> b" "b < 16" "(s + a) mod 16 = (s + b) mod 16" for a b :: nat
  proof -
    from that have "16 dvd (s + b) - (s + a)" by (metis mod_eq_dvd_iff_nat add_left_mono)
    then have "16 dvd b - a" by simp
    with that show ?thesis using nat_dvd_not_less [of "b - a" 16] by linarith
  qed
  show ?thesis using * [of i j] * [of j i] assms by (cases "i \<le> j") auto
qed

lemma ring_slots_distinct: "n \<le> 16 \<Longrightarrow> distinct (map (\<lambda>i. (s + i) mod 16) [0..<n])"
  by (auto simp: distinct_map inj_on_def intro: ring_inj)

lemma encode_all_ok:
  assumes "pool_inv p" "length hs \<le> 16"
  shows "\<exists>p'. encode_all p hs = (Ok (map (\<lambda>i. (pool_index p + i) mod 16) [0..<length hs]), p')
    \<and> pool_inv p'
    \<and> (\<forall>i < length hs. pool_buffers p' ! ((pool_index p + i) mod 16) = Header_encode (hs ! i))
    \<and> (\<forall>j. (\<forall>i < length hs. j \<noteq> (pool_index p + i) mod 16) \<longrightarrow>
          pool_buffers p' ! j = pool_buffers p ! j)"
  using assms
proof (induction hs arbitrary: p)
  case (Cons h hs)
  let ?s = "pool_index p"
  let ?q = "\<lparr>pool_buffers = (pool_buffers p)[?s := Header_encode h], pool_index = (?s + 1) mod 16\<rparr>"
  have s: "?s < 16" "length (pool_buffers p) = 16"
    using Cons.prems(1) by (simp_all add: pool_inv_def HEADER_POOL_SIZE_def)
  have q: "pool_inv ?q"
    using pool_inv_write [OF Cons.prems(1)] by (simp add: HEADER_POOL_SIZE_def)
  have slot: "(Suc ?s mod 16 + i) mod 16 = Suc (?s + i) mod 16" for i
    by (metis add_Suc mod_add_left_eq)
  from Cons.prems(2) Cons.IH [OF q] obtain p' where
    e: "encode_all ?q hs = (Ok (map (\<lambda>i. (?s + Suc i) mod 16) [0..<length hs]), p')"
    and inv: "pool_inv p'"
    and val: "\<forall>i < length hs. pool_buffers p' ! ((?s + Suc i) mod 16) = Header_encode (hs ! i)"
    and frame: "\<And>j. \<forall>i < length hs. j \<noteq> (?s + Suc i) mod 16 \<Longrightarrow>
          pool_buffers p' ! j = pool_buffers ?q ! j"
    by (auto simp: slot)
  have "?s \<noteq> (?s + Suc i) mod 16" if "i < length hs" for i
    using ring_inj [of 0 "Suc i" ?s] s(1) Cons.prems(2) that by auto
  then have "pool_buffers p' ! ?s = pool_buffers ?q ! ?s"
    by (intro frame) blast
  with s have v0: "pool_buffers p' ! ?s = Header_encode h" by simp
  have "encode_all p (h # hs) =
      (Ok (map (\<lambda>i. (?s + i) mod 16) [0..<length (h # hs)]), p')"
    using Cons.prems(1) s e
    by (simp add: HeaderPool_encode_ok HEADER_POOL_SIZE_def map_upt_Suc del: upt_Suc)
  moreover have "pool_buffers p' ! ((?s + i) mod 16) = Header_encode ((h # hs) ! i)"
    if "i < length (h # hs)" for i
    using that v0 val s by (cases i) auto
  moreover have "pool_buffers p' ! j = pool_buffers p ! j"
    if "\<forall>i < length (h # hs). j \<noteq> (?s + i) mod 16" for j
  proof -
    from that s have "j \<noteq> ?s" "\<forall>i < length hs. j \<noteq> (?s + Suc i) mod 16" by force+
    with frame [of j] show ?thesis by simp
  qed
  ultimately show ?case using inv by blast
qed simp

section \<open>Properties\<close>

text \<open>Every pool operation keeps the pool in range (16 buffers of 11 bytes, the index below
  16), and encoding through the pool, directly or with \<open>encode_header_pooled\<close>, never panics and
  yields the bytes of \<open>Header::encode\<close>.\<close>

theorem header_pool_encode_correct:
  assumes "pool_inv p"
  shows "\<exists>slot p'. HeaderPool_encode p h = (Ok slot, p') \<and> pool_inv p'
      \<and> pool_buffers p' ! slot = Header_encode h
      \<and> encode_header_pooled p h = (Ok (Header_encode h), p')
      \<and> current_index p' = (current_index p + 1) mod HEADER_POOL_SIZE"
  using assms pool_inv_write [OF assms]
  by (auto simp: HeaderPool_encode_ok encode_header_pooled_ok current_index_def pool_inv_def)

theorem header_pool_encode_correct_witness:
  "fst (encode_header_pooled HeaderPool_new (Header_new 5 7 1000 50))
   = Ok (Header_encode (Header_new 5 7 1000 50))"
  using header_pool_encode_correct [OF pool_inv_new, of "Header_new 5 7 1000 50"] by auto

text \<open>Up to 16 headers can be held at the same time: encoding any list of at most 16 headers
  one after the other uses pairwise different buffers, and at the end each buffer still holds its
  own header.\<close>

theorem header_pool_holds_16:
  assumes "pool_inv p" and "length hs \<le> HEADER_POOL_SIZE"
  shows "\<exists>slots p'. encode_all p hs = (Ok slots, p') \<and> distinct slots
    \<and> map (\<lambda>s. pool_buffers p' ! s) slots = map Header_encode hs"
proof -
  let ?slots = "map (\<lambda>i. (pool_index p + i) mod 16) [0..<length hs]"
  from assms obtain p' where "encode_all p hs = (Ok ?slots, p')"
    and "\<forall>i < length hs. pool_buffers p' ! ((pool_index p + i) mod 16) = Header_encode (hs ! i)"
    using encode_all_ok [of p hs] by (auto simp: HEADER_POOL_SIZE_def)
  moreover have "distinct ?slots"
    using assms(2) by (intro ring_slots_distinct) (simp add: HEADER_POOL_SIZE_def)
  ultimately show ?thesis
    by (intro exI [of _ ?slots] exI [of _ p']) (auto intro: nth_equalityI)
qed

theorem header_pool_holds_16_witness:
  "\<exists>slots p'. encode_all HeaderPool_new (replicate 16 (Header_new 1 0 1 0)) = (Ok slots, p')
    \<and> distinct slots
    \<and> map (\<lambda>s. pool_buffers p' ! s) slots = map Header_encode (replicate 16 (Header_new 1 0 1 0))"
  by (rule header_pool_holds_16) (simp_all add: HEADER_POOL_SIZE_def)

end
