(* ===== verification/Protocol_Tests.thy ===== *)
theory Protocol_Tests
  imports Header_Pool Auth
begin

text \<open>
  The unit tests of \<open>src/protocol/\<close>, carried out on the model: each test function of the repository
  is a Boolean definition with its assertions, in their order, and the theorems say that all of them
  hold. They are evaluated in the kernel, so they also check that the definitions compute what the
  authors of the code expect. Assertions on the addresses of shared \<open>Bytes\<close> are left out.
\<close>

section \<open>Helpers\<close>

text \<open>\<open>unwrap_err().to_string().contains(..)\<close>, and \<open>push(..).unwrap()\<close>.\<close>

definition err_contains :: "('a, ProcwireError) result \<Rightarrow> rstr \<Rightarrow> bool" where
  "err_contains r s = (case r of Inl e \<Rightarrow> contains (ProcwireError_to_string e) s | Inr _ \<Rightarrow> False)"

definition push_fails :: "FrameBuffer \<Rightarrow> bytes \<Rightarrow> rstr \<Rightarrow> bool" where
  "push_fails fb data s = (case push fb data of
     (Inl (Fail e), _) \<Rightarrow> contains (ProcwireError_to_string e) s | _ \<Rightarrow> False)"

definition pushed :: "FrameBuffer \<Rightarrow> bytes \<Rightarrow> (Frame list \<Rightarrow> FrameBuffer \<Rightarrow> bool) \<Rightarrow> bool" where
  "pushed fb data P = (case push fb data of (Inr frames, fb) \<Rightarrow> P frames fb | (Inl _, _) \<Rightarrow> False)"

section \<open>Tests of the wire format\<close>

definition test_header_encode_decode_roundtrip :: bool where
  "test_header_encode_decode_roundtrip \<longleftrightarrow>
     (let original = Header_new 1 RESPONSE 42 100;
          encoded = Header_encode original
      in Header_decode encoded = Some original)"

definition test_header_big_endian_byte_order :: bool where
  "test_header_big_endian_byte_order \<longleftrightarrow>
     (let h = Header_new 0x0102 0x03 0x04050607 0x08090A0B; b = Header_encode h in
      b ! 0 = 0x01 \<and> b ! 1 = 0x02 \<and> b ! 2 = 0x03
    \<and> b ! 3 = 0x04 \<and> b ! 4 = 0x05 \<and> b ! 5 = 0x06 \<and> b ! 6 = 0x07
    \<and> b ! 7 = 0x08 \<and> b ! 8 = 0x09 \<and> b ! 9 = 0x0A \<and> b ! 10 = 0x0B)"

definition test_header_size_is_exactly_11 :: bool where
  "test_header_size_is_exactly_11 \<longleftrightarrow>
     HEADER_SIZE = 11 \<and> length (Header_encode (Header_new 1 0 1 0)) = 11"

definition test_decode_too_short_buffer :: bool where
  "test_decode_too_short_buffer \<longleftrightarrow> Header_decode (replicate 10 0) = None"

definition test_validate_method_id_zero_rejected :: bool where
  "test_validate_method_id_zero_rejected \<longleftrightarrow>
     err_contains (Header_validate (Header_new 0 0 1 0) DEFAULT_MAX_PAYLOAD_SIZE) ''Method ID 0 is reserved''"

definition test_validate_method_id_abort_allowed :: bool where
  "test_validate_method_id_abort_allowed \<longleftrightarrow>
     (let h = Header_new ABORT_METHOD_ID 0 0 0 in
      is_ok (Header_validate h DEFAULT_MAX_PAYLOAD_SIZE) \<and> Header_is_abort h)"

definition test_validate_method_id_auth_allowed :: bool where
  "test_validate_method_id_auth_allowed \<longleftrightarrow>
     (let h = Header_new AUTH_METHOD_ID 0 0 64 in
      is_ok (Header_validate h DEFAULT_MAX_PAYLOAD_SIZE) \<and> Header_is_auth h \<and> \<not> Header_is_abort h)"

definition test_auth_method_id_value :: bool where
  "test_auth_method_id_value \<longleftrightarrow> AUTH_METHOD_ID = 0xFFFE"

definition test_validate_payload_exceeds_absolute_max :: bool where
  "test_validate_payload_exceeds_absolute_max \<longleftrightarrow>
     err_contains (Header_validate (Header_new 1 0 1 0xFFFFFFFF) 0xFFFFFFFF) ''absolute maximum''"

definition test_validate_payload_too_large :: bool where
  "test_validate_payload_too_large \<longleftrightarrow>
     err_contains (Header_validate (Header_new 1 0 1 1000000) 100) ''exceeds maximum''"

definition test_validate_reserved_bits_must_be_zero :: bool where
  "test_validate_reserved_bits_must_be_zero \<longleftrightarrow>
     err_contains (Header_validate (Header_new 1 0x80 1 0) DEFAULT_MAX_PAYLOAD_SIZE) ''Reserved flag bits''"

definition test_flags_has_flag :: bool where
  "test_flags_has_flag \<longleftrightarrow> has_flag RESPONSE DIRECTION_TO_PARENT \<and> has_flag RESPONSE IS_RESPONSE
     \<and> \<not> has_flag RESPONSE IS_ERROR"

definition test_flag_combinations :: bool where
  "test_flag_combinations \<longleftrightarrow> RESPONSE = 0x03 \<and> ERROR_RESPONSE = 0x07 \<and> STREAM_ERROR_RESPONSE = 0x0F
     \<and> STREAM_CHUNK = 0x0B \<and> STREAM_END_RESPONSE = 0x1B \<and> ACK_RESPONSE = 0x23"

definition test_header_accessors :: bool where
  "test_header_accessors \<longleftrightarrow>
     (let h = Header_new 1 STREAM_END_RESPONSE 0 0 in
      Header_is_response h \<and> Header_is_stream h \<and> Header_is_stream_end h \<and> Header_is_to_parent h
    \<and> Header_is_event h \<and> \<not> Header_is_error h \<and> \<not> Header_is_ack h \<and> \<not> Header_is_abort h)"

definition test_min_max_values :: bool where
  "test_min_max_values \<longleftrightarrow>
     is_ok (Header_validate (Header_new 1 0 0 0) DEFAULT_MAX_PAYLOAD_SIZE)
   \<and> is_ok (Header_validate (Header_new 0xFFFE 0 0xFFFFFFFF ABSOLUTE_MAX_PAYLOAD_SIZE) 0xFFFFFFFF)"

definition test_encode_into :: bool where
  "test_encode_into \<longleftrightarrow>
     (let h = Header_new 1 RESPONSE 42 100 in
      case Header_encode_into h (replicate HEADER_SIZE 0) of
        Inr buf \<Rightarrow> Header_decode buf = Some h | Inl _ \<Rightarrow> False)"

definition test_standalone_functions :: bool where
  "test_standalone_functions \<longleftrightarrow>
     (let h = Header_new 1 0 1 0; encoded = encode_header h in
      decode_header encoded = Some h
    \<and> encode_header_into (replicate HEADER_SIZE 0) h = Ok encoded
    \<and> is_ok (validate_header h DEFAULT_MAX_PAYLOAD_SIZE))"

section \<open>Tests of frames\<close>

definition test_frame_creation :: bool where
  "test_frame_creation \<longleftrightarrow>
     (let frame = Frame_new (Header_new 1 RESPONSE 42 5) (str_bytes ''hello'') in
      Frame_method_id frame = 1 \<and> Frame_flags frame = RESPONSE \<and> Frame_request_id frame = 42
    \<and> Frame_payload frame = str_bytes ''hello'' \<and> Frame_payload_len frame = 5)"

definition test_frame_from_parts :: bool where
  "test_frame_from_parts \<longleftrightarrow>
     (let frame = Frame_from_parts (Header_new 2 0 100 4) (str_bytes ''test'') in
      Frame_method_id frame = 2 \<and> Frame_payload frame = str_bytes ''test'')"

definition test_frame_empty_payload :: bool where
  "test_frame_empty_payload \<longleftrightarrow>
     (let frame = Frame_new (Header_new 1 0 1 0) [] in
      Frame_payload_len frame = 0 \<and> Frame_payload frame = [])"

definition test_frame_flag_accessors :: bool where
  "test_frame_flag_accessors \<longleftrightarrow>
     (let response_frame = Frame_new (Header_new 1 RESPONSE 1 0) [];
          error_frame = Frame_new (Header_new 1 ERROR_RESPONSE 1 0) [];
          stream_frame = Frame_new (Header_new 1 STREAM_CHUNK 1 0) [];
          stream_end_frame = Frame_new (Header_new 1 STREAM_END_RESPONSE 1 0) [];
          ack_frame = Frame_new (Header_new 1 ACK_RESPONSE 1 0) []
      in Frame_is_response response_frame \<and> Frame_is_to_parent response_frame
       \<and> \<not> Frame_is_error response_frame \<and> \<not> Frame_is_stream response_frame
       \<and> Frame_is_response error_frame \<and> Frame_is_error error_frame
       \<and> Frame_is_stream stream_frame \<and> \<not> Frame_is_stream_end stream_frame
       \<and> Frame_is_stream stream_end_frame \<and> Frame_is_stream_end stream_end_frame
       \<and> Frame_is_ack ack_frame)"

definition test_frame_is_event :: bool where
  "test_frame_is_event \<longleftrightarrow>
     Frame_is_event (Frame_new (Header_new 1 DIRECTION_TO_PARENT 0 0) [])
   \<and> \<not> Frame_is_event (Frame_new (Header_new 1 RESPONSE 0 0) [])
   \<and> \<not> Frame_is_event (Frame_new (Header_new 1 0 42 0) [])"

definition test_frame_is_abort :: bool where
  "test_frame_is_abort \<longleftrightarrow>
     Frame_is_abort (Frame_new (Header_new ABORT_METHOD_ID 0 0 0) [])
   \<and> \<not> Frame_is_abort (Frame_new (Header_new 1 0 1 0) [])"

definition test_payload_bytes_zero_copy :: bool where
  "test_payload_bytes_zero_copy \<longleftrightarrow>
     (let original = str_bytes ''test data''; frame = Frame_new (Header_new 1 0 1 9) original in
      Frame_payload_bytes frame = original)"

definition test_build_frame :: bool where
  "test_build_frame \<longleftrightarrow>
     (let h = Header_new 1 RESPONSE 42 5; b = build_frame h (str_bytes ''hello'') in
      length b = HEADER_SIZE + 5 \<and> Header_decode (take HEADER_SIZE b) = Some h
    \<and> drop HEADER_SIZE b = str_bytes ''hello'')"

definition test_build_frame_empty_payload :: bool where
  "test_build_frame_empty_payload \<longleftrightarrow> length (build_frame (Header_new 1 0 1 0) []) = HEADER_SIZE"

definition test_build_frame_parts :: bool where
  "test_build_frame_parts \<longleftrightarrow>
     (let h = Header_new 1 RESPONSE 42 5;
          (header_bytes, payload_ref) = build_frame_parts h (str_bytes ''hello'')
      in length header_bytes = HEADER_SIZE \<and> payload_ref = str_bytes ''hello''
       \<and> Header_decode header_bytes = Some h)"

definition test_build_frame_roundtrip :: bool where
  "test_build_frame_roundtrip \<longleftrightarrow>
     (let h = Header_new 123 STREAM_CHUNK 456 10; p = str_bytes ''0123456789'' in
      pushed FrameBuffer_new (build_frame h p) (\<lambda>frames fb.
        length frames = 1 \<and> Frame_method_id (frames ! 0) = 123 \<and> Frame_request_id (frames ! 0) = 456
      \<and> Frame_payload (frames ! 0) = p \<and> Frame_is_stream (frames ! 0)))"

section \<open>Tests of the frame buffer\<close>

definition make_frame_bytes :: "u16 \<Rightarrow> u8 \<Rightarrow> u32 \<Rightarrow> bytes \<Rightarrow> bytes" where
  "make_frame_bytes m fl r p =
     (let h = Header_new m fl r (word_of_nat (length p)); b = Header_encode h in b @ p)"

definition test_single_complete_frame :: bool where
  "test_single_complete_frame \<longleftrightarrow>
     pushed FrameBuffer_new (make_frame_bytes 1 RESPONSE 42 (str_bytes ''hello'')) (\<lambda>frames fb.
       length frames = 1 \<and> Frame_method_id (frames ! 0) = 1 \<and> Frame_request_id (frames ! 0) = 42
     \<and> payload (frames ! 0) = str_bytes ''hello'' \<and> FrameBuffer_is_empty fb)"

definition test_multiple_frames_in_one_push :: bool where
  "test_multiple_frames_in_one_push \<longleftrightarrow>
     (let frame1 = make_frame_bytes 1 0 1 (str_bytes ''first'');
          frame2 = make_frame_bytes 2 0 2 (str_bytes ''second'');
          frame3 = make_frame_bytes 3 0 3 (str_bytes ''third'')
      in pushed FrameBuffer_new (frame1 @ frame2 @ frame3) (\<lambda>frames fb.
        length frames = 3 \<and> Frame_method_id (frames ! 0) = 1 \<and> Frame_method_id (frames ! 1) = 2
      \<and> Frame_method_id (frames ! 2) = 3 \<and> FrameBuffer_is_empty fb))"

definition test_fragmented_header :: bool where
  "test_fragmented_header \<longleftrightarrow>
     (let b = make_frame_bytes 1 0 42 (str_bytes ''test'') in
      pushed FrameBuffer_new (take 5 b) (\<lambda>frames fb.
        frames = [] \<and> state_name fb = ''WaitingForHeader''
      \<and> pushed fb (drop 5 b) (\<lambda>frames fb.
          length frames = 1 \<and> Frame_method_id (frames ! 0) = 1 \<and> FrameBuffer_is_empty fb)))"

definition test_fragmented_payload :: bool where
  "test_fragmented_payload \<longleftrightarrow>
     (let p = str_bytes ''this is a longer payload that will be fragmented'';
          b = make_frame_bytes 1 0 42 p;
          partial_len = HEADER_SIZE + 10
      in pushed FrameBuffer_new (take partial_len b) (\<lambda>frames fb.
           frames = [] \<and> state_name fb = ''WaitingForPayload''
         \<and> pushed fb (drop partial_len b) (\<lambda>frames fb.
             length frames = 1 \<and> payload (frames ! 0) = p \<and> FrameBuffer_is_empty fb)))"

definition test_empty_payload :: bool where
  "test_empty_payload \<longleftrightarrow>
     pushed FrameBuffer_new (make_frame_bytes 1 0 42 []) (\<lambda>frames fb.
       length frames = 1 \<and> payload (frames ! 0) = [] \<and> payload_length (header (frames ! 0)) = 0)"

definition test_large_payload :: bool where
  "test_large_payload \<longleftrightarrow>
     pushed FrameBuffer_new (make_frame_bytes 1 0 42 (replicate (1024 * 1024) 0xAB)) (\<lambda>frames fb.
       length frames = 1 \<and> length (payload (frames ! 0)) = 1024 * 1024
     \<and> list_all (\<lambda>b. b = 0xAB) (payload (frames ! 0)))"

definition test_max_payload_validation :: bool where
  "test_max_payload_validation \<longleftrightarrow>
     push_fails (FrameBuffer_with_max_payload 100) (Header_encode (Header_new 1 0 42 1000)) ''exceeds maximum''"

definition test_receive_rejects_method_id_zero :: bool where
  "test_receive_rejects_method_id_zero \<longleftrightarrow>
     push_fails FrameBuffer_new (Header_encode (Header_new 0 0 42 0)) ''Method ID 0''"

definition test_receive_rejects_reserved_flag_bits :: bool where
  "test_receive_rejects_reserved_flag_bits \<longleftrightarrow>
     push_fails FrameBuffer_new (Header_encode (Header_new 1 0x80 42 0)) ''Reserved flag bits''"

definition test_receive_allows_abort_and_auth_method_ids :: bool where
  "test_receive_allows_abort_and_auth_method_ids \<longleftrightarrow>
     (let abort = make_frame_bytes ABORT_METHOD_ID 0 7 [];
          auth = make_frame_bytes AUTH_METHOD_ID 0 0 (str_bytes ''token-bytes'')
      in pushed FrameBuffer_new (abort @ auth) (\<lambda>frames fb.
        length frames = 2 \<and> Frame_method_id (frames ! 0) = ABORT_METHOD_ID
      \<and> Frame_method_id (frames ! 1) = AUTH_METHOD_ID \<and> payload (frames ! 1) = str_bytes ''token-bytes''))"

definition test_frame_with_all_header_fields :: bool where
  "test_frame_with_all_header_fields \<longleftrightarrow>
     pushed FrameBuffer_new (make_frame_bytes 0x1234 STREAM_END_RESPONSE 0xDEADBEEF (str_bytes ''data''))
       (\<lambda>frames fb. length frames = 1 \<and> Frame_method_id (frames ! 0) = 0x1234
        \<and> flags (header (frames ! 0)) = STREAM_END_RESPONSE \<and> Frame_request_id (frames ! 0) = 0xDEADBEEF
        \<and> Frame_is_stream (frames ! 0) \<and> Frame_is_stream_end (frames ! 0))"

definition test_clear_resets_state :: bool where
  "test_clear_resets_state \<longleftrightarrow>
     (let b = make_frame_bytes 1 0 42 (str_bytes ''test'') in
      pushed FrameBuffer_new (take 5 b) (\<lambda>_ fb.
        state_name fb = ''WaitingForHeader'' \<and> \<not> FrameBuffer_is_empty fb \<and> FrameBuffer_len fb = 5
      \<and> pushed fb (take (HEADER_SIZE - 5) (drop 5 b)) (\<lambda>_ fb.
          state_name fb = ''WaitingForPayload''
        \<and> (let fb = FrameBuffer_clear fb in state_name fb = ''WaitingForHeader'' \<and> FrameBuffer_is_empty fb))))"

definition test_mixed_complete_and_partial :: bool where
  "test_mixed_complete_and_partial \<longleftrightarrow>
     (let frame1 = make_frame_bytes 1 0 1 (str_bytes ''first'');
          frame2 = make_frame_bytes 2 0 2 (str_bytes ''second'')
      in pushed FrameBuffer_new (frame1 @ take 5 frame2) (\<lambda>frames fb.
           length frames = 1 \<and> Frame_method_id (frames ! 0) = 1 \<and> state_name fb = ''WaitingForHeader''
         \<and> pushed fb (drop 5 frame2) (\<lambda>frames fb.
             length frames = 1 \<and> Frame_method_id (frames ! 0) = 2)))"

definition test_byte_at_a_time :: bool where
  "test_byte_at_a_time \<longleftrightarrow>
     (let b = make_frame_bytes 1 0 42 (str_bytes ''hi'') in
      case feed push FrameBuffer_new (map (\<lambda>x. [x]) b) of
        (all_frames, None, _) \<Rightarrow> length all_frames = 1 \<and> Frame_method_id (all_frames ! 0) = 1
          \<and> payload (all_frames ! 0) = str_bytes ''hi''
      | (_, Some _, _) \<Rightarrow> False)"

section \<open>Tests of the header pool\<close>

definition test_pool_creation :: bool where
  "test_pool_creation \<longleftrightarrow> current_index HeaderPool_new = 0"

text \<open>\<open>acquire\<close> \<open>n\<close> times.\<close>

definition acquire_many :: "nat \<Rightarrow> HeaderPool \<Rightarrow> HeaderPool" where
  "acquire_many n p = ((\<lambda>p. snd (acquire p)) ^^ n) p"

definition test_pool_acquire_round_robin :: bool where
  "test_pool_acquire_round_robin \<longleftrightarrow>
     list_all (\<lambda>i. current_index (acquire_many (i + 1) HeaderPool_new) = (i + 1) mod HEADER_POOL_SIZE)
       [0..<HEADER_POOL_SIZE]
   \<and> current_index (acquire_many HEADER_POOL_SIZE HeaderPool_new) = 0"

definition test_pool_acquire_returns_different_buffers :: bool where
  "test_pool_acquire_returns_different_buffers \<longleftrightarrow>
     (let (buf1, p) = acquire HeaderPool_new; (buf2, p) = acquire p; (buf3, p) = acquire p in
      buf1 \<noteq> buf2 \<and> buf2 \<noteq> buf3 \<and> buf1 \<noteq> buf3)"

definition test_pool_encode :: bool where
  "test_pool_encode \<longleftrightarrow>
     (case HeaderPool_encode HeaderPool_new (Header_new 1 0x03 42 100) of
        (Inr slot, p) \<Rightarrow> (let encoded = pool_buffers p ! slot in
          take 2 encoded = [0x00, 0x01] \<and> encoded ! 2 = 0x03
        \<and> take 4 (drop 3 encoded) = [0x00, 0x00, 0x00, 0x2A] \<and> take 4 (drop 7 encoded) = [0x00, 0x00, 0x00, 0x64])
      | (Inl _, _) \<Rightarrow> False)"

definition test_pool_reset :: bool where
  "test_pool_reset \<longleftrightarrow>
     (let p = acquire_many 3 HeaderPool_new in
      current_index p = 3 \<and> current_index (HeaderPool_reset p) = 0)"

definition test_encode_header_pooled :: "HeaderPool \<Rightarrow> bool" where
  "test_encode_header_pooled p \<longleftrightarrow>
     (case fst (encode_header_pooled p (Header_new 5 0x07 1000 50)) of
        Inr encoded \<Rightarrow> take 2 encoded = [0x00, 0x05] \<and> encoded ! 2 = 0x07
          \<and> take 4 (drop 3 encoded) = [0x00, 0x00, 0x03, 0xE8] \<and> take 4 (drop 7 encoded) = [0x00, 0x00, 0x00, 0x32]
      | Inl _ \<Rightarrow> False)"

definition test_with_header_pool :: "HeaderPool \<Rightarrow> bool" where
  "test_with_header_pool p \<longleftrightarrow>
     (case fst (with_header_pool (\<lambda>p. case HeaderPool_encode p (Header_new 1 0x00 1 10) of
          (Inl e, p) \<Rightarrow> (Err e, p)
        | (Inr s1, p) \<Rightarrow> (let e1 = pool_buffers p ! s1 in case HeaderPool_encode p (Header_new 2 0x00 2 20) of
            (Inl e, p) \<Rightarrow> (Err e, p)
          | (Inr s2, p) \<Rightarrow> (let e2 = pool_buffers p ! s2 in (Ok (e1, e2), p)))) p) of
        Inr (enc1, enc2) \<Rightarrow> take 2 enc1 = [0x00, 0x01] \<and> take 2 enc2 = [0x00, 0x02]
      | Inl _ \<Rightarrow> False)"

definition test_pool_default :: bool where
  "test_pool_default \<longleftrightarrow> current_index HeaderPool_default = 0"

definition test_pool_buffers_are_mutable :: bool where
  "test_pool_buffers_are_mutable \<longleftrightarrow>
     (case acquire HeaderPool_new of
        (Inr slot, p) \<Rightarrow>
          (let buf = pool_buffers p ! slot; buf = buf[0 := 0xFF]; buf = buf[10 := 0xAA];
               p = p\<lparr>pool_buffers := (pool_buffers p)[slot := buf]\<rparr>
           in (pool_buffers p ! slot) ! 0 = 0xFF \<and> (pool_buffers p ! slot) ! 10 = 0xAA)
      | (Inl _, _) \<Rightarrow> False)"

text \<open>A write through the reference \<open>acquire\<close> returns, and what is in the slot 16 turns later.\<close>

definition test_pool_wrap_around_overwrites :: bool where
  "test_pool_wrap_around_overwrites \<longleftrightarrow>
     (case acquire HeaderPool_new of
        (Inr slot, p) \<Rightarrow>
          (let p = p\<lparr>pool_buffers := (pool_buffers p)[slot := replicate HEADER_SIZE 0xAB]\<rparr>;
               p = acquire_many (HEADER_POOL_SIZE - 1) p
           in case acquire p of (Inr slot, p) \<Rightarrow> (pool_buffers p ! slot) ! 0 = 0xAB | (Inl _, _) \<Rightarrow> False)
      | (Inl _, _) \<Rightarrow> False)"

section \<open>They pass\<close>

text \<open>The messages that print large numbers are not evaluated: a search for a text after the number
  does not depend on its digits.\<close>

lemma exceeds_absolute_max_passes: test_validate_payload_exceeds_absolute_max
  by (simp add: test_validate_payload_exceeds_absolute_max_def err_contains_def Header_validate_def
      Header_new_def RESERVED_METHOD_ID_def ABSOLUTE_MAX_PAYLOAD_SIZE_def contains_append)

lemma payload_too_large_passes: test_validate_payload_too_large
  by (simp add: test_validate_payload_too_large_def err_contains_def Header_validate_def Header_new_def
      RESERVED_METHOD_ID_def contains_append)

theorem wire_format_tests_pass:
  "test_header_encode_decode_roundtrip \<and> test_header_big_endian_byte_order \<and> test_header_size_is_exactly_11
   \<and> test_decode_too_short_buffer \<and> test_validate_method_id_zero_rejected
   \<and> test_validate_method_id_abort_allowed \<and> test_validate_method_id_auth_allowed
   \<and> test_auth_method_id_value \<and> test_validate_payload_exceeds_absolute_max
   \<and> test_validate_payload_too_large \<and> test_validate_reserved_bits_must_be_zero \<and> test_flags_has_flag
   \<and> test_flag_combinations \<and> test_header_accessors \<and> test_min_max_values \<and> test_encode_into
   \<and> test_standalone_functions"
  by (intro conjI exceeds_absolute_max_passes payload_too_large_passes; code_simp)

theorem frame_tests_pass:
  "test_frame_creation \<and> test_frame_from_parts \<and> test_frame_empty_payload \<and> test_frame_flag_accessors
   \<and> test_frame_is_event \<and> test_frame_is_abort \<and> test_payload_bytes_zero_copy \<and> test_build_frame
   \<and> test_build_frame_empty_payload \<and> test_build_frame_parts \<and> test_build_frame_roundtrip"
  by (intro conjI; code_simp)

text \<open>The megabyte of \<open>test_large_payload\<close> is not evaluated: it is an instance of the round trip.\<close>

lemma new_simps: "fb_inv FrameBuffer_new = True" "unread FrameBuffer_new = []"
  "max_payload_size FrameBuffer_new = DEFAULT_MAX_PAYLOAD_SIZE"
  by (simp_all add: fb_inv_def unread_def FrameBuffer_new_def)

lemma large_payload_passes: test_large_payload
proof -
  let ?p = "replicate (1024 * 1024) (0xAB :: u8)"
  let ?f = "Frame_new (Header_new 1 0 42 (word_of_nat (length ?p))) ?p"
  have len: "unat (word_of_nat (length ?p) :: u32) = length ?p"
    by (simp only: length_replicate unat_of_nat take_bit_eq_mod) simp
  then have "frame_ok DEFAULT_MAX_PAYLOAD_SIZE ?f"
    by (simp only: frame_ok_def Header_validate_Ok_iff Header_new_def Frame_new_def)
      (simp add: word_le_nat_alt DEFAULT_MAX_PAYLOAD_SIZE_def ABSOLUTE_MAX_PAYLOAD_SIZE_def)
  then have "parse_all DEFAULT_MAX_PAYLOAD_SIZE (frame_bytes ?f) = ([?f], None, [])"
    using parse_all_frames [of DEFAULT_MAX_PAYLOAD_SIZE "[?f]"] by simp
  moreover have "frame_bytes ?f = make_frame_bytes 1 0 42 ?p"
    by (simp only: frame_bytes_eq make_frame_bytes_def Let_def Frame_new_def Frame.simps)
  ultimately have "fst (push FrameBuffer_new (make_frame_bytes 1 0 42 ?p)) = Ok [?f]"
    using push_spec [of FrameBuffer_new "make_frame_bytes 1 0 42 ?p"]
    by (simp only: new_simps append_Nil prod.case option.case fst_conv)
  moreover have "payload ?f = ?p" "length ?p = 1024 * 1024" "list_all (\<lambda>b. b = 0xAB) ?p"
    by (simp_all only: Frame_new_def Frame.simps length_replicate list_all_iff set_replicate_conv_if) simp_all
  ultimately show ?thesis
    unfolding test_large_payload_def pushed_def
    by (auto simp only: split: prod.splits sum.splits) simp_all
qed

theorem frame_buffer_tests_pass:
  "test_single_complete_frame \<and> test_multiple_frames_in_one_push \<and> test_fragmented_header
   \<and> test_fragmented_payload \<and> test_empty_payload \<and> test_max_payload_validation
   \<and> test_receive_rejects_method_id_zero \<and> test_receive_rejects_reserved_flag_bits
   \<and> test_receive_allows_abort_and_auth_method_ids \<and> test_frame_with_all_header_fields
   \<and> test_clear_resets_state \<and> test_mixed_complete_and_partial \<and> test_byte_at_a_time \<and> test_large_payload"
  by (intro conjI large_payload_passes; code_simp)

text \<open>Acquiring only turns the index, so the two tests that go round the pool need no evaluation.\<close>

lemma acquire_many_ok:
  "pool_inv p \<Longrightarrow> acquire_many n p = p\<lparr>pool_index := (pool_index p + n) mod HEADER_POOL_SIZE\<rparr>"
proof (induction n)
  case 0
  then show ?case by (simp add: acquire_many_def pool_inv_def)
next
  case (Suc n)
  then have "pool_inv (acquire_many n p)"
    by (simp add: pool_inv_def HEADER_POOL_SIZE_def)
  then show ?case
    using Suc by (simp add: acquire_many_def acquire_ok mod_simps HEADER_POOL_SIZE_def)
qed

lemma round_robin_passes: test_pool_acquire_round_robin
proof -
  have "pool_index HeaderPool_new = 0"
    by (simp add: HeaderPool_new_def)
  then show ?thesis
    by (simp add: test_pool_acquire_round_robin_def acquire_many_ok current_index_def list_all_iff)
qed

lemma wrap_around_passes: test_pool_wrap_around_overwrites
proof -
  define p where "p = \<lparr>pool_buffers = (pool_buffers HeaderPool_new)[0 := replicate HEADER_SIZE 0xAB], pool_index = 1\<rparr>"
  have inv: "pool_inv p"
    by (auto simp: p_def pool_inv_def HeaderPool_new_def list_all_iff HEADER_POOL_SIZE_def HEADER_SIZE_def
        dest!: set_update_subset_insert [THEN subsetD])
  have "acquire_many (HEADER_POOL_SIZE - 1) p = p\<lparr>pool_index := 0\<rparr>"
    by (simp add: acquire_many_ok [OF inv]) (simp add: p_def HEADER_POOL_SIZE_def)
  moreover have "acquire HeaderPool_new = (Ok 0, HeaderPool_new\<lparr>pool_index := 1\<rparr>)"
    by (simp add: acquire_ok) (simp add: HeaderPool_new_def HEADER_POOL_SIZE_def)
  moreover have "p = HeaderPool_new\<lparr>pool_index := 1, pool_buffers := (pool_buffers HeaderPool_new)[0 := replicate HEADER_SIZE 0xAB]\<rparr>"
    by (simp add: p_def)
  ultimately show ?thesis
    by (simp add: test_pool_wrap_around_overwrites_def)
      (simp add: acquire_def HeaderPool_new_def HEADER_POOL_SIZE_def HEADER_SIZE_def)
qed

theorem header_pool_tests_pass:
  "test_pool_creation \<and> test_pool_acquire_round_robin \<and> test_pool_acquire_returns_different_buffers
   \<and> test_pool_encode \<and> test_pool_reset \<and> test_encode_header_pooled HeaderPool_new
   \<and> test_with_header_pool HeaderPool_new \<and> test_pool_default \<and> test_pool_buffers_are_mutable \<and> test_pool_wrap_around_overwrites"
  by (intro conjI round_robin_passes wrap_around_passes; code_simp)

end
