(* ===== verification/Examples.thy ===== *)
theory Examples
  imports Client
begin

text \<open>
  The three workers under \<open>examples/\<close>, as clients of the library: the request/response worker
  (\<open>echo.rs\<close>), the streaming worker (\<open>stream.rs\<close>) and the event worker (\<open>events.rs\<close>). Their handlers
  are handler programs, registered through the builder. What \<open>derive(Deserialize)\<close> and
  \<open>derive(Serialize)\<close> generate is not part of the repository: a function \<open>de\<close> that reads a structure
  out of a decoded value, or rejects it, and a function \<open>ser\<close> are arguments. Sleeping is left out,
  since no state depends on it.
\<close>

section \<open>Handlers with typed input\<close>

text \<open>Decoding at the handler's input type: the decoded value is read as that type or rejected.\<close>

definition typed ::
  "('v \<Rightarrow> ('t, rstr) result) \<Rightarrow> ('t \<Rightarrow> RequestContext \<Rightarrow> 'v hprog) \<Rightarrow> 'v handler" where
  "typed de h v ctx = (case de v of
     Inl e \<Rightarrow> HDone (Err (MsgPackDecode e)) | Inr t \<Rightarrow> h t ctx)"

text \<open>\<open>op.await?\<close> followed by \<open>p\<close>.\<close>

definition try_op :: "'v ctx_op \<Rightarrow> 'v hprog \<Rightarrow> 'v hprog" where
  "try_op op p = HOp op (\<lambda>r. case r of Inl e \<Rightarrow> HDone (Err e) | Inr _ \<Rightarrow> p)"

text \<open>What the three \<open>main\<close> functions have in common: start the client that was built.\<close>

definition start_worker ::
  "nat \<Rightarrow> ('f, 'o) start_world \<Rightarrow> ('v ClientBuilder, fault) result \<Rightarrow> (rstr \<times> 'v MethodEntry) list \<Rightarrow>
     (rstr \<times> u16) list \<Rightarrow> 'f \<Rightarrow> 'o \<Rightarrow> heap \<Rightarrow> ('v, 'f, 'o) start_result" where
  "start_worker n W built methods events fs out hp = (case built of
     Inl f \<Rightarrow> (Some (Err f), fs, out, hp)
   | Inr b \<Rightarrow> ClientBuilder_start n W b methods events fs out hp)"

text \<open>\<open>client.wait_for_shutdown().await?; Ok(())\<close>, with what the signals are when it is waiting.\<close>

definition serve_until_shutdown ::
  "('v Client \<Rightarrow> signals) \<Rightarrow> ('v, 'f, 'o) start_result \<Rightarrow> (unit, fault) result option" where
  "serve_until_shutdown sg r = (case fst r of
     None \<Rightarrow> None
   | Some (Inl f) \<Rightarrow> Some (Err f)
   | Some (Inr client) \<Rightarrow> (case wait_for_shutdown client (sg client) of
       None \<Rightarrow> None
     | Some (Inl e) \<Rightarrow> Some (Err (Fail e))
     | Some (Inr _) \<Rightarrow> Some (Ok ())))"

section \<open>The echo worker\<close>

record EchoInput =
  ei_message :: rstr

record EchoOutput =
  eo_echo :: rstr

definition echo_handler :: "(EchoOutput \<Rightarrow> 'v) \<Rightarrow> EchoInput \<Rightarrow> RequestContext \<Rightarrow> 'v hprog" where
  "echo_handler ser data ctx = HOp (Respond (ser \<lparr>eo_echo = ei_message data\<rparr>)) HDone"

definition echo_builder ::
  "bool \<Rightarrow> ('v \<Rightarrow> (EchoInput, rstr) result) \<Rightarrow> (EchoOutput \<Rightarrow> 'v) \<Rightarrow> ('v ClientBuilder, fault) result" where
  "echo_builder oc de ser = builder_handle oc ''echo'' (typed de (echo_handler ser)) Client_builder"

definition echo_main where
  "echo_main n W oc de ser methods events sg fs out hp =
     serve_until_shutdown sg (start_worker n W (echo_builder oc de ser) methods events fs out hp)"

section \<open>The stream worker\<close>

record GenerateInput =
  gi_count :: usize

record Chunk =
  ch_index :: usize
  ch_data :: rstr

definition chunk_at :: "nat \<Rightarrow> Chunk" where
  "chunk_at i = \<lparr>ch_index = word_of_nat i, ch_data = ''Chunk '' @ show_dec i\<rparr>"

text \<open>The \<open>for\<close> loop over the remaining indices, and what follows it.\<close>

fun generate_from :: "(Chunk \<Rightarrow> 'v) \<Rightarrow> nat list \<Rightarrow> 'v hprog" where
  "generate_from ser [] = HOp EndStream HDone"
| "generate_from ser (i # is) = try_op (ctx_op.Chunk (ser (chunk_at i))) (generate_from ser is)"

definition generate_handler :: "(Chunk \<Rightarrow> 'v) \<Rightarrow> GenerateInput \<Rightarrow> RequestContext \<Rightarrow> 'v hprog" where
  "generate_handler ser data ctx = generate_from ser [0..<unat (gi_count data)]"

definition stream_builder ::
  "bool \<Rightarrow> ('v \<Rightarrow> (GenerateInput, rstr) result) \<Rightarrow> (Chunk \<Rightarrow> 'v) \<Rightarrow> ('v ClientBuilder, fault) result" where
  "stream_builder oc de ser =
     builder_handle_stream oc ''generate'' (typed de (generate_handler ser)) Client_builder"

definition stream_main where
  "stream_main n W oc de ser methods events sg fs out hp =
     serve_until_shutdown sg (start_worker n W (stream_builder oc de ser) methods events fs out hp)"

section \<open>The event worker\<close>

record WorkInput =
  wi_steps :: u32

record ProgressEvent =
  pe_percent :: u32
  pe_message :: rstr

text \<open>\<open>(i * 100) / steps\<close> on \<open>u32\<close>: the product panics or wraps around, as the build says; \<open>steps\<close> is
  not 0 where it is evaluated.\<close>

definition progress_percent :: "bool \<Rightarrow> u32 \<Rightarrow> u32 \<Rightarrow> (u32, fault) result" where
  "progress_percent oc i steps =
     (if oc \<and> 2 ^ 32 \<le> unat i * 100 then Err (Panic ''attempt to multiply with overflow'')
      else Ok ((i * 100) div steps))"

definition progress_at :: "bool \<Rightarrow> u32 \<Rightarrow> nat \<Rightarrow> (ProgressEvent, fault) result" where
  "progress_at oc steps i = and_then (progress_percent oc (word_of_nat i) steps) (\<lambda>percent.
     Ok \<lparr>pe_percent = percent,
       pe_message = ''Step '' @ show_dec i @ '' of '' @ show_dec (unat steps)\<rparr>)"

text \<open>The worker's tasks. A handler that has sent its acknowledgement is in \<open>ev_sending\<close> until it has
  put its work into the channel of capacity 10; the emitter waits for work or is at step \<open>i\<close> of some
  work; \<open>main\<close> first starts the emitter and then takes the client out of the shared cell.\<close>

datatype emitter_loc = ERecv | EWork u32 nat | EPanicked

datatype main_loc = MTake | MWait

record 'v events_sys =
  ev_ctx :: ctx_state
  ev_sending :: "u32 list"
  ev_queue :: "(u32 \<times> u32) list"
  ev_emitter :: emitter_loc
  ev_cell :: "'v Client option"
  ev_main :: main_loc
  ev_emitted :: "OutboundFrame list"

text \<open>What the handler does with its context; its send into the channel is \<open>e_queue\<close> below.\<close>

definition start_work_handler :: "WorkInput \<Rightarrow> RequestContext \<Rightarrow> 'v hprog" where
  "start_work_handler data ctx = try_op Ack (HDone (Ok ()))"

definition events_builder ::
  "bool \<Rightarrow> ('v \<Rightarrow> (WorkInput, rstr) result) \<Rightarrow> ('v ClientBuilder, fault) result" where
  "events_builder oc de = and_then
     (builder_handle_ack oc ''start_work'' (typed de start_work_handler) Client_builder)
     (builder_event oc ''progress'')"

text \<open>The emitter and the cell are the transition system below, started with the client.\<close>

definition events_main where
  "events_main n W oc de methods events sg fs out hp =
     serve_until_shutdown sg (start_worker n W (events_builder oc de) methods events fs out hp)"

text \<open>One iteration of the emitter's inner loop: the event is built, the cell is locked, and if the
  client is there the event is emitted, an error ending the loop.\<close>

definition emit_iteration ::
  "bool \<Rightarrow> 'v msgpack \<Rightarrow> (ProgressEvent \<Rightarrow> 'v) \<Rightarrow> 'v Client option \<Rightarrow> send_env \<Rightarrow> u32 \<Rightarrow> nat \<Rightarrow>
     (emitter_loc \<times> OutboundFrame list) option" where
  "emit_iteration oc C ser cell env steps i = (case progress_at oc steps i of
     Inl f \<Rightarrow> Some (EPanicked, [])
   | Inr event \<Rightarrow> (case cell of
       None \<Rightarrow> Some (EWork steps (Suc i), [])
     | Some c \<Rightarrow>
         (let out = Client_emit C c ''progress'' (ser event) env in
          case out_result out of
            None \<Rightarrow> None
          | Some (Inl e) \<Rightarrow> Some (ERecv, out_sent out)
          | Some (Inr _) \<Rightarrow> Some (EWork steps (Suc i), out_sent out))))"

inductive events_step ::
  "bool \<Rightarrow> 'v msgpack \<Rightarrow> (ProgressEvent \<Rightarrow> 'v) \<Rightarrow> 'v events_sys \<Rightarrow> 'v events_sys \<Rightarrow> bool"
  for oc C ser where
  e_ack: "ack ctx env (ev_ctx s) = (Some (Ok ()), st) \<Longrightarrow>
    events_step oc C ser s (s\<lparr>ev_ctx := st, ev_sending := ev_sending s @ [wi_steps (data :: WorkInput)]\<rparr>)"
| e_ack_fails: "ack ctx env (ev_ctx s) = (Some (Err e), st) \<Longrightarrow>
    events_step oc C ser s (s\<lparr>ev_ctx := st\<rparr>)"
| e_queue: "ev_sending s = xs @ n # ys \<Longrightarrow> length (ev_queue s) < 10 \<Longrightarrow> ev_emitter s \<noteq> EPanicked \<Longrightarrow>
    events_step oc C ser s (s\<lparr>ev_sending := xs @ ys, ev_queue := ev_queue s @ [(n, 0)]\<rparr>)"
| e_closed: "ev_sending s = xs @ n # ys \<Longrightarrow> ev_emitter s = EPanicked \<Longrightarrow>
    events_step oc C ser s (s\<lparr>ev_sending := xs @ ys\<rparr>)"
| e_recv: "ev_emitter s = ERecv \<Longrightarrow> ev_queue s = (n, z) # q \<Longrightarrow>
    events_step oc C ser s (s\<lparr>ev_queue := q, ev_emitter := EWork n 1\<rparr>)"
| e_iterate: "ev_emitter s = EWork n i \<Longrightarrow> i \<le> unat n \<Longrightarrow>
    emit_iteration oc C ser (ev_cell s) env n i = Some (l, out) \<Longrightarrow>
    events_step oc C ser s (s\<lparr>ev_emitter := l, ev_emitted := ev_emitted s @ out\<rparr>)"
| e_finished: "ev_emitter s = EWork n i \<Longrightarrow> unat n < i \<Longrightarrow>
    events_step oc C ser s (s\<lparr>ev_emitter := ERecv\<rparr>)"
| e_take: "ev_main s = MTake \<Longrightarrow> events_step oc C ser s (s\<lparr>ev_main := MWait, ev_cell := None\<rparr>)"

definition events_init :: "'v Client \<Rightarrow> ctx_state \<Rightarrow> 'v events_sys" where
  "events_init c st = \<lparr>ev_ctx = st, ev_sending = [], ev_queue = [], ev_emitter = ERecv,
     ev_cell = Some c, ev_main = MTake, ev_emitted = []\<rparr>"

section \<open>Serving one request\<close>

lemma single_method:
  assumes "register oc name rt h HandlerRegistry_new = Ok reg"
  shows "dispatch C reg 1 data ctx = TypedHandler_call C (TypedHandler_new h) data ctx"
    and "get_response_type_by_id reg 1 = Some rt"
    and "reg_methods reg = [name \<mapsto> \<lparr>me_handler = TypedHandler_new h, me_response_type = rt, me_id = 1\<rparr>]"
  using assms
  by (auto simp: register_def u16_inc_def HandlerRegistry_new_def Let_def dispatch_def
      get_handler_by_id_def get_response_type_by_id_def split: if_splits)

lemma single_method_announced:
  assumes "reg_methods reg = [name \<mapsto> e]" and "lists_map it (reg_methods reg)"
  shows "get_method name (build_schema it evs) = Some \<lparr>ms_id = me_id e, ms_response = me_response_type e\<rparr>"
  using assms by (simp add: get_method_def build_schema_methods lists_map_def)

text \<open>A request for the one method of a worker, with what its handler is run on.\<close>

definition is_request :: "Frame \<Rightarrow> disp_state \<Rightarrow> bool" where
  "is_request frame ds \<longleftrightarrow>
     method_id (header frame) = 1 \<and> \<not> Header_is_response (header frame) \<and> ds_permits ds \<noteq> 0"

lemma request_spawned:
  assumes "is_request frame ds"
  shows "\<exists>tk ds'. dispatch_frame C reg w frame ds = (Some tk, ds')
    \<and> tk_prog tk = dispatch C reg 1 (payload frame) (tk_ctx tk)"
  using assms
  by (simp add: is_request_def dispatch_frame_def ABORT_METHOD_ID_def AUTH_METHOD_ID_def Let_def
      with_writer_and_token_def)

lemma typed_call:
  assumes "from_slice C data = Ok v" and "de v = Ok t"
  shows "TypedHandler_call C (TypedHandler_new (typed de h)) data ctx = h t ctx"
  using assms by (simp add: TypedHandler_call_def TypedHandler_new_def MsgPackCodec_decode_def typed_def)

lemma spawned_fresh:
  assumes "dispatch_frame C reg w frame ds = (Some tk, ds')"
  shows "\<not> has_responded (tk_ctx tk) (ds_ctx ds')" and "cs_sent (ds_ctx ds') = cs_sent (ds_ctx ds)"
    and "rc_writer (tk_ctx tk) = Some w"
  using dispatch_frame_spawn [OF assms]
  by (simp_all add: has_responded_def flag_new_def token_new_def)

lemma spawned_ctx_frame:
  assumes "dispatch_frame C reg w frame ds = (Some tk, ds')" and "is_request frame ds"
  shows "ctx_frame (tk_ctx tk) fl data
    = OutboundFrame_new (Header_new 1 fl (request_id (header frame)) (word_of_nat (length data))) data"
  using dispatch_frame_spawn(1) [OF assms(1)] assms(2) by (simp add: ctx_frame_def is_request_def)

lemma request_served:
  assumes "dispatch_frame C reg w frame ds = (Some tk, ds1)"
    and "handler_task C tk (quiet envs) last_env (ds_ctx ds1) = (True, st)"
  shows "\<exists>ds'. (disp_step C reg w)\<^sup>*\<^sup>* (ts, ds) (ts, ds') \<and> ds_ctx ds' = st \<and> ds_permits ds' = ds_permits ds"
proof -
  have "disp_step C reg w (ts, ds) (ts @ [tk], ds1)"
    using d_frame [of C reg w "(ts, ds)" frame] dispatch_into_spawn [OF assms(1)] by metis
  moreover have "(disp_step C reg w)\<^sup>*\<^sup>* (ts @ tk # [], ds1) (ts @ [], finish_task tk (ds1\<lparr>ds_ctx := st\<rparr>))"
    using handler_task_moves [OF assms(2) dispatch_frame_spawn(2) [OF assms(1)]]
    by (rule mono_rtranclp [rule_format, rotated]) (rule d_move)
  ultimately have "(disp_step C reg w)\<^sup>*\<^sup>* (ts, ds) (ts, finish_task tk (ds1\<lparr>ds_ctx := st\<rparr>))" by simp
  then show ?thesis using dispatch_frame_cases(2) [OF assms(1)] by force
qed

section \<open>The stream's frames\<close>

definition chunk_frame :: "'v msgpack \<Rightarrow> (Chunk \<Rightarrow> 'v) \<Rightarrow> RequestContext \<Rightarrow> nat \<Rightarrow> OutboundFrame" where
  "chunk_frame C ser ctx i = ctx_frame ctx STREAM_CHUNK
     (case MsgPackCodec_encode C (ser (chunk_at i)) of Inr data \<Rightarrow> data | Inl _ \<Rightarrow> [])"

lemma run_try_op:
  "run_prog (try_op op p) C ctx (quiet envs) n st = (case do_op C ctx op (envs n) st of
     (Some (Inr _), st) \<Rightarrow> run_prog p C ctx (quiet envs) (Suc n) st
   | (r, st) \<Rightarrow> (r, st))"
  by (simp add: try_op_def abort_point_def split: prod.split option.split sum.split)

lemma generate_frames:
  assumes "run_prog (generate_from ser is) C ctx (quiet envs) n st = (r, st')"
    and "rc_writer ctx = Some w" and "\<not> has_responded ctx st"
  shows "\<exists>k \<le> length is. \<exists>tl. cs_sent st' = cs_sent st @ map (chunk_frame C ser ctx) (take k is) @ tl
    \<and> (r = Some (Ok ()) \<and> k = length is \<and> tl = [ctx_frame ctx STREAM_END_RESPONSE []]
       \<or> r \<noteq> Some (Ok ()) \<and> tl = [])"
  using assms(1,3)
proof (induction "is" arbitrary: n st)
  case Nil
  obtain x st1 where d: "do_op C ctx EndStream (envs n) st = (x, st1)" by fastforce
  with Nil.prems(1) have "r = x \<and> st' = st1"
    by (simp add: abort_point_def del: do_op.simps split: option.splits)
  with do_op_outcome [OF d assms(2)] show ?case by auto
next
  case (Cons i "is")
  let ?op = "ctx_op.Chunk (ser (chunk_at i))"
  obtain x st1 where d: "do_op C ctx ?op (envs n) st = (x, st1)" by fastforce
  note out = do_op_outcome [OF d assms(2)]
  show ?case
  proof (cases "x = Some (Ok ())")
    case True
    have "run_prog (generate_from ser is) C ctx (quiet envs) (Suc n) st1 = (r, st')"
      using Cons.prems(1) d True by (simp add: run_try_op del: do_op.simps)
    moreover have "\<not> has_responded ctx st1" using do_op_effect [OF d] Cons.prems(2) by simp
    ultimately obtain k tl where k: "k \<le> length is"
      and tl: "cs_sent st' = cs_sent st1 @ map (chunk_frame C ser ctx) (take k is) @ tl"
        "r = Some (Ok ()) \<and> k = length is \<and> tl = [ctx_frame ctx STREAM_END_RESPONSE []]
          \<or> r \<noteq> Some (Ok ()) \<and> tl = []"
      using Cons.IH by blast
    have "cs_sent st1 = cs_sent st @ [chunk_frame C ser ctx i]"
      using out True by (auto simp: chunk_frame_def)
    with tl k show ?thesis by (intro exI [of _ "Suc k"]) auto
  next
    case False
    then have "r = x \<and> st' = st1"
      using Cons.prems(1) d by (auto simp: run_try_op simp del: do_op.simps split: option.splits sum.splits)
    with False out show ?thesis by (intro exI [of _ 0]) auto
  qed
qed

lemma generate_accepted:
  assumes "rc_writer ctx = Some w" and "\<forall>n f. out_result (WriterHandle_send w f (envs n)) = Some (Ok ())"
    and "\<forall>i \<in> set is. \<exists>data. MsgPackCodec_encode C (ser (chunk_at i)) = Ok data" and "\<not> has_responded ctx st"
  shows "\<exists>st'. run_prog (generate_from ser is) C ctx (quiet envs) n st = (Some (Ok ()), st')"
  using assms(3,4)
proof (induction "is" arbitrary: n st)
  case Nil
  obtain x st1 where d: "do_op C ctx EndStream (envs n) st = (x, st1)" by fastforce
  with do_op_accepted [OF d assms(1)] assms(2) Nil.prems show ?case
    by (simp add: abort_point_def del: do_op.simps)
next
  case (Cons i "is")
  let ?op = "ctx_op.Chunk (ser (chunk_at i))"
  obtain x st1 where d: "do_op C ctx ?op (envs n) st = (x, st1)" by fastforce
  from Cons.prems(1) obtain data where "op_payload C ?op = Ok data" by auto
  with do_op_accepted [OF d assms(1)] assms(2) Cons.prems have "x = Some (Ok ())" by simp
  moreover have "\<not> has_responded ctx st1" using do_op_effect [OF d] Cons.prems(2) by simp
  ultimately show ?case using Cons d by (simp add: run_try_op del: do_op.simps)
qed

lemma generate_task_frames:
  assumes "handler_task C tk (quiet envs) last_env st = (fin, st')"
    and "tk_prog tk = generate_from ser [0..<n]" and "rc_writer (tk_ctx tk) = Some w"
    and "\<not> has_responded (tk_ctx tk) st"
  shows "\<exists>k \<le> n. \<exists>tl. cs_sent st' = cs_sent st @ map (chunk_frame C ser (tk_ctx tk)) [0..<k] @ tl
    \<and> (tl = [] \<or> k = n \<and> tl = [ctx_frame (tk_ctx tk) STREAM_END_RESPONSE []]
       \<or> (\<exists>data. tl = [ctx_frame (tk_ctx tk) (error_flags (tk_ctx tk)) data]))"
proof -
  obtain r st1 where run: "run_prog (tk_prog tk) C (tk_ctx tk) (quiet envs) 0 st = (r, st1)" by fastforce
  from generate_frames [OF run [unfolded assms(2)] assms(3,4)] obtain k tl where
    k: "k \<le> n" "cs_sent st1 = cs_sent st @ map (chunk_frame C ser (tk_ctx tk)) [0..<k] @ tl"
      "r = Some (Ok ()) \<and> k = n \<and> tl = [ctx_frame (tk_ctx tk) STREAM_END_RESPONSE []]
       \<or> r \<noteq> Some (Ok ()) \<and> tl = []" by (auto simp: take_upt)
  consider "st' = st1" | m x where "send_error C (tk_ctx tk) m last_env st1 = (x, st')" "r \<noteq> Some (Ok ())"
    using assms(1) run by (auto simp: handler_task_def split: option.splits sum.splits if_splits prod.splits)
  then show ?thesis
  proof cases
    case 1
    with k show ?thesis by blast
  next
    case (2 m x)
    from do_op_outcome [OF 2(1) [unfolded send_error_eq] assms(3)] k 2(2) show ?thesis
      by (intro exI [of _ k]) auto
  qed
qed

lemma generate_task_complete:
  assumes "tk_prog tk = generate_from ser [0..<n]" and "rc_writer (tk_ctx tk) = Some w"
    and "\<not> has_responded (tk_ctx tk) st"
    and "\<forall>i f. out_result (WriterHandle_send w f (envs i)) = Some (Ok ())"
    and "\<forall>i < n. \<exists>data. to_vec_named C (ser (chunk_at i)) = Ok data"
  shows "\<exists>st'. handler_task C tk (quiet envs) last_env st = (True, st')
    \<and> cs_sent st' = cs_sent st @ map (chunk_frame C ser (tk_ctx tk)) [0..<n]
        @ [ctx_frame (tk_ctx tk) STREAM_END_RESPONSE []]"
proof -
  have enc: "\<forall>i \<in> set [0..<n]. \<exists>data. MsgPackCodec_encode C (ser (chunk_at i)) = Ok data"
    using assms(5) by (force simp: MsgPackCodec_encode_def)
  obtain st' where run: "run_prog (tk_prog tk) C (tk_ctx tk) (quiet envs) 0 st = (Some (Ok ()), st')"
    using generate_accepted [OF assms(2,4) enc assms(3)] unfolding assms(1) by blast
  with generate_frames [OF run [unfolded assms(1)] assms(2,3)] show ?thesis
    by (fastforce simp: handler_task_def)
qed

section \<open>The emitter\<close>

lemma progress_percent_Ok:
  assumes "unat i * 100 < 2 ^ 32"
  shows "progress_percent oc i steps = Ok ((i * 100) div steps)"
    and "unat ((i * 100) div steps) = unat i * 100 div unat steps"
proof -
  have "unat (i * 100) = unat i * 100" using assms by (simp add: unat_word_ariths)
  then show "unat ((i * 100) div steps) = unat i * 100 div unat steps" by (simp add: unat_div_distrib)
  show "progress_percent oc i steps = Ok ((i * 100) div steps)"
    using assms by (simp add: progress_percent_def)
qed

lemma emit_iteration_none:
  "emit_iteration oc C ser None env n i = Some (l, out) \<Longrightarrow> out = []"
  by (auto simp: emit_iteration_def split: sum.splits)

text \<open>Once the cell is empty it stays empty, and the emitter sends nothing.\<close>

lemma events_step_silent:
  assumes "events_step oc C ser s t" and "ev_cell s = None"
  shows "ev_cell t = None \<and> ev_emitted t = ev_emitted s"
  using assms by (cases rule: events_step.cases) (auto dest: emit_iteration_none)

lemma events_steps_silent:
  assumes "(events_step oc C ser)\<^sup>*\<^sup>* s t" and "ev_cell s = None"
  shows "ev_emitted t = ev_emitted s"
proof -
  have "ev_cell t = None \<and> ev_emitted t = ev_emitted s"
    using assms by (induction rule: rtranclp_induct) (auto dest: events_step_silent)
  then show ?thesis ..
qed

definition taken :: "'v events_sys \<Rightarrow> bool" where
  "taken s \<longleftrightarrow> (ev_main s = MWait \<longrightarrow> ev_cell s = None)"

interpretation esys: invariant_system "\<lambda>s. s = events_init c st" "events_step oc C ser" taken
  for c st oc C ser
proof
  show "taken s" if "s = events_init c st" for s using that by (simp add: taken_def events_init_def)
  show "taken t" if "taken s" and "events_step oc C ser s t" for s t
    using that(2,1) by cases (auto simp: taken_def)
qed

section \<open>Properties\<close>

text \<open>A codec of strings, for the concrete runs below.\<close>

definition text_codec :: "rstr msgpack" where
  "text_codec = \<lparr>to_vec_named = (\<lambda>s. Inr (str_bytes s)), to_vec_named_str = (\<lambda>s. Inr (str_bytes s)),
     from_slice = (\<lambda>b. Inr (map (\<lambda>x. char_of (unat x)) b))\<rparr>"

abbreviation echo_request :: Frame where
  "echo_request \<equiv> Frame_new (Header_new 1 0 42 2) [104, 105]"

text \<open>C37. The echo worker answers: whichever way the registry is iterated, the schema announces \<open>echo\<close>
  under id 1 with a result; and a request with that id and a decodable payload, arriving while a
  permit is free, spawns a task that ends after putting exactly one frame into the channel, the
  response with the same request id and the message it was given, if the send is accepted. The run
  is one of the interleaved system and gives the permit back.\<close>

theorem echo_served:
  assumes "echo_builder oc de ser = Ok b" and "is_request frame ds"
    and "from_slice C (payload frame) = Ok v" and "de v = Ok input"
    and "to_vec_named C (ser \<lparr>eo_echo = ei_message input\<rparr>) = Ok p"
    and "\<forall>f. out_result (WriterHandle_send w f (envs 0)) = Some (Ok ())"
  shows "(\<forall>it evs. lists_map it (reg_methods (cb_registry b)) \<longrightarrow>
      get_method ''echo'' (build_schema it evs) = Some \<lparr>ms_id = 1, ms_response = RResult\<rparr>)
    \<and> (\<exists>tk ds1 st ds'. dispatch_frame C (cb_registry b) w frame ds = (Some tk, ds1)
        \<and> handler_task C tk (quiet envs) last_env (ds_ctx ds1) = (True, st)
        \<and> cs_sent st = cs_sent (ds_ctx ds) @ [OutboundFrame_new
            (Header_new 1 RESPONSE (request_id (header frame)) (word_of_nat (length p))) p]
        \<and> (disp_step C (cb_registry b) w)\<^sup>*\<^sup>* (ts, ds) (ts, ds') \<and> ds_ctx ds' = st
        \<and> ds_permits ds' = ds_permits ds)"
proof -
  have reg: "register oc ''echo'' RResult (typed de (echo_handler ser)) HandlerRegistry_new = Ok (cb_registry b)"
    using assms(1) by (auto simp: echo_builder_def builder_handle_def Client_builder_def ClientBuilder_new_def)
  obtain tk ds1 where d: "dispatch_frame C (cb_registry b) w frame ds = (Some tk, ds1)"
    and p: "tk_prog tk = dispatch C (cb_registry b) 1 (payload frame) (tk_ctx tk)"
    using request_spawned [OF assms(2)] by blast
  have prog: "tk_prog tk = HOp (Respond (ser \<lparr>eo_echo = ei_message input\<rparr>)) HDone"
    using p single_method(1) [OF reg] typed_call [OF assms(3), of de, OF assms(4)]
    by (simp add: echo_handler_def)
  note fresh = spawned_fresh [OF d]
  let ?op = "Respond (ser \<lparr>eo_echo = ei_message input\<rparr>)"
  obtain x st where op: "do_op C (tk_ctx tk) ?op (envs 0) (ds_ctx ds1) = (x, st)" by fastforce
  have "x = Some (Ok ()) \<and> cs_sent st = cs_sent (ds_ctx ds1) @ [ctx_frame (tk_ctx tk) RESPONSE p]"
    using do_op_accepted [OF op fresh(3) assms(6)] fresh(1) assms(5)
    by (simp add: MsgPackCodec_encode_def del: do_op.simps)
  then have x: "x = Some (Ok ())" and sent: "cs_sent st = cs_sent (ds_ctx ds) @ [OutboundFrame_new
            (Header_new 1 RESPONSE (request_id (header frame)) (word_of_nat (length p))) p]"
    using fresh(2) spawned_ctx_frame [OF d assms(2)] by simp_all
  have run: "handler_task C tk (quiet envs) last_env (ds_ctx ds1) = (True, st)"
    using op x by (simp add: handler_task_def prog abort_point_def del: do_op.simps)
  show ?thesis
    using single_method_announced [OF single_method(3) [OF reg]] d run sent request_served [OF d run, of ts]
    by fastforce
qed

lemma sample_is_request: "is_request echo_request (disp_init 1)"
  by (simp add: is_request_def Header_new_def Header_is_response_def disp_init_def)

lemma sample_sends: "out_result (WriterHandle_send sample_writer f sample_env) = Some (Ok ())"
  by (simp add: send_room WriterHandle_new_def)

theorem echo_served_witness:
  "\<exists>b tk ds1 st. echo_builder True (\<lambda>s. Ok \<lparr>ei_message = s\<rparr>) eo_echo = Ok b
    \<and> dispatch_frame text_codec (cb_registry b) sample_writer echo_request (disp_init 1) = (Some tk, ds1)
    \<and> handler_task text_codec tk sample_envs sample_env (ds_ctx ds1) = (True, st)
    \<and> cs_sent st = [OutboundFrame_new (Header_new 1 RESPONSE 42 2) [104, 105]]"
proof -
  let ?de = "\<lambda>s. Ok \<lparr>ei_message = s\<rparr>"
  obtain b where b: "echo_builder True ?de eo_echo = Ok b"
    by (simp add: echo_builder_def builder_handle_def register_def u16_inc_def Client_builder_def
        ClientBuilder_new_def HandlerRegistry_new_def Let_def)
  have "from_slice text_codec (payload echo_request) = Ok ''hi''"
    by (simp add: text_codec_def Frame_new_def char_of_def bit_Suc_0_iff)
  moreover have "to_vec_named text_codec ''hi'' = Ok [104, 105]" by (simp add: text_codec_def str_bytes_def)
  ultimately show ?thesis
    using echo_served [OF b sample_is_request, of text_codec "''hi''" "\<lparr>ei_message = ''hi''\<rparr>" "[104, 105]"
        sample_writer "\<lambda>_. sample_env" sample_env "[]"] b sample_sends
    by (fastforce simp: disp_init_def Header_new_def)
qed

text \<open>C38. The stream worker streams: \<open>generate\<close> is announced under id 1 as a stream. Whatever the sends
  do, a task spawned for a request with count \<open>n\<close> puts the chunks 0, 1, 2, \<dots> into the channel in
  order, without gaps, and after them at most one frame: the end of the stream, only after all \<open>n\<close>
  chunks, or a stream error. If every chunk can be encoded and every send is accepted, it ends with
  all \<open>n\<close> chunks and the end of the stream.\<close>

theorem stream_served:
  assumes "stream_builder oc de ser = Ok b" and "is_request frame ds"
    and "from_slice C (payload frame) = Ok v" and "de v = Ok input" and "n = unat (gi_count input)"
  shows "(\<forall>it evs. lists_map it (reg_methods (cb_registry b)) \<longrightarrow>
      get_method ''generate'' (build_schema it evs) = Some \<lparr>ms_id = 1, ms_response = RStream\<rparr>)
    \<and> (\<exists>tk ds1. dispatch_frame C (cb_registry b) w frame ds = (Some tk, ds1)
        \<and> (\<forall>envs last_env fin st. handler_task C tk (quiet envs) last_env (ds_ctx ds1) = (fin, st) \<longrightarrow>
             (\<exists>k \<le> n. \<exists>tl. cs_sent st = cs_sent (ds_ctx ds) @ map (chunk_frame C ser (tk_ctx tk)) [0..<k] @ tl
             \<and> (tl = [] \<or> k = n \<and> tl = [ctx_frame (tk_ctx tk) STREAM_END_RESPONSE []]
                \<or> (\<exists>data. tl = [ctx_frame (tk_ctx tk) STREAM_ERROR_RESPONSE data]))))
        \<and> (\<forall>envs last_env. (\<forall>i f. out_result (WriterHandle_send w f (envs i)) = Some (Ok ()))
             \<and> (\<forall>i < n. \<exists>data. to_vec_named C (ser (chunk_at i)) = Ok data) \<longrightarrow>
             (\<exists>st. handler_task C tk (quiet envs) last_env (ds_ctx ds1) = (True, st)
             \<and> cs_sent st = cs_sent (ds_ctx ds) @ map (chunk_frame C ser (tk_ctx tk)) [0..<n]
                 @ [ctx_frame (tk_ctx tk) STREAM_END_RESPONSE []])))"
proof -
  have reg: "register oc ''generate'' RStream (typed de (generate_handler ser)) HandlerRegistry_new = Ok (cb_registry b)"
    using assms(1) by (auto simp: stream_builder_def builder_handle_stream_def Client_builder_def ClientBuilder_new_def)
  obtain tk ds1 where d: "dispatch_frame C (cb_registry b) w frame ds = (Some tk, ds1)"
    and p: "tk_prog tk = dispatch C (cb_registry b) 1 (payload frame) (tk_ctx tk)"
    using request_spawned [OF assms(2)] by blast
  have prog: "tk_prog tk = generate_from ser [0..<n]"
    using p single_method(1) [OF reg] typed_call [OF assms(3), of de, OF assms(4)] assms(5)
    by (simp add: generate_handler_def)
  note fresh = spawned_fresh [OF d]
  have ef: "error_flags (tk_ctx tk) = STREAM_ERROR_RESPONSE"
    using dispatch_frame_spawn(1) [OF d] single_method(2) [OF reg] assms(2)
    by (simp add: error_flags_def is_request_def)
  note always = generate_task_frames [OF _ prog fresh(3,1), unfolded fresh(2) ef]
  note complete = generate_task_complete [OF prog fresh(3,1), unfolded fresh(2)]
  show ?thesis
    using single_method_announced [OF single_method(3) [OF reg]] d always complete by auto
qed

theorem stream_served_witness:
  "\<exists>b tk ds1 st. stream_builder True (\<lambda>s. Ok \<lparr>gi_count = word_of_nat (length s)\<rparr>) ch_data = Ok b
    \<and> dispatch_frame text_codec (cb_registry b) sample_writer echo_request (disp_init 1) = (Some tk, ds1)
    \<and> handler_task text_codec tk sample_envs sample_env (ds_ctx ds1) = (True, st)
    \<and> cs_sent st = [ctx_frame (tk_ctx tk) STREAM_CHUNK (str_bytes ''Chunk 0''),
        ctx_frame (tk_ctx tk) STREAM_CHUNK (str_bytes ''Chunk 1''), ctx_frame (tk_ctx tk) STREAM_END_RESPONSE []]"
proof -
  let ?de = "\<lambda>s. Ok \<lparr>gi_count = word_of_nat (length s)\<rparr>"
  obtain b where b: "stream_builder True ?de ch_data = Ok b"
    by (simp add: stream_builder_def builder_handle_stream_def register_def u16_inc_def Client_builder_def
        ClientBuilder_new_def HandlerRegistry_new_def Let_def)
  have dec: "from_slice text_codec (payload echo_request) = Ok ''hi''"
    by (simp add: text_codec_def Frame_new_def char_of_def bit_Suc_0_iff)
  have frames: "chunk_frame text_codec ch_data ctx i = ctx_frame ctx STREAM_CHUNK (str_bytes (''Chunk '' @ show_dec i))" for ctx i
    by (simp add: chunk_frame_def text_codec_def MsgPackCodec_encode_def chunk_at_def)
  have enc: "\<exists>data. to_vec_named text_codec (ch_data (chunk_at i)) = Ok data" for i
    by (simp add: text_codec_def)
  have upt: "[0..<2] = [0, 1 :: nat]" by (simp add: upt_rec)
  from stream_served [OF b sample_is_request dec refl refl, of sample_writer] obtain tk ds1 where
    d: "dispatch_frame text_codec (cb_registry b) sample_writer echo_request (disp_init 1) = (Some tk, ds1)"
    and run: "\<forall>envs last_env. (\<forall>i f. out_result (WriterHandle_send sample_writer f (envs i)) = Some (Ok ()))
         \<longrightarrow> (\<exists>st. handler_task text_codec tk (quiet envs) last_env (ds_ctx ds1) = (True, st)
         \<and> cs_sent st = cs_sent (ds_ctx (disp_init 1)) @ map (chunk_frame text_codec ch_data (tk_ctx tk)) [0..<2]
             @ [ctx_frame (tk_ctx tk) STREAM_END_RESPONSE []])"
    using enc by (auto simp: text_codec_def)
  from run [rule_format, of "\<lambda>_. sample_env" sample_env] sample_sends obtain st where
    "handler_task text_codec tk sample_envs sample_env (ds_ctx ds1) = (True, st)"
    "cs_sent st = map (chunk_frame text_codec ch_data (tk_ctx tk)) [0..<2] @ [ctx_frame (tk_ctx tk) STREAM_END_RESPONSE []]"
    by (auto simp: disp_init_def)
  moreover have "show_dec 0 = ''0''" "show_dec 1 = ''1''" by code_simp+
  ultimately show ?thesis using b d by (simp add: frames upt)
qed

text \<open>C39. The event worker never reports progress once \<open>main\<close> waits for the shutdown: \<open>main\<close> takes the
  client out of the shared cell right after spawning the emitter, and from then on no event is put
  into the channel, whatever work is acknowledged.\<close>

theorem events_worker_silent:
  assumes "(events_step oc C ser)\<^sup>*\<^sup>* (events_init c st) s" and "ev_main s = MWait"
    and "(events_step oc C ser)\<^sup>*\<^sup>* s t"
  shows "ev_emitted t = ev_emitted s"
proof -
  have "taken s" using esys.inv_reachable [OF refl assms(1)] .
  with assms(2) show ?thesis by (intro events_steps_silent [OF assms(3)]) (simp add: taken_def)
qed

abbreviation sample_client :: "rstr Client" where
  "sample_client \<equiv> \<lparr>cl_registry = HandlerRegistry_new\<lparr>reg_events := [''progress'' \<mapsto> 1]\<rparr>, cl_writer = sample_writer,
     cl_shutdown_rx = 0, cl_shutdown_token = 0, cl_connection = \<lparr>ad_reads = [],
       ad_buffer = FrameBuffer_with_max_payload 100, ad_frames = []\<rparr>, cl_dispatch = disp_init 1\<rparr>"

text \<open>A run in which work of one step is acknowledged and carried out after \<open>main\<close> has taken the
  client: the emitter is done with it, and nothing was emitted.\<close>

lemma events_sample_run:
  "\<exists>s t st. events_step True text_codec pe_message (events_init sample_client sample_cs) s \<and> ev_main s = MWait
    \<and> (events_step True text_codec pe_message)\<^sup>*\<^sup>* s t \<and> ack sample_ctx sample_env sample_cs = (Some (Ok ()), st)
    \<and> cs_sent (ev_ctx t) = cs_sent st \<and> ev_emitter t = EWork 1 2 \<and> ev_emitted s = []"
proof -
  let ?step = "events_step True text_codec pe_message"
  let ?s0 = "(events_init sample_client sample_cs)\<lparr>ev_main := MWait, ev_cell := None\<rparr>"
  obtain st where a: "ack sample_ctx sample_env sample_cs = (Some (Ok ()), st)"
    by (simp add: ack_def marked_eq has_responded_def send_frame_empty_eq send_frame_def send_via_def
        send_room WriterHandle_new_def)
  let ?s1 = "?s0\<lparr>ev_ctx := st, ev_sending := [1]\<rparr>"
  let ?s2 = "?s1\<lparr>ev_sending := [], ev_queue := [(1, 0)]\<rparr>"
  let ?s3 = "?s2\<lparr>ev_queue := [], ev_emitter := EWork 1 1\<rparr>"
  let ?s4 = "?s3\<lparr>ev_emitter := EWork 1 2\<rparr>"
  have "?step (events_init sample_client sample_cs) ?s0" by (rule e_take) (simp add: events_init_def)
  moreover have "?step ?s0 ?s1"
    using e_ack [of sample_ctx sample_env ?s0 st True text_codec pe_message "\<lparr>wi_steps = 1\<rparr>"] a
    by (simp add: events_init_def)
  moreover have "?step ?s1 ?s2"
    using e_queue [of ?s1 "[]" 1 "[]" True text_codec pe_message] by (simp add: events_init_def)
  moreover have "?step ?s2 ?s3"
    using e_recv [of ?s2 1 0 "[]" True text_codec pe_message] by (simp add: events_init_def)
  moreover have "?step ?s3 ?s4"
    using e_iterate [of ?s3 1 1 True text_codec pe_message sample_env "EWork 1 2" "[]"]
    by (simp add: events_init_def emit_iteration_def progress_at_def progress_percent_def)
  ultimately have "?step (events_init sample_client sample_cs) ?s0" "?step\<^sup>*\<^sup>* ?s0 ?s4"
    by (meson rtranclp.intros)+
  then show ?thesis using a by (intro exI [of _ ?s0] exI [of _ ?s4] exI [of _ st]) (simp add: events_init_def)
qed

theorem events_worker_silent_witness:
  "\<exists>s t. (events_step True text_codec pe_message)\<^sup>*\<^sup>* s t \<and> ev_main s = MWait
     \<and> ev_emitter t = EWork 1 2 \<and> ev_emitted t = []"
proof -
  from events_sample_run obtain s t where
    "events_step True text_codec pe_message (events_init sample_client sample_cs) s" "ev_main s = MWait"
    "(events_step True text_codec pe_message)\<^sup>*\<^sup>* s t" "ev_emitter t = EWork 1 2" "ev_emitted s = []" by blast
  with events_worker_silent [OF r_into_rtranclp, of True text_codec pe_message sample_client sample_cs s t]
  show ?thesis by auto
qed

text \<open>The event worker announces its method as an acknowledged one and its event, both under id 1.\<close>

theorem events_announced:
  assumes "events_builder oc de = Ok b" and "lists_map it (reg_methods (cb_registry b))"
    and "lists_map evs (reg_events (cb_registry b))"
  shows "get_method ''start_work'' (build_schema it evs) = Some \<lparr>ms_id = 1, ms_response = RAck\<rparr>
    \<and> get_event ''progress'' (build_schema it evs) = Some \<lparr>es_id = 1\<rparr>"
proof -
  have "reg_methods (cb_registry b) ''start_work'' =
      Some \<lparr>me_handler = TypedHandler_new (typed de start_work_handler), me_response_type = RAck, me_id = 1\<rparr>"
    and "get_event_id (cb_registry b) ''progress'' = Some 1"
    using assms(1)
    by (auto simp: events_builder_def builder_handle_ack_def builder_event_def register_def register_event_def
        u16_inc_def Client_builder_def ClientBuilder_new_def HandlerRegistry_new_def Let_def get_event_id_def)
  with build_schema_announces [OF assms(2,3)] show ?thesis by (simp add: EventSchema.make_def)
qed

theorem events_announced_witness:
  "\<exists>b it evs. events_builder True (\<lambda>s :: rstr. Ok \<lparr>wi_steps = 1\<rparr>) = Ok b
     \<and> lists_map it (reg_methods (cb_registry b)) \<and> get_event ''progress'' (build_schema it evs) = Some \<lparr>es_id = 1\<rparr>"
proof -
  let ?de = "\<lambda>s :: rstr. Ok \<lparr>wi_steps = 1\<rparr>"
  obtain b where b: "events_builder True ?de = Ok b"
    "reg_methods (cb_registry b) = [''start_work'' \<mapsto> \<lparr>me_handler = TypedHandler_new (typed ?de start_work_handler),
       me_response_type = RAck, me_id = 1\<rparr>]" "reg_events (cb_registry b) = [''progress'' \<mapsto> 1]"
    by (simp add: events_builder_def builder_handle_ack_def builder_event_def register_def register_event_def
        u16_inc_def Client_builder_def ClientBuilder_new_def HandlerRegistry_new_def Let_def)
  let ?it = "[(''start_work'', \<lparr>me_handler = TypedHandler_new (typed ?de start_work_handler),
       me_response_type = RAck, me_id = 1\<rparr>)]"
  have it: "lists_map ?it (reg_methods (cb_registry b))" "lists_map [(''progress'', 1)] (reg_events (cb_registry b))"
    using b(2,3) by (simp_all add: lists_map_def)
  from events_announced [OF b(1) it] b(1) it(1) show ?thesis by blast
qed

text \<open>The percentage the emitter computes for step \<open>i\<close> of \<open>steps\<close> is exact, at most 100, and 100 only at
  the last step, as long as \<open>100 * i\<close> fits 32 bits; beyond that, from step 42949673 on, a build with
  overflow checks panics in the emitter task.\<close>

theorem progress_percent_exact:
  assumes "1 \<le> unat i" and "unat i \<le> unat steps"
  shows "if unat i \<le> 42949672
    then \<exists>p. progress_percent oc i steps = Ok p \<and> unat p = unat i * 100 div unat steps
      \<and> unat p \<le> 100 \<and> (unat p = 100 \<longleftrightarrow> i = steps)
    else progress_percent True i steps = Err (Panic ''attempt to multiply with overflow'')"
proof (cases "unat i \<le> 42949672")
  case True
  then have f: "unat i * 100 < 2 ^ 32" by simp
  have pos: "0 < unat steps" using assms by simp
  have le: "unat i * 100 div unat steps \<le> 100"
    using assms by (metis div_le_mono div_mult_self1_is_m mult_le_mono1 pos)
  have "unat i * 100 div unat steps = 100 \<longleftrightarrow> unat i = unat steps"
  proof
    assume "unat i * 100 div unat steps = 100"
    then have "unat steps * 100 \<le> unat i * 100" by (metis div_times_less_eq_dividend mult.commute)
    then show "unat i = unat steps" using assms by simp
  qed (use pos in simp)
  then have "unat i * 100 div unat steps = 100 \<longleftrightarrow> i = steps" by (simp only: word_unat_eq_iff)
  with progress_percent_Ok(1) [OF f, of oc steps] progress_percent_Ok(2) [OF f, of steps] le True
  show ?thesis by simp
next
  case False
  then show ?thesis by (simp add: progress_percent_def)
qed

theorem progress_percent_exact_witness:
  "\<exists>p. progress_percent True 7 7 = Ok p \<and> unat p = 100"
  using progress_percent_exact [of 7 7 True] by auto

end
