(* ===== verification/Library_Tests.thy ===== *)
theory Library_Tests
  imports Protocol_Tests Examples
begin

text \<open>
  The unit tests outside \<open>src/protocol/\<close>, carried out on the model: \<open>backpressure.rs\<close>, \<open>writer.rs\<close>,
  \<open>control/init.rs\<close>, \<open>handler/context.rs\<close>, \<open>handler/registry.rs\<close> and \<open>client.rs\<close>. As in \<open>Protocol_Tests\<close>
  each test function is a Boolean definition with its assertions in their order. Where a test lets
  time pass or starts a task, the definition says what the other side does; codecs are arguments, and
  the theorems say what of them the tests rely on. Left out are the tests whose outcome only says that
  a value can be built; those that watch a running task from outside are in \<open>Interface_Tests\<close>.
\<close>

section \<open>Tests of the backpressure controller\<close>

text \<open>\<open>try_reserve().unwrap()\<close> \<open>n\<close> times.\<close>

fun reserve_times :: "nat \<Rightarrow> BackpressureController \<Rightarrow> heap \<Rightarrow> heap option" where
  "reserve_times 0 c h = Some h"
| "reserve_times (Suc n) c h = (case try_reserve c h of (Inr _, h) \<Rightarrow> reserve_times n c h | (Inl _, h) \<Rightarrow> None)"

definition then_holds :: "heap option \<Rightarrow> (heap \<Rightarrow> bool) \<Rightarrow> bool" where
  "then_holds x P = (case x of None \<Rightarrow> False | Some h \<Rightarrow> P h)"

definition test_controller_creation :: "arc \<Rightarrow> heap \<Rightarrow> bool" where
  "test_controller_creation a h \<longleftrightarrow>
     (let (ctrl, h) = BackpressureController_new 100 a h in
      bp_limit ctrl = 100 \<and> bp_pending_count ctrl h = 0 \<and> can_accept ctrl h \<and> \<not> is_active ctrl h)"

definition test_controller_default :: "arc \<Rightarrow> heap \<Rightarrow> bool" where
  "test_controller_default a h \<longleftrightarrow>
     (let (ctrl, h) = BackpressureController_default a h in bp_limit ctrl = DEFAULT_MAX_PENDING)"

definition test_try_reserve_success :: "arc \<Rightarrow> heap \<Rightarrow> bool" where
  "test_try_reserve_success a h \<longleftrightarrow>
     (let (ctrl, h) = BackpressureController_new 10 a h in
      then_holds (reserve_times 10 ctrl h) (\<lambda>h. bp_pending_count ctrl h = 10 \<and> is_active ctrl h))"

definition test_try_reserve_at_capacity :: "arc \<Rightarrow> heap \<Rightarrow> bool" where
  "test_try_reserve_at_capacity a h \<longleftrightarrow>
     (let (ctrl, h) = BackpressureController_new 5 a h in
      then_holds (reserve_times 5 ctrl h) (\<lambda>h. fst (try_reserve ctrl h) = Err BackpressureTimeout))"

definition test_release :: "arc \<Rightarrow> heap \<Rightarrow> bool" where
  "test_release a h \<longleftrightarrow>
     (let (ctrl, h) = BackpressureController_new 10 a h in
      then_holds (reserve_times 2 ctrl h) (\<lambda>h. bp_pending_count ctrl h = 2
        \<and> (let h = release ctrl h in bp_pending_count ctrl h = 1
        \<and> (let h = release ctrl h in bp_pending_count ctrl h = 0))))"

definition test_release_many :: "arc \<Rightarrow> heap \<Rightarrow> bool" where
  "test_release_many a h \<longleftrightarrow>
     (let (ctrl, h) = BackpressureController_new 100 a h in
      then_holds (reserve_times 50 ctrl h) (\<lambda>h. bp_pending_count ctrl h = 50
        \<and> bp_pending_count ctrl (release_many ctrl 30 h) = 20))"

definition test_available_capacity :: "arc \<Rightarrow> heap \<Rightarrow> bool" where
  "test_available_capacity a h \<longleftrightarrow>
     (let (ctrl, h) = BackpressureController_new 100 a h in
      available_capacity ctrl h = 100
    \<and> then_holds (reserve_times 1 ctrl h) (\<lambda>h. available_capacity ctrl h = 99
      \<and> then_holds (reserve_times 50 ctrl h) (\<lambda>h. available_capacity ctrl h = 49)))"

definition test_clone_shares_state :: "arc \<Rightarrow> heap \<Rightarrow> bool" where
  "test_clone_shares_state a h \<longleftrightarrow>
     (let (ctrl1, h) = BackpressureController_new 10 a h; ctrl2 = BackpressureController_clone ctrl1 in
      then_holds (reserve_times 1 ctrl1 h) (\<lambda>h. bp_pending_count ctrl2 h = 1
      \<and> then_holds (reserve_times 1 ctrl2 h) (\<lambda>h. bp_pending_count ctrl1 h = 2)))"

definition test_from_shared :: "arc \<Rightarrow> heap \<Rightarrow> bool" where
  "test_from_shared pending h \<longleftrightarrow>
     (let h = h(pending := 5); ctrl = from_shared pending 10 (from_secs 1) in
      bp_pending_count ctrl h = 5 \<and> \<not> is_active ctrl h
    \<and> (let h = h(pending := 10) in is_active ctrl h))"

definition test_reserve_immediate :: "arc \<Rightarrow> heap \<Rightarrow> bool" where
  "test_reserve_immediate a h \<longleftrightarrow>
     (let (ctrl, h) = BackpressureController_new 10 a h in
      case reserve ctrl id h [] of (Some (Inr _), h) \<Rightarrow> bp_pending_count ctrl h = 1 | _ \<Rightarrow> False)"

text \<open>Nobody releases, and the clock is looked at after 5 ms and after more than 10 ms, before which
  there is no timeout; in the second test somebody releases while the caller sleeps.\<close>

definition test_reserve_timeout :: "arc \<Rightarrow> heap \<Rightarrow> bool" where
  "test_reserve_timeout a h \<longleftrightarrow>
     (let (ctrl, h) = BackpressureController_with_timeout 1 (from_micros 10000) a h in
      then_holds (reserve_times 1 ctrl h) (\<lambda>h.
        fst (reserve ctrl id h [quiet_round (from_micros 5000), quiet_round (from_micros 10001)]) = Some (Err BackpressureTimeout)
      \<and> fst (reserve ctrl id h [quiet_round (from_micros 5000), quiet_round (from_micros 9999)]) = None))"

definition test_reserve_wait_success :: "arc \<Rightarrow> heap \<Rightarrow> bool" where
  "test_reserve_wait_success a h \<longleftrightarrow>
     (let (ctrl, h) = BackpressureController_with_timeout 1 (from_secs 1) a h;
          ctrl_clone = BackpressureController_clone ctrl
      in then_holds (reserve_times 1 ctrl h) (\<lambda>h.
        fst (reserve ctrl id h [quiet_round (from_micros 5000),
          \<lparr>wr_before = release ctrl_clone, wr_between = id, wr_elapsed = from_micros 10000\<rparr>]) = Some (Ok ())))"

definition test_reset :: "arc \<Rightarrow> heap \<Rightarrow> bool" where
  "test_reset a h \<longleftrightarrow>
     (let (ctrl, h) = BackpressureController_new 100 a h in
      then_holds (reserve_times 50 ctrl h) (\<lambda>h. bp_pending_count ctrl h = 50
        \<and> bp_pending_count ctrl (BackpressureController_reset ctrl h) = 0))"

definition test_guard_release_on_drop :: "arc \<Rightarrow> heap \<Rightarrow> bool" where
  "test_guard_release_on_drop a h \<longleftrightarrow>
     (let (ctrl, h) = BackpressureController_new 10 a h in
      then_holds (reserve_times 1 ctrl h) (\<lambda>h.
        let guard = BackpressureGuard_new (BackpressureController_clone ctrl) in
        bp_pending_count ctrl h = 1
      \<and> (let h = BackpressureGuard_drop guard h in bp_pending_count ctrl h = 0)))"

definition test_guard_manual_release :: "arc \<Rightarrow> heap \<Rightarrow> bool" where
  "test_guard_manual_release a h \<longleftrightarrow>
     (let (ctrl, h) = BackpressureController_new 10 a h in
      then_holds (reserve_times 1 ctrl h) (\<lambda>h.
        let guard = BackpressureGuard_new (BackpressureController_clone ctrl) in
        bp_pending_count ctrl h = 1
      \<and> (let h = BackpressureGuard_release guard h in bp_pending_count ctrl h = 0)))"

definition test_guard_disarm :: "arc \<Rightarrow> heap \<Rightarrow> bool" where
  "test_guard_disarm a h \<longleftrightarrow>
     (let (ctrl, h) = BackpressureController_new 10 a h in
      then_holds (reserve_times 1 ctrl h) (\<lambda>h.
        let guard = BackpressureGuard_disarm (BackpressureGuard_new (BackpressureController_clone ctrl));
            h = BackpressureGuard_drop guard h
        in bp_pending_count ctrl h = 1))"

lemma reserve_times_eq:
  "unat (h (bp_pending c)) + n \<le> unat (bp_max_pending c) \<Longrightarrow>
   reserve_times n c h = Some (h(bp_pending c := h (bp_pending c) + of_nat n))"
proof (induction n arbitrary: h)
  case (Suc n)
  have lt: "h (bp_pending c) < bp_max_pending c" using Suc.prems by (simp add: word_less_nat_alt)
  have "Suc (unat (h (bp_pending c))) < 2 ^ 64"
    using Suc.prems unsigned_less [of "bp_max_pending c", where 'a = nat] by simp
  then have "unat (h (bp_pending c) + 1) = Suc (unat (h (bp_pending c)))" by (simp add: unat_word_ariths)
  then have "reserve_times n c (fetch_add (bp_pending c) 1 h)
      = Some ((fetch_add (bp_pending c) 1 h)(bp_pending c := fetch_add (bp_pending c) 1 h (bp_pending c) + of_nat n))"
    using Suc.prems by (intro Suc.IH) (simp add: fetch_add_def)
  moreover have "try_reserve c h = (Ok (), fetch_add (bp_pending c) 1 h)" using lt by (simp add: try_reserve_def)
  ultimately show ?case by (simp add: fetch_add_def add.assoc) (simp add: fun_eq_iff)
qed simp

lemmas backpressure_defs = BackpressureController_new_def BackpressureController_with_timeout_def
  BackpressureController_default_def BackpressureController_clone_def from_shared_def bp_limit_def
  bp_pending_count_def can_accept_def is_active_def available_capacity_def saturating_sub_def try_reserve_def
  reserve_def release_def release_many_def fetch_add_def fetch_sub_def BackpressureController_reset_def
  BackpressureGuard_new_def BackpressureGuard_drop_def BackpressureGuard_release_def BackpressureGuard_disarm_def
  from_secs_def from_micros_def

theorem backpressure_tests_pass:
  "test_controller_creation a h \<and> test_controller_default a h \<and> test_try_reserve_success a h
   \<and> test_try_reserve_at_capacity a h \<and> test_release a h \<and> test_release_many a h \<and> test_available_capacity a h
   \<and> test_clone_shares_state a h \<and> test_from_shared a h \<and> test_reserve_immediate a h \<and> test_reserve_timeout a h
   \<and> test_reserve_wait_success a h \<and> test_reset a h \<and> test_guard_release_on_drop a h
   \<and> test_guard_manual_release a h \<and> test_guard_disarm a h"
  by (intro conjI; simp add: test_controller_creation_def test_controller_default_def test_try_reserve_success_def
      test_try_reserve_at_capacity_def test_release_def test_release_many_def test_available_capacity_def
      test_clone_shares_state_def test_from_shared_def test_reserve_immediate_def test_reserve_timeout_def
      test_reserve_wait_success_def test_reset_def test_guard_release_on_drop_def test_guard_manual_release_def
      test_guard_disarm_def then_holds_def reserve_times_eq backpressure_defs word_le_nat_alt)

section \<open>Tests of the writer\<close>

definition test_outbound_frame_creation :: bool where
  "test_outbound_frame_creation \<longleftrightarrow>
     (let frame = OutboundFrame_new (Header_new 1 0x03 42 5) (str_bytes ''hello'') in
      length (of_header frame) = HEADER_SIZE \<and> length (of_payload frame) = 5
    \<and> OutboundFrame_size frame = HEADER_SIZE + 5)"

definition test_outbound_frame_empty :: bool where
  "test_outbound_frame_empty \<longleftrightarrow>
     (let frame = OutboundFrame_empty (Header_new 1 0x23 42 0) in
      of_payload frame = [] \<and> OutboundFrame_size frame = HEADER_SIZE)"

definition test_writer_config_default :: bool where
  "test_writer_config_default \<longleftrightarrow>
     (let config = WriterConfig_default in
      max_pending_frames config = DEFAULT_MAX_PENDING_FRAMES \<and> channel_capacity config = DEFAULT_CHANNEL_CAPACITY
    \<and> backpressure_timeout config = DEFAULT_BACKPRESSURE_TIMEOUT)"

definition test_writer_handle_pending_count :: "arc \<Rightarrow> heap \<Rightarrow> bool" where
  "test_writer_handle_pending_count a h \<longleftrightarrow>
     (let config = \<lparr>max_pending_frames = 1000, channel_capacity = 100, backpressure_timeout = from_secs 1\<rparr> in
      case spawn_writer_task (\<lambda>_. Ok 0) config a h of
        Inr (handle, h) \<Rightarrow> WriterHandle_pending_count handle h = 0 \<and> \<not> is_backpressure_active handle h
      | Inl _ \<Rightarrow> False)"

definition test_try_send_at_capacity :: "(unit, TrySendError) result \<Rightarrow> bool" where
  "test_try_send_at_capacity answer \<longleftrightarrow>
     (let handle = WriterHandle_new 0 0 100 (from_secs 1);
          frame = OutboundFrame_empty (Header_new 1 0x03 42 0)
      in out_result (WriterHandle_try_send handle frame 100 answer) = Some (Err BackpressureTimeout))"

definition hello_batch :: "OutboundFrame list" where
  "hello_batch = [OutboundFrame_new (Header_new 1 0x03 42 5) (str_bytes ''hello'')]"

definition test_build_remaining_slices_no_skip :: bool where
  "test_build_remaining_slices_no_skip \<longleftrightarrow> length (build_remaining_slices hello_batch 0) = 2"

definition test_build_remaining_slices_partial_header :: bool where
  "test_build_remaining_slices_partial_header \<longleftrightarrow>
     (let slices = build_remaining_slices hello_batch 5 in
      length slices = 2 \<and> length (slices ! 0) = HEADER_SIZE - 5 \<and> length (slices ! 1) = 5)"

definition test_build_remaining_slices_skip_header :: bool where
  "test_build_remaining_slices_skip_header \<longleftrightarrow>
     (let slices = build_remaining_slices hello_batch HEADER_SIZE in
      length slices = 1 \<and> length (slices ! 0) = 5)"

text \<open>\<open>Cursor<Vec<u8>>\<close> takes all slices at once; the tests hold for every writer that keeps its
  contract.\<close>

definition cursor :: "bytes async_write" where
  "cursor = \<lparr>write_vectored = (\<lambda>ss w. (Inr (length (concat ss)), w @ concat ss)), flush = (\<lambda>w. (Inr (), w))\<rparr>"

definition test_write_batch_single :: "'w async_write \<Rightarrow> ('w \<Rightarrow> bytes) \<Rightarrow> 'w \<Rightarrow> bool" where
  "test_write_batch_single W into_inner buf \<longleftrightarrow>
     (case write_batch W hello_batch buf of
        (Inr _, buf) \<Rightarrow> length (into_inner buf) = HEADER_SIZE + 5 | (Inl _, _) \<Rightarrow> False)"

definition test_write_batch_multiple :: "'w async_write \<Rightarrow> ('w \<Rightarrow> bytes) \<Rightarrow> 'w \<Rightarrow> bool" where
  "test_write_batch_multiple W into_inner buf \<longleftrightarrow>
     (let batch = map (\<lambda>i. OutboundFrame_new (Header_new 1 0x03 (of_nat i) 3) (str_bytes ''abc'')) [0..<5] in
      case write_batch W batch buf of
        (Inr _, buf) \<Rightarrow> length (into_inner buf) = 5 * (HEADER_SIZE + 3) | (Inl _, _) \<Rightarrow> False)"

definition test_writer_shutdown_on_channel_close :: "'w async_write \<Rightarrow> 'w \<Rightarrow> bool" where
  "test_writer_shutdown_on_channel_close W w \<longleftrightarrow> fst (writer_loop 1 drained W [] w) = Some (Ok ())"

section \<open>Tests of the \<open>$init\<close> message\<close>

text \<open>\<open>serde_json::from_str(&msg).unwrap()\<close> and the assertions on the parsed value.\<close>

definition parsed_init ::
  "(json \<Rightarrow> (rstr, rstr) result) \<Rightarrow> (rstr \<Rightarrow> (json, rstr) result) \<Rightarrow> InitSchema \<Rightarrow> (json \<Rightarrow> bool) \<Rightarrow> bool" where
  "parsed_init to_string from_str schema P =
     (case build_init_message to_string ''/tmp/test.sock'' schema of
        Inl _ \<Rightarrow> False
      | Inr msg \<Rightarrow> (case from_str msg of Inl _ \<Rightarrow> False | Inr parsed \<Rightarrow> P parsed))"

definition test_build_init_message_format where
  "test_build_init_message_format to_string from_str \<longleftrightarrow>
     (let schema = InitSchema_new; schema = add_method ''echo'' 1 RResult schema;
          schema = add_method ''generate'' 2 RStream schema; schema = add_event ''progress'' 3 schema
      in parsed_init to_string from_str schema (\<lambda>parsed.
           json_path parsed [''jsonrpc''] = Some (JString ''2.0'')
         \<and> json_path parsed [''method''] = Some (JString ''$init'')
         \<and> json_path parsed [''params'', ''pipe''] = Some (JString ''/tmp/test.sock'')
         \<and> json_path parsed [''params'', ''version''] = Some (JString ''1.0.0'')))"

definition test_method_schema where
  "test_method_schema to_string from_str \<longleftrightarrow>
     (let schema = add_method ''echo'' 1 RResult InitSchema_new in
      parsed_init to_string from_str schema (\<lambda>parsed.
        json_path parsed [''params'', ''schema'', ''methods'', ''echo'', ''id''] = Some (JNumber 1)
      \<and> json_path parsed [''params'', ''schema'', ''methods'', ''echo'', ''response''] = Some (JString ''result'')))"

definition test_event_schema where
  "test_event_schema to_string from_str \<longleftrightarrow>
     (let schema = add_event ''progress'' 5 InitSchema_new in
      parsed_init to_string from_str schema (\<lambda>parsed.
        json_path parsed [''params'', ''schema'', ''events'', ''progress'', ''id''] = Some (JNumber 5)))"

definition test_response_types where
  "test_response_types to_string from_str \<longleftrightarrow>
     (let schema = InitSchema_new; schema = add_method ''result_method'' 1 RResult schema;
          schema = add_method ''stream_method'' 2 RStream schema; schema = add_method ''ack_method'' 3 RAck schema;
          schema = add_method ''none_method'' 4 RNone schema
      in parsed_init to_string from_str schema (\<lambda>parsed.
           json_path parsed [''params'', ''schema'', ''methods'', ''result_method'', ''response''] = Some (JString ''result'')
         \<and> json_path parsed [''params'', ''schema'', ''methods'', ''stream_method'', ''response''] = Some (JString ''stream'')
         \<and> json_path parsed [''params'', ''schema'', ''methods'', ''ack_method'', ''response''] = Some (JString ''ack'')
         \<and> json_path parsed [''params'', ''schema'', ''methods'', ''none_method'', ''response''] = Some (JString ''none'')))"

definition test_empty_schema where
  "test_empty_schema to_string from_str \<longleftrightarrow>
     InitSchema_is_empty InitSchema_new
   \<and> parsed_init to_string from_str InitSchema_new (\<lambda>parsed.
        json_path parsed [''params'', ''schema'', ''methods''] = Some (JObject Map.empty)
      \<and> json_path parsed [''params'', ''schema'', ''events''] = Some (JObject Map.empty))"

definition test_schema_get_method :: bool where
  "test_schema_get_method \<longleftrightarrow>
     (let schema = add_method ''echo'' 1 RResult InitSchema_new in
      (case get_method ''echo'' schema of Some m \<Rightarrow> ms_id m = 1 \<and> ms_response m = RResult | None \<Rightarrow> False)
    \<and> get_method ''nonexistent'' schema = None)"

definition test_schema_get_event :: bool where
  "test_schema_get_event \<longleftrightarrow>
     (let schema = add_event ''progress'' 5 InitSchema_new in
      (case get_event ''progress'' schema of Some e \<Rightarrow> es_id e = 5 | None \<Rightarrow> False)
    \<and> get_event ''nonexistent'' schema = None)"

theorem writer_tests_pass:
  "test_outbound_frame_creation \<and> test_outbound_frame_empty \<and> test_build_remaining_slices_no_skip
   \<and> test_build_remaining_slices_partial_header \<and> test_build_remaining_slices_skip_header"
  by (intro conjI; code_simp)

theorem writer_task_tests_pass:
  "test_writer_config_default \<and> test_try_send_at_capacity answer \<and> test_writer_handle_pending_count a h
   \<and> test_writer_shutdown_on_channel_close W w"
  by (intro conjI; simp add: test_writer_config_default_def WriterConfig_default_def test_try_send_at_capacity_def
      WriterHandle_try_send_def WriterHandle_new_def test_writer_handle_pending_count_def spawn_writer_task_def
      WriterHandle_pending_count_def is_backpressure_active_def test_writer_shutdown_on_channel_close_def drained_def)

lemma write_batch_length:
  assumes "async_write_contract W sink" and "async_write_progress W" and "sink w = []" and "list_all outbound_ok batch"
  shows "case write_batch W batch w of (Inr _, w) \<Rightarrow> length (sink w) = length (batch_bytes batch) | (Inl _, _) \<Rightarrow> False"
  using write_batch_wrote [OF assms(1,4), of w] write_batch_progress [OF assms(2,4), of w] assms(3)
  by (cases "write_batch W batch w") (auto simp: wrote_def)

theorem write_batch_tests_pass:
  assumes "async_write_contract W sink" and "async_write_progress W" and "sink w = []"
  shows "test_write_batch_single W sink w \<and> test_write_batch_multiple W sink w"
proof -
  let ?fs = "map (\<lambda>i. OutboundFrame_new (Header_new 1 0x03 (of_nat i) 3) (str_bytes ''abc'')) [0..<5]"
  have "length (batch_bytes hello_batch) = HEADER_SIZE + 5" "length (batch_bytes ?fs) = 5 * (HEADER_SIZE + 3)"
    by (simp_all add: hello_batch_def upt_rec build_frame_eq str_bytes_def HEADER_SIZE_def)
  moreover have "list_all outbound_ok hello_batch" "list_all outbound_ok ?fs"
    by (simp_all add: hello_batch_def list_all_iff)
  ultimately show ?thesis
    using write_batch_length [OF assms, of hello_batch] write_batch_length [OF assms, of ?fs]
    unfolding test_write_batch_single_def test_write_batch_multiple_def Let_def by (simp only:)
qed

theorem write_batch_tests_pass_witness:
  "test_write_batch_single cursor id [] \<and> test_write_batch_multiple cursor id []"
  by (rule write_batch_tests_pass)
    (simp_all add: async_write_contract_def async_write_progress_def cursor_def)

lemmas init_defs = init_value_def add_method_def add_event_def
  get_method_def get_event_def InitSchema_new_def InitSchema_is_empty_def method_json_def event_json_def
  ResponseType_serialize_def PROTOCOL_VERSION_def

theorem init_tests_pass:
  assumes "json_roundtrip to_string from_str" and "\<forall>v. \<exists>s. to_string v = Inr s"
  shows "test_build_init_message_format to_string from_str \<and> test_method_schema to_string from_str
    \<and> test_event_schema to_string from_str \<and> test_response_types to_string from_str
    \<and> test_empty_schema to_string from_str \<and> test_schema_get_method \<and> test_schema_get_event"
proof -
  have parse: "parsed_init to_string from_str schema P \<longleftrightarrow> P (init_value ''/tmp/test.sock'' schema)" for schema P
  proof -
    obtain msg where "to_string (init_value ''/tmp/test.sock'' schema) = Inr msg" using assms(2) by blast
    with assms(1) show ?thesis by (simp add: parsed_init_def build_init_message_def json_roundtrip_def)
  qed
  show ?thesis
    by (intro conjI; simp add: Let_def parse init_defs json_path.simps test_build_init_message_format_def test_method_schema_def
        test_event_schema_def test_response_types_def test_empty_schema_def test_schema_get_method_def
        test_schema_get_event_def)
qed

section \<open>Tests of the registry and of the builder\<close>

definition idle_handler :: "'v handler" where
  "idle_handler data ctx = HDone (Ok ())"

definition test_register_method :: "'v itself \<Rightarrow> bool" where
  "test_register_method _ \<longleftrightarrow>
     (case register True ''echo'' RResult idle_handler (HandlerRegistry_new :: 'v HandlerRegistry) of
        Inr registry \<Rightarrow> get_handler registry ''echo'' \<noteq> None \<and> get_method_id registry ''echo'' = Some 1
          \<and> get_method_name registry 1 = Some ''echo''
      | Inl _ \<Rightarrow> False)"

definition test_id_assignment_sequential :: "'v itself \<Rightarrow> bool" where
  "test_id_assignment_sequential _ \<longleftrightarrow>
     (case and_then (and_then (register True ''method1'' RResult idle_handler (HandlerRegistry_new :: 'v HandlerRegistry))
         (register True ''method2'' RStream idle_handler)) (register True ''method3'' RAck idle_handler) of
        Inr registry \<Rightarrow> get_method_id registry ''method1'' = Some 1 \<and> get_method_id registry ''method2'' = Some 2
          \<and> get_method_id registry ''method3'' = Some 3
      | Inl _ \<Rightarrow> False)"

definition test_register_event :: "'v itself \<Rightarrow> bool" where
  "test_register_event _ \<longleftrightarrow>
     (case and_then (register_event True ''progress'' (HandlerRegistry_new :: 'v HandlerRegistry))
         (register_event True ''status'') of
        Inr registry \<Rightarrow> get_event_id registry ''progress'' = Some 1 \<and> get_event_id registry ''status'' = Some 2
      | Inl _ \<Rightarrow> False)"

text \<open>The lists are the maps in the order in which they happen to be iterated.\<close>

definition test_build_schema :: "'v itself \<Rightarrow> bool" where
  "test_build_schema _ \<longleftrightarrow>
     (case and_then (and_then (register True ''echo'' RResult idle_handler (HandlerRegistry_new :: 'v HandlerRegistry))
         (register True ''generate'' RStream idle_handler)) (register_event True ''progress'') of
        Inr registry \<Rightarrow> (\<forall>methods events. lists_map methods (reg_methods registry)
          \<longrightarrow> lists_map events (reg_events registry) \<longrightarrow>
          (let schema = build_schema methods events in
           (case get_method ''echo'' schema of Some m \<Rightarrow> ms_id m = 1 \<and> ms_response m = RResult | None \<Rightarrow> False)
         \<and> (case get_method ''generate'' schema of Some m \<Rightarrow> ms_id m = 2 \<and> ms_response m = RStream | None \<Rightarrow> False)
         \<and> (case get_event ''progress'' schema of Some e \<Rightarrow> es_id e = 1 | None \<Rightarrow> False)))
      | Inl _ \<Rightarrow> False)"

definition test_handler_not_found :: "'v itself \<Rightarrow> bool" where
  "test_handler_not_found _ \<longleftrightarrow>
     get_handler (HandlerRegistry_new :: 'v HandlerRegistry) ''nonexistent'' = None
   \<and> get_handler_by_id (HandlerRegistry_new :: 'v HandlerRegistry) 99 = None"

definition test_response_type :: "'v itself \<Rightarrow> bool" where
  "test_response_type _ \<longleftrightarrow>
     (case and_then (register True ''result_method'' RResult idle_handler (HandlerRegistry_new :: 'v HandlerRegistry))
         (register True ''stream_method'' RStream idle_handler) of
        Inr registry \<Rightarrow> get_response_type registry ''result_method'' = Some RResult
          \<and> get_response_type registry ''stream_method'' = Some RStream
      | Inl _ \<Rightarrow> False)"

definition test_builder_method_chaining :: "'v itself \<Rightarrow> bool" where
  "test_builder_method_chaining _ \<longleftrightarrow>
     (case and_then (and_then (and_then (builder_handle True ''echo'' idle_handler (Client_builder :: 'v ClientBuilder))
         (builder_handle_stream True ''stream'' idle_handler)) (builder_handle_ack True ''ack'' idle_handler))
         (builder_event True ''progress'') of
        Inr builder \<Rightarrow> (\<forall>methods events. lists_map methods (reg_methods (cb_registry builder))
          \<longrightarrow> lists_map events (reg_events (cb_registry builder)) \<longrightarrow>
          (let schema = build_schema methods events in
           get_method ''echo'' schema \<noteq> None \<and> get_method ''stream'' schema \<noteq> None
         \<and> get_method ''ack'' schema \<noteq> None \<and> get_event ''progress'' schema \<noteq> None))
      | Inl _ \<Rightarrow> False)"

definition test_builder_response_types :: "'v itself \<Rightarrow> bool" where
  "test_builder_response_types _ \<longleftrightarrow>
     (case and_then (and_then (builder_handle True ''result'' idle_handler (Client_builder :: 'v ClientBuilder))
         (builder_handle_stream True ''stream'' idle_handler)) (builder_handle_ack True ''ack'' idle_handler) of
        Inr builder \<Rightarrow> get_response_type (cb_registry builder) ''result'' = Some RResult
          \<and> get_response_type (cb_registry builder) ''stream'' = Some RStream
          \<and> get_response_type (cb_registry builder) ''ack'' = Some RAck
      | Inl _ \<Rightarrow> False)"

definition test_builder_configuration :: "'v itself \<Rightarrow> bool" where
  "test_builder_configuration _ \<longleftrightarrow>
     (let builder = builder_backpressure_timeout (from_secs 10) (builder_channel_capacity 512
          (builder_max_pending_frames 2048 (max_concurrent_handlers 512 (Client_builder :: 'v ClientBuilder))))
      in cb_max_concurrent_handlers builder = 512 \<and> max_pending_frames (cb_writer_config builder) = 2048
       \<and> channel_capacity (cb_writer_config builder) = 512
       \<and> backpressure_timeout (cb_writer_config builder) = from_secs 10)"

definition test_builder_max_payload_size_default :: "'v itself \<Rightarrow> bool" where
  "test_builder_max_payload_size_default _ \<longleftrightarrow>
     cb_max_payload_size (Client_builder :: 'v ClientBuilder) = DEFAULT_MAX_PAYLOAD_SIZE"

definition test_builder_max_payload_size_custom :: "'v itself \<Rightarrow> bool" where
  "test_builder_max_payload_size_custom _ \<longleftrightarrow>
     cb_max_payload_size (builder_max_payload_size 4096 (Client_builder :: 'v ClientBuilder)) = 4096"

definition test_builder_max_payload_size_clamped_to_absolute_max :: "'v itself \<Rightarrow> bool" where
  "test_builder_max_payload_size_clamped_to_absolute_max _ \<longleftrightarrow>
     cb_max_payload_size (builder_max_payload_size 0xFFFFFFFF (Client_builder :: 'v ClientBuilder))
       = ABSOLUTE_MAX_PAYLOAD_SIZE"

definition test_builder_auth_token_default_none :: "'v itself \<Rightarrow> bool" where
  "test_builder_auth_token_default_none _ \<longleftrightarrow> cb_auth_token (Client_builder :: 'v ClientBuilder) = None"

definition test_builder_auth_token_set :: "'v itself \<Rightarrow> bool" where
  "test_builder_auth_token_set _ \<longleftrightarrow>
     cb_auth_token (builder_auth_token ''secret-token'' (Client_builder :: 'v ClientBuilder)) = Some ''secret-token''"

section \<open>Tests of the handshake\<close>

definition test_constant_time_eq :: bool where
  "test_constant_time_eq \<longleftrightarrow>
     constant_time_eq [] [] \<and> constant_time_eq (str_bytes ''abc'') (str_bytes ''abc'')
   \<and> \<not> constant_time_eq (str_bytes ''abc'') (str_bytes ''abd'')
   \<and> \<not> constant_time_eq (str_bytes ''abc'') (str_bytes ''ab'')
   \<and> \<not> constant_time_eq (str_bytes ''ab'') (str_bytes ''abc'')
   \<and> (let token = replicate 64 (CHR ''a'') in constant_time_eq (str_bytes token) (str_bytes token))"

definition auth_frame_bytes :: "bytes \<Rightarrow> bytes" where
  "auth_frame_bytes token =
     (let h = Header_new AUTH_METHOD_ID 0 0 (word_of_nat (length token)) in Header_encode h @ token)"

definition test_auth_handshake_accepts_matching_token :: bool where
  "test_auth_handshake_accepts_matching_token \<longleftrightarrow>
     (let token = concat (replicate 8 ''deadbeef'') in
      case fst (run_auth_handshake [Read (auth_frame_bytes (str_bytes token))] token DEFAULT_MAX_PAYLOAD_SIZE) of
        Some (Adopted _ frames) \<Rightarrow> frames = [] | _ \<Rightarrow> False)"

definition test_auth_handshake_rejects_wrong_token :: bool where
  "test_auth_handshake_rejects_wrong_token \<longleftrightarrow>
     fst (run_auth_handshake [Read (auth_frame_bytes (str_bytes ''the-wrong-token''))] ''the-expected-token''
       DEFAULT_MAX_PAYLOAD_SIZE) = Some Rejected"

text \<open>The MessagePack form of \<open>"hi"\<close> is the byte \<open>0xA2\<close> followed by the text.\<close>

definition request_bytes :: bytes where
  "request_bytes = (let p = 0xA2 # str_bytes ''hi'' in Header_encode (Header_new 1 0 7 (word_of_nat (length p))) @ p)"

definition test_auth_handshake_rejects_non_auth_first_frame :: bool where
  "test_auth_handshake_rejects_non_auth_first_frame \<longleftrightarrow>
     fst (run_auth_handshake [Read request_bytes] ''token'' DEFAULT_MAX_PAYLOAD_SIZE) = Some Rejected"

definition test_auth_handshake_returns_pipelined_frames :: bool where
  "test_auth_handshake_returns_pipelined_frames \<longleftrightarrow>
     (let token = ''token-1234''; b = auth_frame_bytes (str_bytes token) @ request_bytes in
      case fst (run_auth_handshake [Read b] token DEFAULT_MAX_PAYLOAD_SIZE) of
        Some (Adopted _ frames) \<Rightarrow> length frames = 1
          \<and> Frame_method_id (frames ! 0) = 1 \<and> Frame_request_id (frames ! 0) = 7
      | _ \<Rightarrow> False)"

definition test_auth_handshake_rejects_on_eof :: bool where
  "test_auth_handshake_rejects_on_eof \<longleftrightarrow>
     fst (run_auth_handshake [Read []] ''token'' DEFAULT_MAX_PAYLOAD_SIZE) = Some Rejected"

lemmas registry_defs = register_def register_event_def u16_inc_def HandlerRegistry_new_def get_handler_def
  get_handler_by_id_def get_method_id_def get_method_name_def get_event_id_def get_response_type_def
  builder_handle_def builder_handle_stream_def builder_handle_ack_def builder_event_def Client_builder_def
  ClientBuilder_new_def

text \<open>Looking up in a schema does not depend on the order of the lists it was built from.\<close>

lemma schema_lookup:
  assumes "lists_map ms m" and "lists_map evs e"
  shows "get_method name (build_schema ms evs) = map_option (\<lambda>x. \<lparr>ms_id = me_id x, ms_response = me_response_type x\<rparr>) (m name)"
    and "get_event name (build_schema ms evs) = map_option EventSchema.make (e name)"
  using build_schema_announces [of ms "HandlerRegistry_new\<lparr>reg_methods := m, reg_events := e\<rparr>" evs name] assms
  by (simp_all add: get_event_id_def)

theorem registry_tests_pass:
  "test_register_method t \<and> test_id_assignment_sequential t \<and> test_register_event t \<and> test_build_schema t
   \<and> test_handler_not_found t \<and> test_response_type t"
  by (intro conjI; simp add: test_register_method_def test_id_assignment_sequential_def test_register_event_def
      test_build_schema_def test_handler_not_found_def test_response_type_def Let_def schema_lookup
      EventSchema.make_def registry_defs)

theorem builder_tests_pass:
  "test_builder_method_chaining t \<and> test_builder_response_types t \<and> test_builder_configuration t
   \<and> test_builder_max_payload_size_default t \<and> test_builder_max_payload_size_custom t
   \<and> test_builder_max_payload_size_clamped_to_absolute_max t \<and> test_builder_auth_token_default_none t
   \<and> test_builder_auth_token_set t"
  by (intro conjI; simp add: test_builder_method_chaining_def test_builder_response_types_def
      test_builder_configuration_def test_builder_max_payload_size_default_def
      test_builder_max_payload_size_custom_def test_builder_max_payload_size_clamped_to_absolute_max_def
      test_builder_auth_token_default_none_def test_builder_auth_token_set_def Let_def schema_lookup
      builder_backpressure_timeout_def builder_channel_capacity_def builder_max_pending_frames_def
      max_concurrent_handlers_def builder_max_payload_size_def builder_auth_token_def min_def
      ABSOLUTE_MAX_PAYLOAD_SIZE_def registry_defs)

theorem handshake_tests_pass:
  "test_constant_time_eq \<and> test_auth_handshake_accepts_matching_token \<and> test_auth_handshake_rejects_wrong_token
   \<and> test_auth_handshake_rejects_non_auth_first_frame \<and> test_auth_handshake_returns_pipelined_frames
   \<and> test_auth_handshake_rejects_on_eof"
  by (intro conjI; code_simp)

section \<open>Tests of the request context\<close>

text \<open>\<open>assert!(r.is_ok())\<close> and \<open>assert!(matches!(r, Err(ResponseAlreadySent)))\<close>, and what follows them.\<close>

definition succeeds :: "ctx_result \<Rightarrow> (ctx_state \<Rightarrow> bool) \<Rightarrow> bool" where
  "succeeds r P = (case r of (Some (Inr _), st) \<Rightarrow> P st | _ \<Rightarrow> False)"

definition is_rejected :: "ctx_result \<Rightarrow> (ctx_state \<Rightarrow> bool) \<Rightarrow> bool" where
  "is_rejected r P = (case r of (Some (Inl e), st) \<Rightarrow> e = ResponseAlreadySent \<and> P st | _ \<Rightarrow> False)"

definition new_context :: "ctx_state \<Rightarrow> RequestContext \<times> ctx_state" where
  "new_context st = RequestContext_new 1 42 0 0 st"

definition test_context_creation :: "ctx_state \<Rightarrow> bool" where
  "test_context_creation st \<longleftrightarrow>
     (let (ctx, st) = new_context st in RequestContext_method_id ctx = 1 \<and> RequestContext_request_id ctx = 42)"

definition test_respond_without_writer :: "'v msgpack \<Rightarrow> 'v \<Rightarrow> send_env \<Rightarrow> ctx_state \<Rightarrow> bool" where
  "test_respond_without_writer C v env st \<longleftrightarrow>
     (let (ctx, st) = new_context st in succeeds (respond C ctx v env st) (\<lambda>_. True))"

definition test_all_response_methods_without_writer :: "'v msgpack \<Rightarrow> 'v \<Rightarrow> send_env \<Rightarrow> ctx_state \<Rightarrow> bool" where
  "test_all_response_methods_without_writer C v env st \<longleftrightarrow>
     (let (ctx, st) = new_context st in succeeds (respond C ctx v env st) (\<lambda>_. True))
   \<and> (let (ctx, st) = new_context st in succeeds (respond_raw ctx (str_bytes ''test'') env st) (\<lambda>_. True))
   \<and> (let (ctx, st) = new_context st in succeeds (respond_bytes ctx (str_bytes ''test'') env st) (\<lambda>_. True))
   \<and> (let (ctx, st) = new_context st in succeeds (ack ctx env st) (\<lambda>_. True))
   \<and> (let (ctx, st) = new_context st in succeeds (send_error C ctx ''error message'' env st) (\<lambda>_. True))
   \<and> (let (ctx, st) = new_context st in
      succeeds (chunk C ctx v env st) (\<lambda>st. succeeds (chunk_raw ctx (str_bytes ''chunk'') env st) (\<lambda>st.
      succeeds (chunk_bytes ctx (str_bytes ''chunk'') env st) (\<lambda>st. succeeds (end_stream ctx env st) (\<lambda>_. True)))))"

definition test_second_terminal_response_is_rejected :: "'v msgpack \<Rightarrow> 'v \<Rightarrow> 'v \<Rightarrow> send_env \<Rightarrow> ctx_state \<Rightarrow> bool" where
  "test_second_terminal_response_is_rejected C v v' env st \<longleftrightarrow>
     (let (ctx, st) = new_context st in
      succeeds (respond C ctx v env st) (\<lambda>st. has_responded ctx st
    \<and> is_rejected (respond C ctx v' env st) (\<lambda>st. is_rejected (ack ctx env st) (\<lambda>st.
      is_rejected (end_stream ctx env st) (\<lambda>st. is_rejected (send_error C ctx ''boom'' env st) (\<lambda>_. True))))))"

definition test_error_is_terminal_for_stream :: "'v msgpack \<Rightarrow> 'v \<Rightarrow> send_env \<Rightarrow> ctx_state \<Rightarrow> bool" where
  "test_error_is_terminal_for_stream C v env st \<longleftrightarrow>
     (let (ctx, st) = new_context st; ctx = with_response_type ctx RStream in
      succeeds (chunk C ctx v env st) (\<lambda>st. succeeds (send_error C ctx ''boom'' env st) (\<lambda>st.
      is_rejected (end_stream ctx env st) (\<lambda>_. True))))"

text \<open>A clone is the same context: it shares the addresses of flag and token.\<close>

definition test_responded_state_is_shared_across_clones :: "'v msgpack \<Rightarrow> 'v \<Rightarrow> 'v \<Rightarrow> send_env \<Rightarrow> ctx_state \<Rightarrow> bool" where
  "test_responded_state_is_shared_across_clones C v v' env st \<longleftrightarrow>
     (let (ctx, st) = new_context st; ctx2 = ctx in
      succeeds (respond C ctx v env st) (\<lambda>st. has_responded ctx2 st
    \<and> is_rejected (respond C ctx2 v' env st) (\<lambda>_. True)))"

definition test_error_with_structured_payload :: "'v msgpack \<Rightarrow> 'v \<Rightarrow> send_env \<Rightarrow> ctx_state \<Rightarrow> bool" where
  "test_error_with_structured_payload C err env st \<longleftrightarrow>
     (let (ctx, st) = new_context st in succeeds (error_with C ctx err env st) (\<lambda>_. True))"

definition test_chunk_allows_multiple_calls :: "'v msgpack \<Rightarrow> 'v \<Rightarrow> 'v \<Rightarrow> 'v \<Rightarrow> send_env \<Rightarrow> ctx_state \<Rightarrow> bool" where
  "test_chunk_allows_multiple_calls C v1 v2 v3 env st \<longleftrightarrow>
     (let (ctx, st) = new_context st in
      succeeds (chunk C ctx v1 env st) (\<lambda>st. succeeds (chunk C ctx v2 env st) (\<lambda>st.
      succeeds (chunk C ctx v3 env st) (\<lambda>st. succeeds (end_stream ctx env st) (\<lambda>_. True)))))"

definition test_end_can_be_called_after_chunks :: "'v msgpack \<Rightarrow> 'v \<Rightarrow> 'v \<Rightarrow> send_env \<Rightarrow> ctx_state \<Rightarrow> bool" where
  "test_end_can_be_called_after_chunks C v1 v2 env st \<longleftrightarrow>
     (let (ctx, st) = new_context st in
      succeeds (chunk C ctx v1 env st) (\<lambda>st. succeeds (chunk C ctx v2 env st) (\<lambda>st.
      succeeds (end_stream ctx env st) (\<lambda>_. True))))"

definition test_raw_payload :: bool where
  "test_raw_payload \<longleftrightarrow>
     (let data = str_bytes ''hello world''; p = RawPayload_new data in
      as_bytes p = str_bytes ''hello world'' \<and> into_bytes p = data)"

definition test_context_with_writer :: "'v msgpack \<Rightarrow> 'v \<Rightarrow> WriterHandle \<Rightarrow> ctx_state \<Rightarrow> bool" where
  "test_context_with_writer C v w st \<longleftrightarrow>
     (let (ctx, st) = with_writer 1 42 w 0 0 st; ctx = with_response_type ctx RStream in
      succeeds (chunk C ctx v sample_env st) (\<lambda>st. succeeds (end_stream ctx sample_env st) (\<lambda>_. True)))"

text \<open>The far end of the duplex pipe: the bytes of the frames sent, parsed; and the writer handle of a
  writer task with any timeout (the default is 5 s).\<close>

definition received :: "OutboundFrame list \<Rightarrow> (Frame list \<Rightarrow> bool) \<Rightarrow> bool" where
  "received sent P = pushed FrameBuffer_new (batch_bytes sent) (\<lambda>frames fb. P frames)"

definition default_writer :: "duration \<Rightarrow> WriterHandle" where
  "default_writer timeout = WriterHandle_new 0 0 DEFAULT_MAX_PENDING_FRAMES timeout"

definition empty_state :: ctx_state where
  "empty_state = \<lparr>cs_responded = (\<lambda>_. False), cs_cancelled = (\<lambda>_. False), cs_sent = [], cs_ops = []\<rparr>"

definition test_error_flags_for_result_method :: "duration \<Rightarrow> 'v msgpack \<Rightarrow> bool" where
  "test_error_flags_for_result_method timeout C \<longleftrightarrow>
     (let (ctx, st) = with_writer 7 42 (default_writer timeout) 0 0 empty_state in
      succeeds (send_error C ctx ''boom'' sample_env st) (\<lambda>st. received (cs_sent st) (\<lambda>frames.
        let h = header (frames ! 0) in flags h = ERROR_RESPONSE \<and> method_id h = 7 \<and> request_id h = 42
      \<and> MsgPackCodec_encode_str C ''boom'' = Ok (payload (frames ! 0)))))"

definition test_error_flags_for_stream_method_include_is_stream :: "duration \<Rightarrow> 'v msgpack \<Rightarrow> bool" where
  "test_error_flags_for_stream_method_include_is_stream timeout C \<longleftrightarrow>
     (let (ctx, st) = with_writer 7 42 (default_writer timeout) 0 0 empty_state; ctx = with_response_type ctx RStream in
      succeeds (send_error C ctx ''boom'' sample_env st) (\<lambda>st. received (cs_sent st) (\<lambda>frames.
        let h = header (frames ! 0) in flags h = STREAM_ERROR_RESPONSE \<and> Header_is_stream h \<and> Header_is_error h
      \<and> \<not> Header_is_stream_end h)))"

definition test_cancellation_token_initially_not_cancelled :: "ctx_state \<Rightarrow> bool" where
  "test_cancellation_token_initially_not_cancelled st \<longleftrightarrow>
     (let (ctx, st) = new_context st in \<not> is_cancelled ctx st)"

definition test_cancellation_after_cancel :: "ctx_state \<Rightarrow> bool" where
  "test_cancellation_after_cancel st \<longleftrightarrow>
     (let (ctx, st) = new_context st in
      \<not> is_cancelled ctx st \<and> (let st = RequestContext_cancel ctx st in is_cancelled ctx st))"

definition test_cancellation_propagates_to_clones :: "ctx_state \<Rightarrow> bool" where
  "test_cancellation_propagates_to_clones st \<longleftrightarrow>
     (let (ctx, st) = new_context st; ctx_clone = ctx in
      \<not> is_cancelled ctx st \<and> \<not> is_cancelled ctx_clone st
    \<and> (let st = RequestContext_cancel ctx st in is_cancelled ctx st \<and> is_cancelled ctx_clone st))"

definition test_cancelled_future_completes_after_cancel :: "ctx_state \<Rightarrow> bool" where
  "test_cancelled_future_completes_after_cancel st \<longleftrightarrow>
     (let (ctx, st) = new_context st; ctx_clone = ctx in
      cancelled ctx st = None \<and> (let st = RequestContext_cancel ctx_clone st in cancelled ctx st = Some ()))"

definition test_with_writer_and_token :: "WriterHandle \<Rightarrow> ctx_state \<Rightarrow> bool" where
  "test_with_writer_and_token w st \<longleftrightarrow>
     (let t = 0; st = token_new t st; (ctx, st) = with_writer_and_token 1 42 RResult w t 0 st in
      \<not> is_cancelled ctx st \<and> (let st = token_cancel t st in is_cancelled ctx st))"

section \<open>Tests of the dispatcher\<close>

definition registering :: "rstr \<Rightarrow> ResponseType \<Rightarrow> 'v handler \<Rightarrow> ('v HandlerRegistry \<Rightarrow> u16 \<Rightarrow> bool) \<Rightarrow> bool" where
  "registering name rt h P = (case register True name rt h HandlerRegistry_new of
     Inr registry \<Rightarrow> (case get_method_id registry name of Some i \<Rightarrow> P registry i | None \<Rightarrow> False)
   | Inl _ \<Rightarrow> False)"

definition dispatch_request ::
  "duration \<Rightarrow> 'v msgpack \<Rightarrow> 'v HandlerRegistry \<Rightarrow> u16 \<Rightarrow> u32 \<Rightarrow> bytes \<Rightarrow> (Frame list \<Rightarrow> bool) \<Rightarrow> bool" where
  "dispatch_request timeout C registry m r p P =
     (let h = Header_new m 0 r (word_of_nat (length p)); frame = Frame_new h p in
      case dispatch_frame C registry (default_writer timeout) frame (disp_init 256) of
        (Some tk, ds) \<Rightarrow> (case handler_task C tk sample_envs sample_env (ds_ctx ds) of
            (True, st) \<Rightarrow> received (cs_sent st) P | _ \<Rightarrow> False)
      | (None, _) \<Rightarrow> False)"

definition test_failing_handler_sends_error_response ::
  "duration \<Rightarrow> 'v msgpack \<Rightarrow> (bytes \<Rightarrow> (rstr, rstr) result) \<Rightarrow> bytes \<Rightarrow> bool" where
  "test_failing_handler_sends_error_response timeout C de p \<longleftrightarrow>
     registering ''boom'' RResult (\<lambda>_ _. HDone (Err (Protocol ''handler exploded''))) (\<lambda>registry i.
       dispatch_request timeout C registry i 42 p (\<lambda>frames.
         let h = header (frames ! 0) in
         flags h = ERROR_RESPONSE \<and> method_id h = i \<and> request_id h = 42
       \<and> (case de (payload (frames ! 0)) of Inr message \<Rightarrow> contains message ''handler exploded'' | Inl _ \<Rightarrow> False)))"

definition test_failing_stream_handler_sends_stream_error_response ::
  "duration \<Rightarrow> 'v msgpack \<Rightarrow> (bytes \<Rightarrow> (rstr, rstr) result) \<Rightarrow> bytes \<Rightarrow> 'v \<Rightarrow> bool" where
  "test_failing_stream_handler_sends_stream_error_response timeout C de p v \<longleftrightarrow>
     registering ''boom'' RStream (\<lambda>_ _. try_op (ctx_op.Chunk v) (HDone (Err (Protocol ''stream exploded'')))) (\<lambda>registry i.
       dispatch_request timeout C registry i 42 p (\<lambda>frames.
         flags (header (frames ! 0)) = STREAM_CHUNK
       \<and> (let error_header = header (frames ! 1) in
          flags error_header = STREAM_ERROR_RESPONSE \<and> \<not> Header_is_stream_end error_header)
       \<and> (case de (payload (frames ! 1)) of Inr message \<Rightarrow> contains message ''stream exploded'' | Inl _ \<Rightarrow> False)))"

definition test_unknown_method_sends_error_response ::
  "duration \<Rightarrow> 'v msgpack \<Rightarrow> (bytes \<Rightarrow> (rstr, rstr) result) \<Rightarrow> bytes \<Rightarrow> bool" where
  "test_unknown_method_sends_error_response timeout C de p \<longleftrightarrow>
     dispatch_request timeout C HandlerRegistry_new 99 7 p (\<lambda>frames.
       let h = header (frames ! 0) in
       flags h = ERROR_RESPONSE \<and> method_id h = 99 \<and> request_id h = 7
     \<and> (case de (payload (frames ! 0)) of Inr message \<Rightarrow> contains message ''99'' | Inl _ \<Rightarrow> False))"

definition test_no_error_frame_after_handler_already_responded :: "duration \<Rightarrow> 'v msgpack \<Rightarrow> bytes \<Rightarrow> 'v \<Rightarrow> bool" where
  "test_no_error_frame_after_handler_already_responded timeout C p v \<longleftrightarrow>
     registering ''late'' RResult (\<lambda>_ _. try_op (Respond v) (HDone (Err (Protocol ''after the fact'')))) (\<lambda>registry i.
       dispatch_request timeout C registry i 42 p (\<lambda>frames. flags (header (frames ! 0)) = RESPONSE \<and> length frames = 1))"

definition test_abort_cancels_active_handler :: "duration \<Rightarrow> 'v msgpack \<Rightarrow> bool" where
  "test_abort_cancels_active_handler timeout C \<longleftrightarrow>
     (let t = 0; ds = (disp_init 256)\<lparr>ds_ctx := token_new t (ds_ctx (disp_init 256)), ds_active := [42 \<mapsto> \<lparr>ac_token = t\<rparr>]\<rparr>;
          abort_frame = Frame_new (Header_new ABORT_METHOD_ID 0 42 0) []
      in \<not> cs_cancelled (ds_ctx ds) t
       \<and> (case dispatch_frame C HandlerRegistry_new (default_writer timeout) abort_frame ds of
            (_, ds) \<Rightarrow> cs_cancelled (ds_ctx ds) t))"

definition test_handler_context_is_removed_after_completion :: "duration \<Rightarrow> 'v msgpack \<Rightarrow> bytes \<Rightarrow> 'v \<Rightarrow> bool" where
  "test_handler_context_is_removed_after_completion timeout C p v \<longleftrightarrow>
     registering ''test'' RResult (\<lambda>_ _. try_op (Respond v) (HDone (Ok ()))) (\<lambda>registry i.
       case dispatch_frame C registry (default_writer timeout)
           (Frame_new (Header_new i 0 123 (word_of_nat (length p))) p) (disp_init 256) of
         (Some tk, ds) \<Rightarrow> ds_active ds 123 \<noteq> None
           \<and> (case handler_task C tk sample_envs sample_env (ds_ctx ds) of
                (True, st) \<Rightarrow> ds_active (finish_task tk (ds\<lparr>ds_ctx := st\<rparr>)) 123 = None | _ \<Rightarrow> False)
       | (None, _) \<Rightarrow> False)"

lemmas context_test_defs = new_context_def RequestContext_new_def with_response_type_def with_writer_def
  with_writer_and_token_def succeeds_def is_rejected_def respond_def respond_raw_def respond_bytes_def ack_def chunk_def
  chunk_raw_def chunk_bytes_def end_stream_def send_error_def error_with_def marked_def encoded_def
  mark_responded_def has_responded_def send_frame_def send_frame_empty_def RequestContext_method_id_def
  RequestContext_request_id_def is_cancelled_def cancelled_def RequestContext_cancel_def token_cancel_def token_new_def
  flag_new_def

theorem context_tests_pass:
  assumes "\<forall>v. \<exists>b. MsgPackCodec_encode C v = Ok b" and "\<forall>s. \<exists>b. MsgPackCodec_encode_str C s = Ok b"
  shows "test_context_creation st \<and> test_respond_without_writer C v env st
    \<and> test_all_response_methods_without_writer C v env st \<and> test_second_terminal_response_is_rejected C v v' env st
    \<and> test_error_is_terminal_for_stream C v env st \<and> test_responded_state_is_shared_across_clones C v v' env st
    \<and> test_error_with_structured_payload C v env st \<and> test_chunk_allows_multiple_calls C v v' v'' env st
    \<and> test_end_can_be_called_after_chunks C v v' env st"
proof -
  obtain enc where enc: "MsgPackCodec_encode C x = Ok (enc x)" for x using assms(1) by metis
  obtain str where str: "MsgPackCodec_encode_str C x = Ok (str x)" for x using assms(2) by metis
  show ?thesis
    by (intro conjI; simp add: enc str Let_def test_context_creation_def test_respond_without_writer_def
        test_all_response_methods_without_writer_def test_second_terminal_response_is_rejected_def
        test_error_is_terminal_for_stream_def test_responded_state_is_shared_across_clones_def
        test_error_with_structured_payload_def test_chunk_allows_multiple_calls_def
        test_end_can_be_called_after_chunks_def context_test_defs)
qed

theorem cancellation_tests_pass:
  "test_raw_payload \<and> test_cancellation_token_initially_not_cancelled st \<and> test_cancellation_after_cancel st
   \<and> test_cancellation_propagates_to_clones st \<and> test_cancelled_future_completes_after_cancel st
   \<and> test_with_writer_and_token w st"
  by (intro conjI; simp add: Let_def test_raw_payload_def RawPayload_new_def as_bytes_def into_bytes_def
      test_cancellation_token_initially_not_cancelled_def test_cancellation_after_cancel_def
      test_cancellation_propagates_to_clones_def test_cancelled_future_completes_after_cancel_def
      test_with_writer_and_token_def context_test_defs)

text \<open>The tests that look at frames are run with the codec of the example workers, which keeps text as
  it is.\<close>

theorem context_frame_tests_pass:
  "test_context_with_writer text_codec ''123'' (default_writer timeout) empty_state \<and> test_error_flags_for_result_method timeout text_codec
   \<and> test_error_flags_for_stream_method_include_is_stream timeout text_codec"
  by (intro conjI; code_simp)

lemma failing_handler_passes: "test_failing_handler_sends_error_response timeout text_codec (from_slice text_codec) []"
  by code_simp

lemma failing_stream_handler_passes: "test_failing_stream_handler_sends_stream_error_response timeout text_codec (from_slice text_codec) [] ''1''"
  by code_simp

lemma unknown_method_passes: "test_unknown_method_sends_error_response timeout text_codec (from_slice text_codec) []"
  by code_simp

lemma late_error_passes: "test_no_error_frame_after_handler_already_responded timeout text_codec [] ''done''"
  by code_simp

lemma abort_passes: "test_abort_cancels_active_handler timeout text_codec"
  by code_simp

lemma context_removed_passes: "test_handler_context_is_removed_after_completion timeout text_codec [] ''done''"
  by code_simp

theorem dispatch_tests_pass:
  "test_failing_handler_sends_error_response timeout text_codec (from_slice text_codec) []
   \<and> test_failing_stream_handler_sends_stream_error_response timeout text_codec (from_slice text_codec) [] ''1''
   \<and> test_unknown_method_sends_error_response timeout text_codec (from_slice text_codec) []
   \<and> test_no_error_frame_after_handler_already_responded timeout text_codec [] ''done''
   \<and> test_abort_cancels_active_handler timeout text_codec
   \<and> test_handler_context_is_removed_after_completion timeout text_codec [] ''done''"
  by (intro conjI failing_handler_passes failing_stream_handler_passes unknown_method_passes late_error_passes abort_passes context_removed_passes)

end
