(* ===== verification/Interface_Tests.thy ===== *)
theory Interface_Tests
  imports Library_Tests
begin

text \<open>
  The unit tests at the edges of the library, carried out on the model: \<open>codec/raw.rs\<close>,
  \<open>control/stdin.rs\<close>, \<open>control/stdio.rs\<close>, \<open>transport/pipe.rs\<close>, and those of \<open>writer.rs\<close>,
  \<open>handler/context.rs\<close> and \<open>client.rs\<close> that drive a task. The JSON parser, the codec, standard output and
  the write half of the pipe are arguments; the theorems say what of them the tests rely on.
\<close>

section \<open>Tests of the raw codec\<close>

definition test_serialize_round_trip :: bool where
  "test_serialize_round_trip \<longleftrightarrow>
     (let original = str_bytes ''hello world''; serialized = RawCodec_serialize original
      in RawCodec_deserialize serialized = original)"

definition test_serialize_empty :: bool where
  "test_serialize_empty \<longleftrightarrow>
     (let serialized = RawCodec_serialize [] in serialized = [] \<and> RawCodec_deserialize serialized = [])"

definition test_serialize_large_buffer :: bool where
  "test_serialize_large_buffer \<longleftrightarrow>
     (let large = replicate (1024 * 1024) 0xAB; serialized = RawCodec_serialize large
      in length serialized = 1024 * 1024 \<and> RawCodec_deserialize serialized = large)"

definition test_binary_data_preserved :: bool where
  "test_binary_data_preserved \<longleftrightarrow>
     (let all_bytes = map word_of_nat [0..<256]; serialized = RawCodec_serialize all_bytes
      in RawCodec_deserialize serialized = all_bytes)"

section \<open>Tests of the control reader\<close>

text \<open>A raw string literal, with backquotes for its double quotes.\<close>

definition json_text :: "rstr \<Rightarrow> rstr" where
  "json_text = map (\<lambda>c. if c = CHR 0x60 then CHR 0x22 else c)"

definition test_ping_maps_to_pong :: "(rstr \<Rightarrow> (json, rstr) result) \<Rightarrow> bool" where
  "test_ping_maps_to_pong from_str \<longleftrightarrow>
     parse_control_line from_str (json_text ''{`jsonrpc`:`2.0`,`method`:`$ping`}'') = Pong"

definition test_shutdown_maps_to_shutdown :: "(rstr \<Rightarrow> (json, rstr) result) \<Rightarrow> bool" where
  "test_shutdown_maps_to_shutdown from_str \<longleftrightarrow>
     parse_control_line from_str (json_text ''{`jsonrpc`:`2.0`,`method`:`$shutdown`,`params`:{}}'') = Shutdown"

definition test_trailing_newline_is_tolerated :: "(rstr \<Rightarrow> (json, rstr) result) \<Rightarrow> bool" where
  "test_trailing_newline_is_tolerated from_str \<longleftrightarrow>
     parse_control_line from_str (json_text ''{`jsonrpc`:`2.0`,`method`:`$ping`}'' @ [CHR 0x0A]) = Pong"

definition test_non_json_line_is_ignored :: "(rstr \<Rightarrow> (json, rstr) result) \<Rightarrow> bool" where
  "test_non_json_line_is_ignored from_str \<longleftrightarrow>
     parse_control_line from_str ''hello, this is a log line'' = Ignore
   \<and> parse_control_line from_str '''' = Ignore \<and> parse_control_line from_str ''   '' = Ignore"

definition test_unknown_method_is_ignored :: "(rstr \<Rightarrow> (json, rstr) result) \<Rightarrow> bool" where
  "test_unknown_method_is_ignored from_str \<longleftrightarrow>
     parse_control_line from_str (json_text ''{`jsonrpc`:`2.0`,`method`:`$something-else`}'') = Ignore"

definition test_missing_method_is_ignored :: "(rstr \<Rightarrow> (json, rstr) result) \<Rightarrow> bool" where
  "test_missing_method_is_ignored from_str \<longleftrightarrow>
     parse_control_line from_str (json_text ''{`jsonrpc`:`2.0`,`id`:1}'') = Ignore"

definition test_malformed_json_is_ignored :: "(rstr \<Rightarrow> (json, rstr) result) \<Rightarrow> bool" where
  "test_malformed_json_is_ignored from_str \<longleftrightarrow>
     parse_control_line from_str (json_text ''{`jsonrpc`:`2.0`,`method`:'') = Ignore"

definition test_pong_message_shape :: "(rstr \<Rightarrow> (json, rstr) result) \<Rightarrow> bool" where
  "test_pong_message_shape from_str \<longleftrightarrow> (case from_str PONG_MESSAGE of
     Inr parsed \<Rightarrow> json_get parsed ''jsonrpc'' = Some (JString ''2.0'') \<and> json_get parsed ''method'' = Some (JString ''$pong'')
   | Inl _ \<Rightarrow> False)"

section \<open>Tests of standard output\<close>

definition test_write_stdout_line_does_not_panic :: "'o stdout_handle \<Rightarrow> 'o \<Rightarrow> bool" where
  "test_write_stdout_line_does_not_panic H out \<longleftrightarrow> is_ok (fst (write_stdout_line H (json_text ''{`test`: true}'') out))"

record TestData =
  td_value :: int

definition test_write_stdout_json_serializes ::
  "(TestData \<Rightarrow> (rstr, rstr) result) \<Rightarrow> 'o stdout_handle \<Rightarrow> 'o \<Rightarrow> bool" where
  "test_write_stdout_json_serializes to_string H out \<longleftrightarrow>
     is_ok (fst (write_stdout_json to_string H \<lparr>td_value = 42\<rparr> out))"

section \<open>Tests of the pipe paths\<close>

definition test_generate_pipe_path_format ::
  "bool \<Rightarrow> (rstr \<Rightarrow> rstr option) \<Rightarrow> u32 \<Rightarrow> u64 \<Rightarrow> nat option \<Rightarrow> bool" where
  "test_generate_pipe_path_format is_unix env pid seq clock \<longleftrightarrow>
     (let path = generate_pipe_path is_unix env pid seq clock in
      if is_unix then contains path ''/procwire-'' \<and> drop (length path - 5) path = ''.sock''
      else take 18 path = [CHR 0x5C, CHR 0x5C] @ ''.'' @ [CHR 0x5C] @ ''pipe'' @ [CHR 0x5C] @ ''procwire-'')"

definition test_unix_runtime_dir_strips_trailing_slash :: "(rstr \<Rightarrow> rstr option) \<Rightarrow> bool" where
  "test_unix_runtime_dir_strips_trailing_slash env \<longleftrightarrow>
     (let dir = unix_runtime_dir env in dir \<noteq> [] \<and> (dir = ''/tmp'' \<or> last dir \<noteq> CHR ''/''))"

text \<open>Ten paths, at ten values of the counter and ten readings of the clock.\<close>

definition test_generate_pipe_path_uniqueness ::
  "(rstr \<Rightarrow> rstr option) \<Rightarrow> u32 \<Rightarrow> u64 \<Rightarrow> (nat \<Rightarrow> nat option) \<Rightarrow> bool" where
  "test_generate_pipe_path_uniqueness env pid seq clocks \<longleftrightarrow>
     (let paths = map (\<lambda>i. generate_pipe_path True env pid (seq + word_of_nat i) (clocks i)) [0..<10] in
      list_all (\<lambda>i. list_all (\<lambda>j. i \<noteq> j \<longrightarrow> paths ! i \<noteq> paths ! j) [0..<10]) [0..<10])"

definition test_pipe_path_contains_pid ::
  "bool \<Rightarrow> (rstr \<Rightarrow> rstr option) \<Rightarrow> u32 \<Rightarrow> u64 \<Rightarrow> nat option \<Rightarrow> bool" where
  "test_pipe_path_contains_pid is_unix env pid seq clock \<longleftrightarrow>
     contains (generate_pipe_path is_unix env pid seq clock) (show_dec (unat pid))"

section \<open>Tests of the writer task\<close>

text \<open>What arrives at the far end when the writer task has written what was sent.\<close>

definition arrives :: "'w async_write \<Rightarrow> ('w \<Rightarrow> bytes) \<Rightarrow> 'w \<Rightarrow> OutboundFrame list \<Rightarrow> nat \<Rightarrow> bool" where
  "arrives W sink w sent size' = (case writer_loop (Suc (length sent)) drained W sent w of
     (r, ops, c, w) \<Rightarrow> length (sink w) = size')"

definition test_writer_handle_send :: "duration \<Rightarrow> 'w async_write \<Rightarrow> ('w \<Rightarrow> bytes) \<Rightarrow> 'w \<Rightarrow> bool" where
  "test_writer_handle_send timeout W sink w \<longleftrightarrow>
     (let handle = default_writer timeout; h = Header_new 1 0x03 42 5;
          frame = OutboundFrame_new h (str_bytes ''hello''); x = WriterHandle_send handle frame sample_env
      in out_result x = Some (Ok ()) \<and> arrives W sink w (out_sent x) (HEADER_SIZE + 5))"

definition test_writer_batching :: "duration \<Rightarrow> 'w async_write \<Rightarrow> ('w \<Rightarrow> bytes) \<Rightarrow> 'w \<Rightarrow> bool" where
  "test_writer_batching timeout W sink w \<longleftrightarrow>
     (let handle = default_writer timeout;
          outs = map (\<lambda>i. WriterHandle_send handle
            (OutboundFrame_new (Header_new 1 0x03 (word_of_nat i) 4) (u32_to_be_bytes (word_of_nat i)))
            \<lparr>env_load = word_of_nat i, env_rounds = [], env_accepts = Some True\<rparr>) [0..<10]
      in list_all (\<lambda>x. out_result x = Some (Ok ())) outs
       \<and> arrives W sink w (concat (map out_sent outs)) (10 * (HEADER_SIZE + 4)))"

section \<open>Further tests of the request context\<close>

definition test_context_is_clone :: "ctx_state \<Rightarrow> bool" where
  "test_context_is_clone st \<longleftrightarrow> (let (ctx, st) = new_context st; ctx2 = ctx in
     RequestContext_method_id ctx = RequestContext_method_id ctx2
   \<and> RequestContext_request_id ctx = RequestContext_request_id ctx2)"

definition test_error_with_structured_payload_on_stream_method ::
  "duration \<Rightarrow> 'v msgpack \<Rightarrow> 'v \<Rightarrow> bool" where
  "test_error_with_structured_payload_on_stream_method timeout C structured_error \<longleftrightarrow>
     (let (ctx, st) = with_writer 7 42 (default_writer timeout) 0 0 empty_state; ctx = with_response_type ctx RStream in
      succeeds (error_with C ctx structured_error sample_env st) (\<lambda>st. received (cs_sent st) (\<lambda>frames.
        flags (header (frames ! 0)) = STREAM_ERROR_RESPONSE \<and> payload (frames ! 0) ! 0 = 0x82)))"

text \<open>The child task waits for the token, for ten seconds; in the 10 ms before the context is cancelled
  it has not returned.\<close>

definition test_cancellation_token_can_be_passed_to_child_task :: "ctx_state \<Rightarrow> bool" where
  "test_cancellation_token_can_be_passed_to_child_task st \<longleftrightarrow>
     (let (ctx, st) = new_context st; token = cancellation_token ctx;
          child = (\<lambda>st. if cs_cancelled st token then Some ''cancelled'' else None)
      in child st = None \<and> child (RequestContext_cancel ctx st) = Some ''cancelled'')"

section \<open>Further tests of the dispatcher\<close>

definition test_abort_for_unknown_request_logs_warning :: "duration \<Rightarrow> 'v msgpack \<Rightarrow> bool" where
  "test_abort_for_unknown_request_logs_warning timeout C \<longleftrightarrow>
     (let abort_frame = Frame_new (Header_new ABORT_METHOD_ID 0 999 0) [];
          x = dispatch_frame C HandlerRegistry_new (default_writer timeout) abort_frame (disp_init 256)
      in case fst x of None \<Rightarrow> True | Some _ \<Rightarrow> False)"

text \<open>Reading at the far end of the pipe until enough frames are parsed; \<open>None\<close> where the helper would
  panic or the reads do not suffice.\<close>

fun read_frames :: "nat \<Rightarrow> FrameBuffer \<Rightarrow> Frame list \<Rightarrow> bytes list \<Rightarrow> Frame list option" where
  "read_frames count fb frames [] = (if count \<le> length frames then Some frames else None)"
| "read_frames count fb frames (data # reads) =
     (if count \<le> length frames then Some frames
      else if data = [] then None
      else (case push fb data of
          (Inl _, fb) \<Rightarrow> None
        | (Inr parsed, fb) \<Rightarrow> read_frames count fb (frames @ parsed) reads))"

section \<open>The tests pass\<close>

theorem raw_codec_tests_pass:
  "test_serialize_round_trip \<and> test_serialize_empty \<and> test_serialize_large_buffer \<and> test_binary_data_preserved"
  by (simp add: test_serialize_round_trip_def test_serialize_empty_def test_serialize_large_buffer_def
      test_binary_data_preserved_def RawCodec_serialize_def RawCodec_deserialize_def Let_def)

text \<open>What a JSON parser makes of the texts of these tests.\<close>

definition reads_control_lines :: "(rstr \<Rightarrow> (json, rstr) result) \<Rightarrow> bool" where
  "reads_control_lines from_str \<longleftrightarrow>
     from_str (json_text ''{`jsonrpc`:`2.0`,`method`:`$ping`}'')
       = Ok (JObject [''jsonrpc'' \<mapsto> JString ''2.0'', ''method'' \<mapsto> JString ''$ping''])
   \<and> from_str (json_text ''{`jsonrpc`:`2.0`,`method`:`$shutdown`,`params`:{}}'')
       = Ok (JObject [''jsonrpc'' \<mapsto> JString ''2.0'', ''method'' \<mapsto> JString ''$shutdown'', ''params'' \<mapsto> JObject Map.empty])
   \<and> from_str (json_text ''{`jsonrpc`:`2.0`,`method`:`$something-else`}'')
       = Ok (JObject [''jsonrpc'' \<mapsto> JString ''2.0'', ''method'' \<mapsto> JString ''$something-else''])
   \<and> from_str (json_text ''{`jsonrpc`:`2.0`,`id`:1}'')
       = Ok (JObject [''jsonrpc'' \<mapsto> JString ''2.0'', ''id'' \<mapsto> JNumber 1])
   \<and> isl (from_str (json_text ''{`jsonrpc`:`2.0`,`method`:''))
   \<and> from_str (json_text ''{`jsonrpc`:`2.0`,`method`:`$pong`}'')
       = Ok (JObject [''jsonrpc'' \<mapsto> JString ''2.0'', ''method'' \<mapsto> JString ''$pong''])"

lemma trim_test_lines:
  "trim (json_text ''{`jsonrpc`:`2.0`,`method`:`$ping`}'') = json_text ''{`jsonrpc`:`2.0`,`method`:`$ping`}''"
  "trim (json_text ''{`jsonrpc`:`2.0`,`method`:`$ping`}'' @ [CHR 0x0A]) = json_text ''{`jsonrpc`:`2.0`,`method`:`$ping`}''"
  "trim (json_text ''{`jsonrpc`:`2.0`,`method`:`$shutdown`,`params`:{}}'')
     = json_text ''{`jsonrpc`:`2.0`,`method`:`$shutdown`,`params`:{}}''"
  "trim (json_text ''{`jsonrpc`:`2.0`,`method`:`$something-else`}'') = json_text ''{`jsonrpc`:`2.0`,`method`:`$something-else`}''"
  "trim (json_text ''{`jsonrpc`:`2.0`,`id`:1}'') = json_text ''{`jsonrpc`:`2.0`,`id`:1}''"
  "trim (json_text ''{`jsonrpc`:`2.0`,`method`:'') = json_text ''{`jsonrpc`:`2.0`,`method`:''"
  "trim ''hello, this is a log line'' = ''hello, this is a log line''" "trim [] = []" "trim ''   '' = []"
  by (code_simp)+

lemma json_text_brace: "take 1 (json_text (CHR 0x7B # s)) = ''{''"
  by (simp add: json_text_def)

text \<open>A line with an object, a line that is not JSON, and a line without an opening brace.\<close>

lemma parse_json_line:
  assumes "trim l = json_text (CHR 0x7B # s)" and "from_str (json_text (CHR 0x7B # s)) = Ok (JObject m)"
  shows "parse_control_line from_str l = (if m ''method'' = Some (JString ''$ping'') then Pong
    else if m ''method'' = Some (JString ''$shutdown'') then Shutdown else Ignore)"
  using assms json_text_brace [of s]
  by (cases "m ''method''") (auto simp: parse_control_line_def as_str_def Let_def split: json.splits)

lemma parse_bad_line:
  "trim l = t \<Longrightarrow> isl (from_str t) \<Longrightarrow> parse_control_line from_str l = Ignore"
  by (auto simp: parse_control_line_def isl_def Let_def)

lemma parse_plain_line:
  "take 1 (trim l) \<noteq> ''{'' \<Longrightarrow> parse_control_line from_str l = Ignore"
  by (simp add: parse_control_line_def Let_def)

lemma pong_text: "PONG_MESSAGE = json_text ''{`jsonrpc`:`2.0`,`method`:`$pong`}''"
  by code_simp

theorem control_tests_pass:
  assumes "reads_control_lines from_str"
  shows "test_ping_maps_to_pong from_str \<and> test_shutdown_maps_to_shutdown from_str
    \<and> test_trailing_newline_is_tolerated from_str \<and> test_non_json_line_is_ignored from_str
    \<and> test_unknown_method_is_ignored from_str \<and> test_missing_method_is_ignored from_str
    \<and> test_malformed_json_is_ignored from_str \<and> test_pong_message_shape from_str"
proof -
  note reads = assms [unfolded reads_control_lines_def]
  have "parse_control_line from_str ''hello, this is a log line'' = Ignore"
    by (rule parse_plain_line, unfold trim_test_lines) simp
  moreover have "parse_control_line from_str [] = Ignore" by (rule parse_plain_line, unfold trim_test_lines) simp
  moreover have "parse_control_line from_str ''   '' = Ignore" by (rule parse_plain_line, unfold trim_test_lines) simp
  ultimately have "test_non_json_line_is_ignored from_str" by (simp add: test_non_json_line_is_ignored_def)
  moreover have "test_ping_maps_to_pong from_str"
    using parse_json_line [OF trim_test_lines(1)] reads by (simp add: test_ping_maps_to_pong_def)
  moreover have "test_trailing_newline_is_tolerated from_str"
    using parse_json_line [OF trim_test_lines(2)] reads by (simp add: test_trailing_newline_is_tolerated_def)
  moreover have "test_shutdown_maps_to_shutdown from_str"
    using parse_json_line [OF trim_test_lines(3)] reads by (simp add: test_shutdown_maps_to_shutdown_def)
  moreover have "test_unknown_method_is_ignored from_str"
    using parse_json_line [OF trim_test_lines(4)] reads by (simp add: test_unknown_method_is_ignored_def)
  moreover have "test_missing_method_is_ignored from_str"
    using parse_json_line [OF trim_test_lines(5)] reads by (simp add: test_missing_method_is_ignored_def)
  moreover have "test_malformed_json_is_ignored from_str"
    using parse_bad_line [OF trim_test_lines(6)] reads by (simp add: test_malformed_json_is_ignored_def)
  moreover have "test_pong_message_shape from_str" using reads by (simp add: test_pong_message_shape_def pong_text)
  ultimately show ?thesis by blast
qed

text \<open>A parser that knows these texts.\<close>

definition test_from_str :: "rstr \<Rightarrow> (json, rstr) result" where
  "test_from_str s = (case map_of [
       (json_text ''{`jsonrpc`:`2.0`,`method`:`$ping`}'', [''jsonrpc'' \<mapsto> JString ''2.0'', ''method'' \<mapsto> JString ''$ping'']),
       (json_text ''{`jsonrpc`:`2.0`,`method`:`$shutdown`,`params`:{}}'',
          [''jsonrpc'' \<mapsto> JString ''2.0'', ''method'' \<mapsto> JString ''$shutdown'', ''params'' \<mapsto> JObject Map.empty]),
       (json_text ''{`jsonrpc`:`2.0`,`method`:`$something-else`}'',
          [''jsonrpc'' \<mapsto> JString ''2.0'', ''method'' \<mapsto> JString ''$something-else'']),
       (json_text ''{`jsonrpc`:`2.0`,`id`:1}'', [''jsonrpc'' \<mapsto> JString ''2.0'', ''id'' \<mapsto> JNumber 1]),
       (json_text ''{`jsonrpc`:`2.0`,`method`:`$pong`}'', [''jsonrpc'' \<mapsto> JString ''2.0'', ''method'' \<mapsto> JString ''$pong''])] s of
     Some m \<Rightarrow> Ok (JObject m) | None \<Rightarrow> Err ''EOF while parsing a value'')"

lemma test_from_str_reads: "reads_control_lines test_from_str"
  by (simp add: reads_control_lines_def test_from_str_def json_text_def)

theorem control_tests_pass_witness: "test_shutdown_maps_to_shutdown test_from_str \<and> test_pong_message_shape test_from_str"
  using control_tests_pass [OF test_from_str_reads] by blast

theorem stdout_tests_pass:
  assumes "stdout_works H" and "is_ok (to_string \<lparr>td_value = 42\<rparr>)"
  shows "test_write_stdout_line_does_not_panic H out \<and> test_write_stdout_json_serializes to_string H out"
proof -
  have line: "is_ok (fst (write_stdout_line H l out))" for l by (rule write_stdout_line_works [OF assms(1)])
  obtain s where s: "to_string \<lparr>td_value = 42\<rparr> = Inr s" using assms(2) by (cases "to_string \<lparr>td_value = 42\<rparr>") auto
  show ?thesis
    using line [of s] line [of "json_text ''{`test`: true}''"]
    by (auto simp: test_write_stdout_line_does_not_panic_def test_write_stdout_json_serializes_def write_stdout_json_def s
        split: prod.splits sum.splits)
qed

theorem stdout_tests_pass_witness:
  "test_write_stdout_json_serializes (\<lambda>d. Ok ''42'') sample_stdout []"
  using stdout_tests_pass [OF sample_stdout_ok(2), of "\<lambda>d. Ok ''42''" "[]"] by simp

lemma contains_prefix: "contains (p @ s) p"
  by (cases p; cases s) auto

lemma contains_middle: "contains (r @ p @ s) p"
  by (intro contains_append contains_prefix)

lemma runtime_dir_ok: "unix_runtime_dir env \<noteq> [] \<and> last (unix_runtime_dir env) \<noteq> CHR ''/''"
  using trim_end_slashes_last by (auto simp: unix_runtime_dir_def Let_def)

lemma generated_paths_differ:
  "generate_pipe_path True env pid seq clock = generate_pipe_path True env pid seq' clock \<longleftrightarrow> seq = seq'"
proof -
  have inv: "0xf1de83e19937733d * 0x9E3779B97F4A7C15 = (1 :: u64)" by simp
  have "rand_u64 seq clock pid = rand_u64 seq' clock pid \<longleftrightarrow> seq = seq'"
    using mult_inj [OF inv, of seq seq'] by (auto simp: rand_u64_def Let_def xor_right_cancel)
  then show ?thesis
    by (auto simp: generate_pipe_path_def pipe_path_unix_def word_unat_eq_iff
        dest: name_suffix_inj [of _ _ "''.sock''", simplified] show_hex_inj)
qed

theorem pipe_tests_pass:
  "test_generate_pipe_path_format is_unix env pid seq clock \<and> test_unix_runtime_dir_strips_trailing_slash env
   \<and> test_pipe_path_contains_pid is_unix env pid seq clock \<and> test_generate_pipe_path_uniqueness env pid seq (\<lambda>_. clock)"
proof (intro conjI)
  show "test_generate_pipe_path_format is_unix env pid seq clock"
  proof (cases is_unix)
    case True
    let ?base = "unix_runtime_dir env @ ''/procwire-'' @ show_dec (unat pid) @ ''-'' @ show_hex (unat (rand_u64 seq clock pid))"
    have "generate_pipe_path True env pid seq clock = ?base @ ''.sock''"
      by (simp add: generate_pipe_path_def pipe_path_unix_def)
    moreover have "contains (?base @ ''.sock'') ''/procwire-''"
      using contains_middle [of "unix_runtime_dir env" "''/procwire-''"] by simp
    moreover have "drop (length (b @ ''.sock'') - 5) (b @ ''.sock'') = ''.sock''" for b by simp
    ultimately show ?thesis using True by (simp only: test_generate_pipe_path_format_def Let_def if_True simp_thms)
  qed (simp add: test_generate_pipe_path_format_def generate_pipe_path_def pipe_path_windows_def)
  show "test_unix_runtime_dir_strips_trailing_slash env"
    using runtime_dir_ok [of env] by (simp add: test_unix_runtime_dir_strips_trailing_slash_def)
  show "test_pipe_path_contains_pid is_unix env pid seq clock"
    using contains_middle [of "unix_runtime_dir env @ ''/procwire-''" "show_dec (unat pid)"]
      contains_middle [of "[CHR 0x5C, CHR 0x5C] @ ''.'' @ [CHR 0x5C] @ ''pipe'' @ [CHR 0x5C] @ ''procwire-''" "show_dec (unat pid)"]
    by (simp add: test_pipe_path_contains_pid_def generate_pipe_path_def pipe_path_unix_def pipe_path_windows_def Let_def)
  have "(word_of_nat i :: u64) \<noteq> word_of_nat j" if "i < 10" "j < 10" "i \<noteq> j" for i j :: nat
    using that by (simp add: word_of_nat_eq_iff take_bit_nat_eq_self)
  then show "test_generate_pipe_path_uniqueness env pid seq (\<lambda>_. clock)"
    by (simp add: test_generate_pipe_path_uniqueness_def Let_def list_all_iff generated_paths_differ del: upt_rec_numeral upt_Suc)
qed

lemma arrives_batch:
  assumes "async_write_contract W sink" and "async_write_progress W" and "sink w = []" and "list_all outbound_ok sent"
  shows "arrives W sink w sent (length (batch_bytes sent))"
proof -
  obtain r ops c w' where e: "writer_loop (Suc (length sent)) drained W sent w = (r, ops, c, w')" by (rule prod_cases4)
  have "r = Some (Ok ())"
    using writer_loop_progress [OF drained_contract assms(2), of sent "Suc (length sent)" w] assms(4) e by simp
  with writer_loop_delivered [OF drained_contract assms(1) _ e] assms(4)
  have "delivered sent (sink w) (sink w') (length sent)" by auto
  then have "sink w' = batch_bytes sent" using delivered_all [of sent "sink w" "sink w'"] assms(3) by simp
  with e show ?thesis by (simp add: arrives_def)
qed

theorem writer_run_tests_pass:
  assumes "async_write_contract W sink" and "async_write_progress W" and "sink w = []"
  shows "test_writer_handle_send timeout W sink w \<and> test_writer_batching timeout W sink w"
proof
  let ?f = "OutboundFrame_new (Header_new 1 0x03 42 5) (str_bytes ''hello'')"
  show "test_writer_handle_send timeout W sink w"
    using arrives_batch [OF assms, of "[?f]"]
    by (simp add: test_writer_handle_send_def send_room default_writer_def WriterHandle_new_def
        DEFAULT_MAX_PENDING_FRAMES_def str_bytes_def HEADER_SIZE_def build_frame_eq)
  let ?g = "\<lambda>i. OutboundFrame_new (Header_new 1 0x03 (word_of_nat i) 4) (u32_to_be_bytes (word_of_nat i))"
  have sends: "WriterHandle_send (default_writer timeout) (?g i) \<lparr>env_load = word_of_nat i, env_rounds = [], env_accepts = Some True\<rparr>
      = \<lparr>out_result = Some (Ok ()), out_ops = [FetchAdd 1], out_sent = [?g i]\<rparr>" if "i < 10" for i
    using that by (intro send_room) (simp_all add: default_writer_def WriterHandle_new_def DEFAULT_MAX_PENDING_FRAMES_def
      word_less_nat_alt unat_of_nat take_bit_nat_eq_self)
  let ?send = "\<lambda>i. WriterHandle_send (default_writer timeout) (?g i) \<lparr>env_load = word_of_nat i, env_rounds = [], env_accepts = Some True\<rparr>"
  have sent: "concat (map out_sent (map ?send xs)) = map ?g xs \<and> list_all (\<lambda>x. out_result x = Some (Ok ())) (map ?send xs)"
    if "\<forall>i \<in> set xs. i < 10" for xs
    using that by (induction xs) (simp_all add: sends)
  have size: "length (batch_bytes (map ?g xs)) = length xs * (HEADER_SIZE + 4)" for xs
    by (induction xs) (simp_all add: build_frame_eq HEADER_SIZE_def)
  have "list_all outbound_ok (map ?g [0..<10])" by (simp add: list_all_iff)
  from arrives_batch [OF assms this] have "arrives W sink w (map ?g [0..<10]) (10 * (HEADER_SIZE + 4))"
    unfolding size by simp
  moreover note sent [of "[0..<10]"]
  ultimately show "test_writer_batching timeout W sink w"
    unfolding test_writer_batching_def Let_def by (metis (no_types, lifting) atLeastLessThan_iff set_upt)
qed

theorem writer_run_tests_pass_witness: "test_writer_batching 5 trickle id []"
  using writer_run_tests_pass [OF trickle_contract, of "[]" 5] by simp

theorem context_task_tests_pass:
  "test_context_is_clone st \<and> test_cancellation_token_can_be_passed_to_child_task st
   \<and> test_abort_for_unknown_request_logs_warning timeout C"
  by (intro conjI; simp add: test_context_is_clone_def test_cancellation_token_can_be_passed_to_child_task_def
      test_abort_for_unknown_request_logs_warning_def cancellation_token_def context_test_defs Let_def
      dispatch_frame_abort disp_init_def Header_new_def)

text \<open>The structured error, with a codec that starts a struct with the byte of a map of two fields.\<close>

theorem structured_stream_error_passes:
  assumes "MsgPackCodec_encode C v = Ok (0x82 # data)" and "Suc (length data) \<le> unat DEFAULT_MAX_PAYLOAD_SIZE"
  shows "test_error_with_structured_payload_on_stream_method timeout C v"
proof -
  let ?p = "0x82 # data :: bytes"
  let ?h = "Header_new 7 STREAM_ERROR_RESPONSE 42 (word_of_nat (length ?p))"
  have "unat (word_of_nat k :: u32) = k" if "k \<le> unat DEFAULT_MAX_PAYLOAD_SIZE" for k
    using that by (simp add: unat_of_nat take_bit_nat_eq_self DEFAULT_MAX_PAYLOAD_SIZE_def)
  then have len: "unat (word_of_nat (length ?p) :: u32) = length ?p" using assms(2) by (metis length_Cons)
  have "frame_ok DEFAULT_MAX_PAYLOAD_SIZE (Frame_new ?h ?p)"
    using assms(2) len
    by (simp add: frame_ok_def Header_validate_Ok_iff Header_new_def word_le_nat_alt reserved_bits flag_bits flag_combinations
        DEFAULT_MAX_PAYLOAD_SIZE_def ABSOLUTE_MAX_PAYLOAD_SIZE_def)
  then have "push FrameBuffer_new (batch_bytes [OutboundFrame_new ?h ?p]) = (Ok [Frame_new ?h ?p], FrameBuffer_new)"
    using parse_all_frames [of DEFAULT_MAX_PAYLOAD_SIZE "[Frame_new ?h ?p]"]
    by (simp add: push_spec FrameBuffer_new_def fb_inv_def unread_def frame_bytes_eq build_frame_eq
        with_max_payload_eq [symmetric] FrameBuffer_with_max_payload_def)
  then show ?thesis
    by (simp add: test_error_with_structured_payload_on_stream_method_def context_test_defs assms(1) send_via_def send_room
        default_writer_def WriterHandle_new_def DEFAULT_MAX_PENDING_FRAMES_def error_flags_def empty_state_def received_def
        pushed_def Let_def) (simp add: Header_new_def)
qed

text \<open>The helper returns the frames that were sent, however the pipe cuts them.\<close>

lemma read_frames_parses:
  "fb_inv fb \<Longrightarrow> parse_all (max_payload_size fb) (unread fb @ concat reads) = (gs, None, r) \<Longrightarrow>
   parse_one (max_payload_size fb) (unread fb) = Ok None \<Longrightarrow> [] \<notin> set reads \<Longrightarrow>
   read_frames (length (frames @ gs)) fb frames reads = Some (frames @ gs)"
proof (induction reads arbitrary: fb frames gs)
  case Nil
  then show ?case by (simp add: frame_simps)
next
  case (Cons data reads)
  let ?m = "max_payload_size fb"
  obtain hs e rest where pa: "parse_all ?m (unread fb @ data) = (hs, e, rest)" by (rule prod_cases3)
  with Cons.prems(2) parse_all_append [of ?m "unread fb @ data" "concat reads"] have "e = None"
    by (cases e) (auto split: prod.splits)
  with pa Cons.prems(2) parse_all_append [of ?m "unread fb @ data" "concat reads"] obtain ks where
    ks: "parse_all ?m (rest @ concat reads) = (ks, None, r)" "gs = hs @ ks"
    by (auto split: prod.splits)
  have none: "parse_one ?m rest = Ok None" using parse_all_rest_None pa \<open>e = None\<close> by blast
  have "push fb data = (Ok hs, settle ?m rest)" using push_Ok_iff [OF Cons.prems(1)] pa \<open>e = None\<close> by auto
  moreover have "read_frames (length ((frames @ hs) @ ks)) (settle ?m rest) (frames @ hs) reads = Some ((frames @ hs) @ ks)"
    using ks(1) none Cons.prems(4) fb_inv_settle by (intro Cons.IH) auto
  ultimately show ?case using Cons.prems(4) ks(2) by auto
qed

theorem read_frames_returns:
  assumes "list_all (frame_ok DEFAULT_MAX_PAYLOAD_SIZE) fs" and "concat reads = concat (map frame_bytes fs)"
    and "[] \<notin> set reads"
  shows "read_frames (length fs) FrameBuffer_new [] reads = Some fs"
  using read_frames_parses [of FrameBuffer_new reads fs "[]" "[]"] parse_all_frames [OF assms(1)] assms(2,3)
  by (simp add: FrameBuffer_new_def fb_inv_def unread_def)

theorem read_frames_returns_witness:
  "read_frames 1 FrameBuffer_new [] [take 5 (frame_bytes sample_frame), drop 5 (frame_bytes sample_frame)] = Some [sample_frame]"
proof -
  have "frame_ok DEFAULT_MAX_PAYLOAD_SIZE sample_frame" by code_simp
  moreover have "Header_encode h \<noteq> []" for h by (simp add: Header_encode_eq header_wire_def)
  ultimately show ?thesis
    using read_frames_returns [of "[sample_frame]" "[take 5 (frame_bytes sample_frame), drop 5 (frame_bytes sample_frame)]"]
    by (simp add: frame_bytes_eq)
qed

end
