(* ===== verification/Spec2Isabelle.thy ===== *)
theory Spec2Isabelle
  imports Connection Interface_Tests
begin

text \<open>
  \<^bold>\<open>procwire-client (Rust): the child side of the Procwire IPC protocol.\<close>

  A child process announces itself to its parent with one JSON line on standard output (the control
  plane) and then serves requests on a Unix socket or named pipe (the data plane), whose frames are
  an 11-byte big-endian header and a payload. The parts and how they interact:
  \<^item> a \<^emph>\<open>frame buffer\<close> turns whatever a read returns into frames (\<open>protocol/\<close>);
  \<^item> the \<^emph>\<open>client\<close> (\<open>client.rs\<close>) binds the path, writes \<open>$init\<close>, starts the control reader, accepts and,
    with a token, authenticates a connection, spawns the writer task and the read loop;
  \<^item> the \<^emph>\<open>read loop\<close> dispatches each frame: an ABORT cancels the token of an active context, a
    request takes a permit and spawns a handler task with a \<^emph>\<open>request context\<close> (\<open>handler/\<close>);
  \<^item> contexts and the client put frames through a \<^emph>\<open>writer handle\<close> into a bounded channel, under a
    shared counter of pending frames; the \<^emph>\<open>writer task\<close> (\<open>writer.rs\<close>) batches them and writes them
    with scatter/gather I/O;
  \<^item> the \<^emph>\<open>control reader\<close> (\<open>control/\<close>) answers \<open>$ping\<close> and cancels a token on \<open>$shutdown\<close>.

  \<^bold>\<open>Theories.\<close> Each models one part, in the order of the code; records are the structs, datatypes
  the enums, and functions keep the source's names (with the type's name in front where several
  types have the same method).
  \<^item> \<open>Prelude\<close>: machine integers as words, \<open>Result\<close> as a sum, big-endian conversion, number
    rendering, and the interfaces that are not tied to one part.
  \<^item> \<open>Errors\<close> (\<open>error.rs\<close>): the error enum, its messages, and faults (panics as values).
  \<^item> \<open>Wire_Format\<close>, \<open>Frames\<close>, \<open>Frame_Buffer\<close>, \<open>Header_Pool\<close> (\<open>protocol/\<close>): header encoding and
    validation; frames; the parser, shown to refine a stateless specification, to be independent
    of fragmentation up to the frames a framing error takes with it, to invert \<open>build_frame\<close>, to lose no byte and to stay in bounds; the ring of
    header buffers.
  \<^item> \<open>Backpressure\<close> (\<open>backpressure.rs\<close>): the controller and its guard over a heap of shared 64-bit
    counters, its waiting loop under interference at every point, and the interleaving of the atomic
    instructions of many tasks.
  \<^item> \<open>Write_Batch\<close>, \<open>Writer\<close>, \<open>Writer_System\<close> (\<open>writer.rs\<close>): partial vectored writes; the handle and
    the loop; all senders and the writer interleaved, with partial writes and failures in the middle of
    a batch: the counter is exact, frames come out once, in order, none is lost while the writer
    lives, what is on the wire is a prefix of the accepted frames' bytes, and no send is ever stuck.
  \<^item> \<open>Codec\<close> (\<open>codec/\<close>), \<open>Init_Message\<close>, \<open>Control_Plane\<close> (\<open>control/\<close>): codecs, the \<open>$init\<close> value and its
    readability, writing lines, parsing control lines, the reader loop.
  \<^item> \<open>Request_Context\<close>, \<open>Registry\<close> (\<open>handler/\<close>): the response operations over shared flags; the
    registry with 16-bit ids; handlers as programs of context operations.
  \<^item> \<open>Transport\<close> (\<open>transport/pipe.rs\<close>): path generation, listeners and streams of both platforms.
  \<^item> \<open>Auth\<close>, \<open>Dispatcher\<close>, \<open>Request_System\<close>, \<open>Client\<close> (\<open>client.rs\<close>): the handshake; dispatch, the
    handler task and the read loop; all requests interleaved; builder, start, events and shutdown.
  \<^item> \<open>Client_System\<close>: the running client, that is read loop, handler tasks, tasks that share a context,
    application tasks that emit and the writer task, interleaved at the grain of their atomic
    instructions (\<open>client_step\<close>), and with panics of user code at any point (\<open>crash_step\<close>); both refine
    \<open>Writer_System\<close> and answer each request at most once.
  \<^item> \<open>Client_Progress\<close>: this system is free of deadlocks: it can always come to rest with every permit
    back, no active context left and every accepted frame written.
  \<^item> \<open>Client_Termination\<close>: left to itself it comes to rest under every schedule, by a well-founded order
    on what its tasks and its writer task have still to do.
  \<^item> \<open>Client_Service\<close>: what the client owes its requests: a handler that never returns \<open>Ok\<close> before a terminal
    operation leaves no request unanswered, and without failing terminal operations answers, answers
    under way and open requests add up exactly.
  \<^item> \<open>Connection\<close> (\<open>read_loop\<close> with everything it starts): reading in any pieces, parsing, dispatching and the
    running client, panics included, interleaved, from what \<open>start\<close> adopts; the requests started and
    those dropped for want of a permit are those of the bytes read.
  \<^item> \<open>Examples\<close> (\<open>examples/\<close>): the echo, stream and event workers on top of the library, and what a
    parent sees of them.
  \<^item> \<open>Protocol_Tests\<close>, \<open>Library_Tests\<close>, \<open>Interface_Tests\<close>: the unit tests of the repository, which the model passes.
  \<^item> this theory: properties that span the parts (frames from the channel to the peer's parser, the
    responses of interleaved handlers to the peer, the bytes of a running client to the peer, an
    authenticated stream from the socket to the handlers, a whole connection from the parent's bytes
    to the bytes it gets back, shutdown).

  \<^bold>\<open>Interfaces.\<close> \<open>prefix_codec\<close> (self-delimiting encodings; interpreted for headers and frames),
  \<open>framer\<close> (splitting a chunk changes nothing while no call fails; for the frame buffer),
  \<open>invariant_system\<close> (for the step relations and their invariants, some with more than one),
  \<open>slot_counter\<close> (reserve and release; for the backpressure controller), \<open>frame_sender\<close> (what a send may
  do to channel and counter; for \<open>send\<close> and \<open>try_send\<close>, used by contexts and events),
  \<open>request_invariant\<close> (what every context operation keeps, every handler keeps).

  \<^bold>\<open>State and concurrency.\<close> Sequential code passes its state explicitly. Shared atomics are heaps of
  counters or maps of flags by address, and the code that runs concurrently is a step relation whose
  steps are the atomic instructions (counters, and the whole client in \<open>Client_System\<close>) or, in
  \<open>Request_System\<close>, whole context operations (sound where each handler uses its context from its own
  task: the flag is then touched by no one else, so the operation takes effect where its frame enters
  the channel; \<open>Client_System\<close> has no such restriction). Results are optional where a call can wait; \<open>None\<close> means still waiting.

  \<^bold>\<open>Fuel.\<close> \<open>writer_loop\<close> takes one unit per batch, and more units than frames suffice
  (\<open>writer_loop_drains\<close>); \<open>accept_loop\<close> takes one per connection. Loops that read run over the list of
  what the reads return and are \<open>None\<close> when it is used up; waiting loops likewise run over their
  rounds (what the other tasks do, or the counter value, and the elapsed time). Handler programs are
  trees without infinite branches. All other loops are total functions with a termination measure.

  \<^bold>\<open>Outside the repository.\<close> These are arguments, with hypotheses stating their documented behaviour
  where a theorem needs them, and a concrete instance that satisfies them: the writer
  (\<open>async_write_contract\<close>, \<open>async_write_progress\<close>), the channel (\<open>mpsc_contract\<close>), standard output
  (\<open>stdout_contract\<close>, \<open>stdout_works\<close>), serde\_json (\<open>json_roundtrip\<close>), rmp-serde (record \<open>msgpack\<close>),
  file system and sockets (\<open>socket_contract\<close>, \<open>removable\<close>), named pipes (\<open>named_pipe_contract\<close>), the
  iteration order of hash maps (\<open>lists_map\<close>), environment, clock, process id and the constructors of
  tokio's channel and semaphore, which panic for sizes they do not support (\<open>start_world\<close>).

  \<^bold>\<open>Not modelled.\<close> Module files and re-exports; the benchmark, which is an empty placeholder, the
  integration tests, and the unit tests that only build a value, compare addresses of shared memory or
  exercise external codecs; tracing output; memory orderings weaker than
  sequential consistency; buffer capacities and the sharing of \<open>Bytes\<close>; handlers that never end; the
  timing side of \<open>constant_time_eq\<close>. Panics of user code are steps of \<open>crash_step\<close>, and so of \<open>Connection\<close>;
  \<open>Request_System\<close>, \<open>Client_Progress\<close> and \<open>Client_Termination\<close> speak of user code that returns. In the
  interleaved systems a write failure may occur after any part of a batch, and a backpressure timeout
  whenever the counter is at its limit.
\<close>

section \<open>Properties across components\<close>

text \<open>The frames an \<open>OutboundFrame\<close> stands for, and the outbound form of a frame.\<close>

definition outbound_of :: "Frame \<Rightarrow> OutboundFrame" where
  "outbound_of f = OutboundFrame_new (header f) (payload f)"

lemma batch_bytes_outbound_of:
  "batch_bytes (map outbound_of fs) = concat (map frame_bytes fs)"
  by (induction fs) (simp_all add: outbound_of_def frame_bytes_eq build_frame_eq)

text \<open>What the peer's parser makes of well-formed frames of which the last ones may be cut off.\<close>

lemma peer_feed:
  assumes "list_all (frame_ok m) (ws @ rs)"
    and "concat chunks = concat (map frame_bytes ws) @ take k (concat (map frame_bytes rs))"
  obtains gs hs fb where "feed push (FrameBuffer_with_max_payload m) chunks = (ws @ gs, None, fb)" and "rs = gs @ hs"
    and "concat chunks = concat (map frame_bytes (ws @ gs)) @ unread fb"
proof -
  let ?B = "concat (map frame_bytes rs)"
  have "parse_all m (take k ?B @ drop k ?B) = (rs, None, [])" using parse_all_frames [of m rs] assms(1) by simp
  then obtain gs hs r where p: "parse_all m (take k ?B) = (gs, None, r)" "rs = gs @ hs" by (rule parse_all_prefix)
  then have all: "parse_all m (concat chunks) = (ws @ gs, None, r)"
    using parse_all_append [of m "concat (map frame_bytes ws)" "take k ?B"] parse_all_frames [of m ws] assms by simp
  then have "push (FrameBuffer_with_max_payload m) (concat chunks) = (Ok (ws @ gs), settle m r)" by (simp add: push_spec)
  from that [OF fbuf.feed_Ok [OF fb_idle_with_max_payload this] p(2)] parse_all_sound [OF all] show thesis by simp
qed

lemma peer_feed_all:
  assumes "list_all (frame_ok m) fs" and "concat chunks = concat (map frame_bytes fs)"
  shows "feed push (FrameBuffer_with_max_payload m) chunks = (fs, None, FrameBuffer_with_max_payload m)"
proof -
  have "push (FrameBuffer_with_max_payload m) (concat chunks) = (Ok fs, FrameBuffer_with_max_payload m)"
    using parse_all_frames [OF assms(1)] assms(2) by (simp add: push_spec) (simp add: with_max_payload_eq)
  from fbuf.feed_Ok [OF fb_idle_with_max_payload this] show ?thesis .
qed

lemma channel_to_peer:
  assumes "mpsc_contract R q" and "async_write_contract W sink" and "async_write_progress W"
    and "q c = map outbound_of fs" and "list_all (frame_ok m) fs" and "length fs < n"
    and "sink w = []" and "writer_loop n R W c w = (r, ops, c', w')" and "concat chunks = sink w'"
  shows "r = Some (Ok ()) \<and> released ops = length fs
    \<and> feed push (FrameBuffer_with_max_payload m) chunks = (fs, None, FrameBuffer_with_max_payload m)"
proof -
  have ok: "list_all outbound_ok (q c)" by (simp add: assms(4) list_all_iff outbound_of_def)
  have r: "r = Some (Ok ())"
    using writer_loop_progress [OF assms(1,3) ok, of n w] assms(4,6,8) by simp
  from writer_loop_delivered [OF assms(1,2) ok assms(8)] r assms(4)
  have rel: "released ops = length fs" and "delivered (q c) (sink w) (sink w') (length (q c))"
    by auto
  then have "sink w' = concat (map frame_bytes fs)"
    using delivered_all [of "q c" "sink w" "sink w'"] assms(4,7) by (simp add: batch_bytes_outbound_of)
  with peer_feed_all [OF assms(5), of chunks] assms(9) r rel show ?thesis by simp
qed

text \<open>From the channel to the peer's parser: the well-formed frames the channel holds when it is
  closed, written by the writer task on a writer that keeps its contract and makes progress, and
  read on the other side by a frame buffer in any fragmentation, arrive as the same frames in the
  same order, with nothing left over.\<close>

theorem frames_arrive:
  assumes "mpsc_contract R q" and "async_write_contract W sink" and "async_write_progress W"
    and "q c = map outbound_of fs" and "list_all (frame_ok m) fs" and "length fs < n"
    and "sink w = []" and "writer_loop n R W c w = (r, ops, c', w')" and "concat chunks = sink w'"
  shows "r = Some (Ok ()) \<and> released ops = length fs
    \<and> feed push (FrameBuffer_with_max_payload m) chunks = (fs, None, FrameBuffer_with_max_payload m)"
  using assms by (rule channel_to_peer)

theorem frames_arrive_witness:
  "fst (feed push (FrameBuffer_with_max_payload 100)
     [snd (snd (snd (writer_loop 2 drained trickle [outbound_of sample_frame] [])))]) = [sample_frame]"
proof -
  obtain r ops c' w' where e: "writer_loop 2 drained trickle [outbound_of sample_frame] [] = (r, ops, c', w')"
    by (rule prod_cases4)
  from frames_arrive [OF drained_contract trickle_contract, of "[outbound_of sample_frame]" "[sample_frame]"
      100 2 "[]" r ops c' w' "[w']"] e sample_frame_ok
  show ?thesis by simp
qed

text \<open>What requests and events put into the channel is well formed for the peer.\<close>

lemma out_parts:
  assumes "i \<noteq> 0" and "fl AND RESERVED_MASK = 0" and "length data \<le> unat m"
    and "length data \<le> unat ABSOLUTE_MAX_PAYLOAD_SIZE"
  shows "frame_ok m (Frame_new (Header_new i fl r (word_of_nat (length data))) data)"
proof -
  have "unat (word_of_nat (length data) :: u32) = length data"
    using assms(4) by (simp add: unat_of_nat take_bit_eq_mod ABSOLUTE_MAX_PAYLOAD_SIZE_def)
  with assms show ?thesis
    by (simp add: frame_ok_def Header_validate_Ok_iff Header_new_def word_le_nat_alt reserved_bits)
qed

lemma channel_frame_ok:
  assumes "channel_frame started f" and "fst (out_ids f) \<noteq> 0" and "length (of_payload f) \<le> unat m"
    and "length (of_payload f) \<le> unat ABSOLUTE_MAX_PAYLOAD_SIZE"
  shows "\<exists>fr. f = outbound_of fr \<and> frame_ok m fr"
proof -
  obtain i fl r data where f: "f = OutboundFrame_new (Header_new i fl r (word_of_nat (length data))) data"
    and fl: "fl AND RESERVED_MASK = 0"
    using assms(1) unfolding channel_frame_def event_frame_def
    by (auto simp: flag_bits)
  let ?fr = "Frame_new (Header_new i fl r (word_of_nat (length data))) data"
  have "i \<noteq> 0" "length data \<le> unat m" "length data \<le> unat ABSOLUTE_MAX_PAYLOAD_SIZE"
    using assms(2-4) f by (simp_all add: out_ids_def OutboundFrame_new_def Header_new_def)
  then have "frame_ok m ?fr" using fl by (intro out_parts)
  moreover have "f = outbound_of ?fr" by (simp add: f outbound_of_def)
  ultimately show ?thesis by blast
qed

lemma channel_frame_kind:
  assumes "channel_frame started (outbound_of f)"
  shows "Frame_is_event f \<or> Frame_is_response f \<and> (\<exists>req \<in> set started.
      Frame_method_id f = Frame_method_id req \<and> Frame_request_id f = Frame_request_id req)"
proof -
  have inj: "header f = h" if "outbound_of f = OutboundFrame_new h data" for h data
    using that by (simp add: outbound_of_def OutboundFrame_new_def)
  from assms show ?thesis
    unfolding channel_frame_def event_frame_def
    by (auto dest!: inj simp: Header_new_def Frame_is_event_def Frame_is_response_def Frame_method_id_def
        Frame_request_id_def flag_bits has_flag_def)
qed

text \<open>What the peer makes of a list of frames the channel may hold.\<close>

lemma peer_view:
  assumes "\<forall>f \<in> set out. channel_frame started f"
    and "\<forall>f \<in> set out. fst (out_ids f) \<noteq> 0 \<and> length (of_payload f) \<le> unat m
      \<and> length (of_payload f) \<le> unat ABSOLUTE_MAX_PAYLOAD_SIZE"
  shows "\<exists>fs. map outbound_of fs = out \<and> list_all (frame_ok m) fs
    \<and> (\<forall>f \<in> set fs. Frame_is_event f \<or> Frame_is_response f
         \<and> (\<exists>req \<in> set started. Frame_method_id f = Frame_method_id req
              \<and> Frame_request_id f = Frame_request_id req))
    \<and> (\<forall>ids. length (filter (\<lambda>f. is_terminal_frame (outbound_of f) \<and> frame_ids f = ids) fs) = answers_in ids out)"
proof -
  have "\<forall>f \<in> set out. \<exists>fr. f = outbound_of fr \<and> frame_ok m fr"
    using assms by (blast intro: channel_frame_ok)
  from preimage_list [OF this] obtain fs where fs: "map outbound_of fs = out" "list_all (frame_ok m) fs" by blast
  have ids: "out_ids (outbound_of f) = frame_ids f" for f
    by (simp add: out_ids_def outbound_of_def OutboundFrame_new_def)
  have "Frame_is_event f \<or> Frame_is_response f \<and> (\<exists>req \<in> set started.
      Frame_method_id f = Frame_method_id req \<and> Frame_request_id f = Frame_request_id req)"
    if "f \<in> set fs" for f
    using assms(1) fs(1) that by (intro channel_frame_kind) (metis image_eqI list.set_map)
  moreover have "length (filter (\<lambda>f. is_terminal_frame (outbound_of f) \<and> frame_ids f = i) fs) = answers_in i out" for i
    by (simp add: answers_in_def fs(1) [symmetric] filter_map comp_def ids del: prod.inject)
  ultimately show ?thesis using fs by blast
qed

text \<open>From the handlers to the peer: take any state the request system can reach and write what
  the handlers and the application have put into the channel. If the method and event ids are not 0
  and the payloads fit the peer's limit, the peer's parser returns one frame for each of them, in
  order; each is an event or a response with the ids of a started request, and for no pair of ids
  are there more terminal responses than requests.\<close>

theorem responses_arrive:
  assumes "(disp_step C reg w)\<^sup>*\<^sup>* ([], disp_init limit) (tasks, ds)"
    and "\<forall>f \<in> set (cs_sent (ds_ctx ds)). fst (out_ids f) \<noteq> 0 \<and> length (of_payload f) \<le> unat m
      \<and> length (of_payload f) \<le> unat ABSOLUTE_MAX_PAYLOAD_SIZE"
    and "mpsc_contract R q" and "async_write_contract W sink" and "async_write_progress W"
    and "q c = cs_sent (ds_ctx ds)" and "length (q c) < n" and "sink pipe = []"
    and "writer_loop n R W c pipe = (r, ops, c', pipe')" and "concat chunks = sink pipe'"
  shows "\<exists>fs. r = Some (Ok ())
    \<and> feed push (FrameBuffer_with_max_payload m) chunks = (fs, None, FrameBuffer_with_max_payload m)
    \<and> map outbound_of fs = cs_sent (ds_ctx ds)
    \<and> (\<forall>f \<in> set fs. Frame_is_event f \<or> Frame_is_response f
         \<and> (\<exists>req \<in> set (ds_started ds). Frame_method_id f = Frame_method_id req
              \<and> Frame_request_id f = Frame_request_id req))
    \<and> (\<forall>ids. length (filter (\<lambda>f. is_terminal_frame (outbound_of f) \<and> frame_ids f = ids) fs)
         \<le> requests ids (ds_started ds))"
proof -
  note inv = answer_invD [OF asys.inv_reachable [OF refl assms(1)]]
  from peer_view [OF inv(2) assms(2)] obtain fs where fs: "map outbound_of fs = cs_sent (ds_ctx ds)"
    "list_all (frame_ok m) fs"
    and kinds: "\<forall>f \<in> set fs. Frame_is_event f \<or> Frame_is_response f
         \<and> (\<exists>req \<in> set (ds_started ds). Frame_method_id f = Frame_method_id req
              \<and> Frame_request_id f = Frame_request_id req)"
    and counts: "\<forall>ids. length (filter (\<lambda>f. is_terminal_frame (outbound_of f) \<and> frame_ids f = ids) fs)
         = answers_in ids (cs_sent (ds_ctx ds))" by blast
  have q: "q c = map outbound_of fs" "length fs < n"
    using assms(6,7) fs(1) [symmetric] by simp_all
  have peer: "r = Some (Ok ())"
    "feed push (FrameBuffer_with_max_payload m) chunks = (fs, None, FrameBuffer_with_max_payload m)"
    using channel_to_peer [OF assms(3-5) q(1) fs(2) q(2) assms(8-10)] by blast+
  have "answers_in i (cs_sent (ds_ctx ds)) \<le> requests i (ds_started ds)" for i
    using inv(1) [of i] by (simp add: answers_def answers_in_def)
  with peer fs(1) kinds counts show ?thesis by auto
qed

text \<open>The bytes the writer task of a running client has written, as the peer reads them.\<close>

abbreviation answers_read :: "u16 \<times> u32 \<Rightarrow> Frame list \<Rightarrow> nat" where
  "answers_read ids fs \<equiv> length (filter (\<lambda>f. is_terminal_frame (outbound_of f) \<and> frame_ids f = ids) fs)"

text \<open>The frames the channel has accepted, as frames of the peer.\<close>

lemma accepted_view:
  assumes "(crash_step C reg w cap n)\<^sup>*\<^sup>* (client_init limit) s"
    and "\<forall>f \<in> set (ws_accepted (cy_writer s)). fst (out_ids f) \<noteq> 0 \<and> length (of_payload f) \<le> unat m
      \<and> length (of_payload f) \<le> unat ABSOLUTE_MAX_PAYLOAD_SIZE"
  obtains fs where "map outbound_of fs = ws_accepted (cy_writer s)" and "list_all (frame_ok m) fs"
    and "\<forall>f \<in> set fs. Frame_is_event f \<or> Frame_is_response f
         \<and> (\<exists>req \<in> set (ds_started (cy_disp s)). Frame_method_id f = Frame_method_id req
              \<and> Frame_request_id f = Frame_request_id req)"
    and "\<forall>ids. answers_read ids fs = answers_in ids (ws_accepted (cy_writer s))"
    and "\<forall>ids. answers_read ids fs \<le> requests ids (ds_started (cy_disp s))"
proof -
  let ?v = "cy_writer s" and ?started = "ds_started (cy_disp s)"
  have inv: "client_inv limit n s" using crash.inv_reachable [OF refl assms(1)] .
  have chan: "\<forall>f \<in> set (ws_accepted ?v). channel_frame ?started f"
    using inv by (simp add: client_inv_def frames_inv_def sender_frames_def)
  have once: "answers_in i (ws_accepted ?v) \<le> requests i ?started" for i
  proof -
    have "answers_in i (ws_accepted ?v) + under_way_all n i s + unanswered i (cy_disp s) \<le> requests i ?started"
      using inv by (simp add: client_inv_def once_inv_def del: split_paired_All)
    then show ?thesis by simp
  qed
  from peer_view [OF chan assms(2)] obtain fs where fs: "map outbound_of fs = ws_accepted ?v" "list_all (frame_ok m) fs"
    "\<forall>f \<in> set fs. Frame_is_event f \<or> Frame_is_response f \<and> (\<exists>req \<in> set ?started.
      Frame_method_id f = Frame_method_id req \<and> Frame_request_id f = Frame_request_id req)"
    "\<forall>ids. answers_read ids fs = answers_in ids (ws_accepted ?v)" by blast
  have "\<forall>ids. answers_read ids fs \<le> requests ids ?started"
  proof
    show "answers_read ids fs \<le> requests ids ?started" for ids using once [of ids] spec [OF fs(4), of ids] by argo
  qed
  with fs show thesis by (rule that)
qed

text \<open>What the peer reads from a running client: take any state the client can reach at the grain of
  its atomic instructions, with contexts shared among tasks and user code that may panic, and all the
  bytes its writer task has put on the wire so far, those of a batch it has not finished or in whose
  middle it has failed included. If the ids are not 0 and the payloads fit the peer's limit, the
  peer's parser, reading these bytes in any fragmentation, finds no error and returns the frames of
  all batches written in full and perhaps more, in the order in which the channel accepted them; each
  is an event or a response with the ids of a started request, and for no pair of ids are there more
  terminal responses than requests.\<close>

theorem peer_reads_running_client:
  assumes "(crash_step C reg w cap n)\<^sup>*\<^sup>* (client_init limit) s" and "unat (wh_max_pending w) + n < 2 ^ 64"
    and "\<forall>f \<in> set (ws_accepted (cy_writer s)). fst (out_ids f) \<noteq> 0 \<and> length (of_payload f) \<le> unat m
      \<and> length (of_payload f) \<le> unat ABSOLUTE_MAX_PAYLOAD_SIZE"
    and "concat chunks = ws_wire (cy_writer s)"
  shows "\<exists>fs fb. feed push (FrameBuffer_with_max_payload m) chunks = (fs, None, fb)
    \<and> prefix (ws_written (cy_writer s)) (map outbound_of fs) \<and> prefix (map outbound_of fs) (ws_accepted (cy_writer s))
    \<and> ws_wire (cy_writer s) = concat (map frame_bytes fs) @ unread fb
    \<and> (\<forall>f \<in> set fs. Frame_is_event f \<or> Frame_is_response f
         \<and> (\<exists>req \<in> set (ds_started (cy_disp s)). Frame_method_id f = Frame_method_id req
              \<and> Frame_request_id f = Frame_request_id req))
    \<and> (\<forall>ids. answers_read ids fs \<le> requests ids (ds_started (cy_disp s)))"
proof -
  let ?v = "cy_writer s" and ?started = "ds_started (cy_disp s)"
  obtain all where all: "map outbound_of all = ws_accepted ?v" "list_all (frame_ok m) all"
    and kinds: "\<forall>f \<in> set all. Frame_is_event f \<or> Frame_is_response f \<and> (\<exists>req \<in> set ?started.
      Frame_method_id f = Frame_method_id req \<and> Frame_request_id f = Frame_request_id req)"
    and "\<forall>ids. answers_read ids all = answers_in ids (ws_accepted ?v)"
    and few: "\<forall>ids. answers_read ids all \<le> requests ids ?started"
    by (rule accepted_view [OF assms(1,3)])
  have "(writer_step (wh_max_pending w) cap n)\<^sup>*\<^sup>* writer_init ?v"
    using crash_steps_writer [OF assms(1)] by (simp add: client_init_def)
  from wire_prefix [OF this assms(2)] obtain rest k where
    wire: "ws_accepted ?v = ws_written ?v @ rest" "ws_wire ?v = batch_bytes (ws_written ?v) @ take k (batch_bytes rest)"
    by blast
  from all(1) wire(1) obtain ws rs where split: "all = ws @ rs" "map outbound_of ws = ws_written ?v" "map outbound_of rs = rest"
    by (auto simp: map_eq_append_conv)
  have "concat chunks = concat (map frame_bytes ws) @ take k (concat (map frame_bytes rs))"
    using assms(4) wire(2) split(2,3) by (simp flip: batch_bytes_outbound_of)
  from peer_feed [OF all(2) [unfolded split(1)] this] obtain gs hs fb where
    feed: "feed push (FrameBuffer_with_max_payload m) chunks = (ws @ gs, None, fb)" "rs = gs @ hs"
      "concat chunks = concat (map frame_bytes (ws @ gs)) @ unread fb" .
  have "answers_read ids (ws @ gs) \<le> requests ids ?started" for ids
    using few [rule_format, of ids] by (simp add: split(1) feed(2))
  moreover have "prefix (ws_written ?v) (map outbound_of (ws @ gs))" "prefix (map outbound_of (ws @ gs)) (ws_accepted ?v)"
    using all(1) split(2) by (simp_all add: split(1) feed(2) flip: all(1))
  moreover have "\<forall>f \<in> set (ws @ gs). Frame_is_event f \<or> Frame_is_response f \<and> (\<exists>req \<in> set ?started.
      Frame_method_id f = Frame_method_id req \<and> Frame_request_id f = Frame_request_id req)"
    using kinds unfolding split(1) feed(2) by auto
  moreover have "ws_wire ?v = concat (map frame_bytes (ws @ gs)) @ unread fb" using feed(3) assms(4) by simp
  ultimately show ?thesis using feed(1) by blast
qed

theorem peer_reads_running_client_witness:
  "\<exists>fs fb. feed push (FrameBuffer_with_max_payload 100) [batch_bytes [sample_answer]] = (fs, None, fb) \<and> length fs \<le> 1"
proof -
  from client_sample_written obtain s where
    s: "(client_step sample_codec sample_reg sample_writer 8 2)\<^sup>*\<^sup>* (client_init 1) s"
    "ws_accepted (cy_writer s) = [sample_answer]" "ws_wire (cy_writer s) = batch_bytes [sample_answer]" by blast
  have "\<forall>f \<in> set (ws_accepted (cy_writer s)). fst (out_ids f) \<noteq> 0 \<and> length (of_payload f) \<le> unat (100 :: u32)
      \<and> length (of_payload f) \<le> unat ABSOLUTE_MAX_PAYLOAD_SIZE"
    by (simp add: s(2) out_ids_def OutboundFrame_new_def Header_new_def)
  moreover have "unat (wh_max_pending sample_writer) + 2 < 2 ^ 64" by (simp add: WriterHandle_new_def)
  moreover have "concat [batch_bytes [sample_answer]] = ws_wire (cy_writer s)" by (simp add: s(3))
  ultimately obtain fs fb where
    "feed push (FrameBuffer_with_max_payload 100) [batch_bytes [sample_answer]] = (fs, None, fb)"
    "prefix (map outbound_of fs) (ws_accepted (cy_writer s))"
    using peer_reads_running_client [OF crash_run [OF s(1)]] by blast
  moreover from prefix_length_le [OF this(2)] have "length fs \<le> 1" by (simp add: s(2))
  ultimately show ?thesis by blast
qed

lemma sample_answered:
  "\<exists>ds. (disp_step sample_codec sample_reg sample_writer)\<^sup>*\<^sup>* ([], disp_init 1) ([], ds)
     \<and> cs_sent (ds_ctx ds) = [sample_answer]"
proof -
  let ?step = "disp_step sample_codec sample_reg sample_writer"
  have "?step ([], disp_init 1) ([sample_task], sample_ds)"
    using d_frame [of sample_codec sample_reg sample_writer "([], disp_init 1)" sample_frame]
    unfolding sample_spawn .
  moreover have "\<exists>st. handler_task sample_codec sample_task sample_envs sample_env (ds_ctx sample_ds) = (True, st)
      \<and> cs_sent st = [sample_answer]"
    by (simp add: dispatch_frame_def with_writer_and_token_def Let_def disp_init_def Header_new_def
      ABORT_METHOD_ID_def AUTH_METHOD_ID_def Header_is_response_def dispatch_def get_handler_by_id_def
      HandlerRegistry_new_def handler_task_def abort_point_def has_responded_def flag_new_def token_new_def
      send_error_def marked_eq MsgPackCodec_encode_str_def sample_codec_def send_frame_def send_via_def send_room
      WriterHandle_new_def error_flags_def get_response_type_by_id_def)
  then obtain st where t: "handler_task sample_codec sample_task sample_envs sample_env (ds_ctx sample_ds) = (True, st)"
    and sent: "cs_sent st = [sample_answer]" by blast
  have "?step\<^sup>*\<^sup>* ([] @ sample_task # [], sample_ds) ([] @ [], finish_task sample_task (sample_ds\<lparr>ds_ctx := st\<rparr>))"
    using handler_task_moves [OF t sample_dispatch(4)] by (rule mono_rtranclp [rule_format, rotated]) (rule d_move)
  ultimately have "?step\<^sup>*\<^sup>* ([], disp_init 1) ([], finish_task sample_task (sample_ds\<lparr>ds_ctx := st\<rparr>))"
    by simp
  moreover have "cs_sent (ds_ctx (finish_task sample_task (sample_ds\<lparr>ds_ctx := st\<rparr>)))
      = [sample_answer]" using sent by simp
  ultimately show ?thesis by blast
qed

theorem responses_arrive_witness:
  "\<exists>fs fb. feed push (FrameBuffer_with_max_payload 100) [snd (snd (snd (writer_loop 2 drained trickle
        [sample_answer] [])))] = (fs, None, fb)
    \<and> map outbound_of fs = [sample_answer]"
proof -
  let ?f = "sample_answer"
  obtain ds where reach: "(disp_step sample_codec sample_reg sample_writer)\<^sup>*\<^sup>* ([], disp_init 1) ([], ds)"
    and sent: "cs_sent (ds_ctx ds) = [?f]" using sample_answered by blast
  obtain r ops c' w' where e: "writer_loop 2 drained trickle [?f] [] = (r, ops, c', w')" by (rule prod_cases4)
  have ok: "\<forall>f \<in> set (cs_sent (ds_ctx ds)). fst (out_ids f) \<noteq> 0 \<and> length (of_payload f) \<le> unat (100 :: u32)
      \<and> length (of_payload f) \<le> unat ABSOLUTE_MAX_PAYLOAD_SIZE"
    by (simp add: sent out_ids_def OutboundFrame_new_def Header_new_def)
  from responses_arrive [OF reach ok drained_contract trickle_contract, of "[?f]" 2 "[]" r ops c' w' "[w']"] sent e
  show ?thesis by auto
qed

text \<open>C9. From an authenticated connection to the handlers: if \<open>start\<close> succeeds with a token, then the
  bytes read from the adopted connection begin with an AUTH frame carrying it. If the peer closes this
  connection after some more reads, the read loop dispatches the frames behind the AUTH frame, each
  once and in order. If there is no framing error among them, all of them are dispatched, however the
  stream was cut into reads, and the loop returns \<open>Ok\<close>. If there is one, the loop returns it in
  every fragmentation, and what has been dispatched are the frames of the reads before the one that
  completes the bad header. Nothing is assumed of other connections.\<close>

theorem authenticated_stream_dispatched:
  assumes "effective_token (sw_env W) b = Some token"
    and "ClientBuilder_start n W b methods events fs out hp = (Some (Ok client), fs', out', hp')"
    and "ad_reads (cl_connection client) = map Read chunks @ [Read []]" and "[] \<notin> set chunks"
  shows "\<exists>c past first gs e r hs. sw_reads W c = map Read past @ ad_reads (cl_connection client)
    \<and> parse_all (cb_max_payload_size b) (concat past @ concat chunks) = (first # gs, e, r)
    \<and> method_id (header first) = AUTH_METHOD_ID \<and> payload first = str_bytes token
    \<and> read_loop disp (ad_reads (cl_connection client)) (ad_buffer (cl_connection client))
        (ad_frames (cl_connection client)) s = (Some (case e of None \<Rightarrow> Ok () | Some x \<Rightarrow> Err (Fail x)), fold disp hs s)
    \<and> (case e of None \<Rightarrow> hs = gs
       | Some x \<Rightarrow> \<exists>pre bad post r0 r1. chunks = pre @ bad # post
           \<and> parse_all (cb_max_payload_size b) (concat past @ concat pre) = (first # hs, None, r0)
           \<and> parse_all (cb_max_payload_size b) (concat past @ concat pre @ bad) = (first # gs, Some x, r1))"
proof -
  let ?m = "cb_max_payload_size b" and ?conn = "cl_connection client"
  obtain l fs1 fs2 where "accept_loop n (sw_sockets W) (sw_reads W) l (Some token) ?m fs1
      = (Some (Ok ?conn), fs2)"
    using start_Ok [OF assms(2) [unfolded ClientBuilder_start_def assms(1)]] by blast
  from accept_loop_adopted [OF this] obtain c past first where
    ad: "sw_reads W c = map Read past @ ad_reads ?conn"
      "parse_all ?m (concat past) = (first # ad_frames ?conn, None, unread (ad_buffer ?conn))"
      "method_id (header first) = AUTH_METHOD_ID" "payload first = str_bytes token"
      "fb_inv (ad_buffer ?conn)" "max_payload_size (ad_buffer ?conn) = ?m"
    by blast
  have drained: "drained_buffer (ad_buffer ?conn)" using ad(5,6) parse_all_rest_None [OF ad(2)] by simp
  have behind: "parse_all ?m (concat past @ bs) = (case parse_all ?m (unread (ad_buffer ?conn) @ bs) of
      (gs, e, r) \<Rightarrow> (first # ad_frames ?conn @ gs, e, r))" for bs
    using parse_all_append [of ?m "concat past" bs] ad(2) by simp
  obtain gs e r where pa: "parse_all ?m (unread (ad_buffer ?conn) @ concat chunks) = (gs, e, r)" by (rule prod_cases3)
  from read_loop_from_parses [OF drained assms(4), unfolded ad(6), OF pa, of disp "fold disp (ad_frames ?conn) s"]
  obtain hs where hs: "read_loop disp (ad_reads ?conn) (ad_buffer ?conn) (ad_frames ?conn) s
      = (Some (case e of None \<Rightarrow> Ok () | Some x \<Rightarrow> Err (Fail x)), fold disp (ad_frames ?conn @ hs) s)"
    "case e of None \<Rightarrow> hs = gs
       | Some x \<Rightarrow> \<exists>pre bad post r0 r1. chunks = pre @ bad # post
           \<and> parse_all ?m (unread (ad_buffer ?conn) @ concat pre) = (hs, None, r0)
           \<and> parse_all ?m (unread (ad_buffer ?conn) @ concat pre @ bad) = (gs, Some x, r1)"
    by (auto simp: read_loop_def assms(3))
  have "case e of None \<Rightarrow> ad_frames ?conn @ hs = ad_frames ?conn @ gs
       | Some x \<Rightarrow> \<exists>pre bad post r0 r1. chunks = pre @ bad # post
           \<and> parse_all ?m (concat past @ concat pre) = (first # ad_frames ?conn @ hs, None, r0)
           \<and> parse_all ?m (concat past @ concat pre @ bad) = (first # ad_frames ?conn @ gs, Some x, r1)"
    using hs(2) behind by (cases e) (simp, force)
  then show ?thesis using ad(1,3,4) behind [of "concat chunks"] hs(1) pa
    by (intro exI [of _ c] exI [of _ past] exI [of _ first] exI [of _ "ad_frames ?conn @ gs"] exI [of _ e]
        exI [of _ r] exI [of _ "ad_frames ?conn @ hs"]) simp
qed

lemma read_loop_from_returns:
  "\<exists>x \<in> set reads. x = Read [] \<or> (\<exists>e. x = ReadFail e) \<Longrightarrow>
   \<exists>r. fst (read_loop_from disp reads fb s) = Some r"
  by (induction disp reads fb s rule: read_loop_from.induct) (fastforce split: prod.split sum.split)+

lemma control_reader_cancels:
  assumes "stdout_works H" and "parse_control_line from_str l = Shutdown"
  shows "list_all (is_served from_str) pre \<Longrightarrow>
    ro_cancelled (run_control_reader from_str H (pre @ Line l # post) token out)"
proof (induction pre arbitrary: out)
  case Nil
  then show ?case using assms(2) by simp
next
  case (Cons x pre)
  then obtain line where x: "x = Line line" "parse_control_line from_str line \<noteq> Shutdown"
    by (cases x) auto
  have ok: "is_ok (fst (write_stdout_line H PONG_MESSAGE out))"
    using assms(1) by (rule write_stdout_line_works)
  from Cons x ok show ?case
    by (cases "parse_control_line from_str line") (auto split: prod.split sum.split)
qed

text \<open>A peer that sends an AUTH frame and one request.\<close>

abbreviation sample_peer :: "(unit, rstr) start_world" where
  "sample_peer \<equiv> sample_world\<lparr>sw_reads := \<lambda>_. [Read (frame_bytes sample_auth @ frame_bytes sample_frame), Read []]\<rparr>"

abbreviation sample_builder :: "nat ClientBuilder" where
  "sample_builder \<equiv> builder_auth_token ''hi'' (builder_max_payload_size 100 ClientBuilder_new)"

lemma sample_builder_sel:
  "effective_token (sw_env sample_peer) sample_builder = Some ''hi''" "cb_max_payload_size sample_builder = 100"
  "cb_max_concurrent_handlers sample_builder = DEFAULT_MAX_CONCURRENT_HANDLERS"
  by (simp_all add: builder_auth_token_def builder_max_payload_size_def ABSOLUTE_MAX_PAYLOAD_SIZE_def min_def
      effective_token_def non_empty_def ClientBuilder_new_def)

lemma sample_session:
  "\<exists>client out hp. ClientBuilder_start 1 sample_peer sample_builder [] [] () [] (\<lambda>_. 5) = (Some (Ok client), (), out, hp)
   \<and> cl_registry client = sample_reg \<and> wh_max_pending (cl_writer client) = DEFAULT_MAX_PENDING_FRAMES
   \<and> ad_buffer (cl_connection client) = FrameBuffer_with_max_payload 100
   \<and> ad_frames (cl_connection client) = [sample_frame] \<and> ad_reads (cl_connection client) = [Read []]"
proof -
  have "push (FrameBuffer_with_max_payload 100) (frame_bytes sample_auth @ frame_bytes sample_frame)
      = (Ok [sample_auth, sample_frame], FrameBuffer_with_max_payload 100)"
    using parse_all_frames [of 100 "[sample_auth, sample_frame]"] sample_auth_ok sample_frame_ok
    by (simp add: push_spec) (simp add: with_max_payload_eq)
  then have "run_auth_handshake [Read (frame_bytes sample_auth @ frame_bytes sample_frame), Read []] ''hi'' 100
      = (Some (Adopted (FrameBuffer_with_max_payload 100) [sample_frame]), [Read []])"
    by (simp add: run_auth_handshake_def str_bytes_def Header_new_def frame_bytes_eq constant_time_eq_iff)
  then show ?thesis
    by (simp add: ClientBuilder_start_def Client_start_def sample_world_def PipeListener_bind_def
        PipeListener_accept_def build_init_message_def write_stdout_line_def sample_stdout_def
        spawn_writer_task_def Let_def effective_token_def non_empty_def builder_auth_token_def
        builder_max_payload_size_def ClientBuilder_new_def ABSOLUTE_MAX_PAYLOAD_SIZE_def min_def
        WriterHandle_new_def WriterConfig_default_def)
qed

lemma sample_peer_frames:
  assumes "sw_reads sample_peer c = map Read past @ reads" and "reads = [Read []]"
    and "parse_all (cb_max_payload_size sample_builder) (concat past) = (first # gs, e, r)"
  shows "e = None" and "gs = [sample_frame]"
proof -
  have "concat past = [] \<or> concat past = frame_bytes sample_auth @ frame_bytes sample_frame"
    using assms(1,2) by (auto simp: Cons_eq_append_conv Cons_eq_map_conv)
  with assms(3) parse_all_frames [of 100 "[sample_auth, sample_frame]"] sample_auth_ok sample_frame_ok
  show "e = None" and "gs = [sample_frame]"
    by (auto simp: sample_builder_sel(2) frame_simps simp del: concat_eq_Nil_conv)
qed

theorem authenticated_stream_dispatched_witness:
  "\<exists>conn :: adopted. read_loop (\<lambda>f n. Suc n) (ad_reads conn) (ad_buffer conn) (ad_frames conn) (0 :: nat)
     = (Some (Ok ()), 1)"
proof -
  obtain client out hp where
    st: "ClientBuilder_start 1 sample_peer sample_builder [] [] () [] (\<lambda>_. 5) = (Some (Ok client), (), out, hp)"
    and rd: "ad_reads (cl_connection client) = [Read []]"
    using sample_session by blast
  have reads: "ad_reads (cl_connection client) = map Read [] @ [Read []]" by (simp add: rd)
  from authenticated_stream_dispatched [OF sample_builder_sel(1) st reads, of "\<lambda>f n. Suc n" 0]
  obtain c past first gs e r hs where
    a: "sw_reads sample_peer c = map Read past @ ad_reads (cl_connection client)"
    and p: "parse_all (cb_max_payload_size sample_builder) (concat past) = (first # gs, e, r)"
    and l: "read_loop (\<lambda>f n. Suc n) (ad_reads (cl_connection client)) (ad_buffer (cl_connection client))
        (ad_frames (cl_connection client)) 0 = (Some (case e of None \<Rightarrow> Ok () | Some x \<Rightarrow> Err (Fail x)), fold (\<lambda>f n. Suc n) hs 0)"
    and h: "e = None \<longrightarrow> hs = gs" by (auto split: option.splits)
  from sample_peer_frames [OF a rd p] h l show ?thesis by auto
qed

text \<open>C2. From the parent's bytes to the bytes the parent gets back. Take a client started with a token, and
  any state its connection can reach: whatever was read in whatever pieces, however reading,
  dispatching, the handler tasks, tasks sharing their contexts, events and the writer task interleave,
  whatever user code panics, and wherever in a batch the writer task is or has failed. The bytes read
  since the connection was made start with an AUTH frame carrying the token. If the method and event
  ids of the frames the channel accepted are not 0, their payloads fit the parent's limit and the
  protocol's, and the maximum of the counter leaves room for the sending tasks below \<open>2 ^ 64\<close>, then the
  parent's parser, given in any pieces all bytes that reached it, the beginning of a batch included,
  finds no error and returns all frames of the batches written in full, and perhaps more, in the
  order in which the channel accepted them; each is an event or a response with the ids of a request
  frame behind that AUTH frame, and for no pair of ids are there more terminal responses than
  requests.\<close>

theorem connection_answers_requests:
  assumes "effective_token (sw_env W) b = Some token"
    and "ClientBuilder_start k W b methods events fs0 out hp = (Some (Ok client), fs', out', hp')"
    and "(conn_step C (cl_registry client) (cl_writer client) cap n)\<^sup>*\<^sup>* (adopted_connection client) s"
    and "unat (wh_max_pending (cl_writer client)) + n < 2 ^ 64"
    and "\<forall>f \<in> set (ws_accepted (cy_writer (cn_client s))). fst (out_ids f) \<noteq> 0 \<and> length (of_payload f) \<le> unat m
      \<and> length (of_payload f) \<le> unat ABSOLUTE_MAX_PAYLOAD_SIZE"
    and "concat chunks = ws_wire (cy_writer (cn_client s))"
  shows "\<exists>c past first gs e r fs fb. sw_reads W c = map Read past @ ad_reads (cl_connection client)
    \<and> parse_all (cb_max_payload_size b) (concat past @ cn_read s) = (first # gs, e, r)
    \<and> method_id (header first) = AUTH_METHOD_ID \<and> payload first = str_bytes token
    \<and> feed push (FrameBuffer_with_max_payload m) chunks = (fs, None, fb)
    \<and> prefix (ws_written (cy_writer (cn_client s))) (map outbound_of fs)
    \<and> prefix (map outbound_of fs) (ws_accepted (cy_writer (cn_client s)))
    \<and> (\<forall>f \<in> set fs. Frame_is_event f \<or> Frame_is_response f
         \<and> (\<exists>req \<in> set (filter request_frame gs). Frame_method_id f = Frame_method_id req
              \<and> Frame_request_id f = Frame_request_id req))
    \<and> (\<forall>ids. answers_read ids fs \<le> requests ids (filter request_frame gs))"
proof -
  let ?started = "ds_started (cy_disp (cn_client s))"
  note start = started_connection [OF assms(1,2)]
  from start(4) obtain c past first gs e r where
    c: "sw_reads W c = map Read past @ ad_reads (cl_connection client)"
      "parse_all (cb_max_payload_size b) (concat past @ cn_read s) = (first # gs, e, r)"
      "method_id (header first) = AUTH_METHOD_ID" "payload first = str_bytes token"
    and calls: "calls (ad_buffer (cl_connection client)) (ad_frames (cl_connection client)) (cn_read s) = filter request_frame gs"
    by blast
  note run = assms(3) [unfolded start(1)]
  have sub: "subseq ?started (filter request_frame gs)" using started_calls(1) [OF start(3) run] by (simp only: calls)
  from peer_reads_running_client [OF conn_reachable [OF run] assms(4-6)] obtain fs fb where
    fs: "feed push (FrameBuffer_with_max_payload m) chunks = (fs, None, fb)"
      "prefix (ws_written (cy_writer (cn_client s))) (map outbound_of fs)"
      "prefix (map outbound_of fs) (ws_accepted (cy_writer (cn_client s)))"
    and kinds: "\<forall>f \<in> set fs. Frame_is_event f \<or> Frame_is_response f \<and> (\<exists>req \<in> set ?started.
      Frame_method_id f = Frame_method_id req \<and> Frame_request_id f = Frame_request_id req)"
    and few: "\<forall>ids. answers_read ids fs \<le> requests ids ?started" by blast
  have "answers_read ids fs \<le> requests ids (filter request_frame gs)" for ids
    using few requests_subseq [OF sub, of ids] order_trans by blast
  moreover have "\<forall>f \<in> set fs. Frame_is_event f \<or> Frame_is_response f \<and> (\<exists>req \<in> set (filter request_frame gs).
      Frame_method_id f = Frame_method_id req \<and> Frame_request_id f = Frame_request_id req)"
    using kinds subseq_set [OF sub] by blast
  ultimately show ?thesis using c fs by blast
qed

text \<open>A run of the connection of that peer, in which its request is answered.\<close>

lemma sample_connection:
  "\<exists>client out hp s. ClientBuilder_start 1 sample_peer sample_builder [] [] () [] (\<lambda>_. 5) = (Some (Ok client), (), out, hp)
   \<and> cl_registry client = sample_reg \<and> wh_max_pending (cl_writer client) = DEFAULT_MAX_PENDING_FRAMES
   \<and> ad_buffer (cl_connection client) = FrameBuffer_with_max_payload 100
   \<and> ad_frames (cl_connection client) = [sample_frame] \<and> ad_reads (cl_connection client) = [Read []]
   \<and> (smooth_step sample_codec (cl_registry client) (cl_writer client) 8 2)\<^sup>*\<^sup>* (adopted_connection client) s
   \<and> cn_result s = Some (Ok ()) \<and> cn_read s = [] \<and> cn_dropped s = [] \<and> (\<forall>i. cy_threads (cn_client s) i = TFree)
   \<and> settled (cy_writer (cn_client s)) \<and> ws_accepted (cy_writer (cn_client s)) = [sample_answer]
   \<and> ws_wire (cy_writer (cn_client s)) = batch_bytes [sample_answer]"
proof -
  from sample_session obtain client out hp where
    st: "ClientBuilder_start 1 sample_peer sample_builder [] [] () [] (\<lambda>_. 5) = (Some (Ok client), (), out, hp)"
    and cl: "cl_registry client = sample_reg" "wh_max_pending (cl_writer client) = DEFAULT_MAX_PENDING_FRAMES"
      "ad_buffer (cl_connection client) = FrameBuffer_with_max_payload 100" "ad_frames (cl_connection client) = [sample_frame]"
      "ad_reads (cl_connection client) = [Read []]"
    by blast
  have "0 < wh_max_pending (cl_writer client)" by (simp add: cl DEFAULT_MAX_PENDING_FRAMES_def)
  moreover have "0 < unat (cb_max_concurrent_handlers sample_builder)"
    by (simp add: sample_builder_sel DEFAULT_MAX_CONCURRENT_HANDLERS_def)
  ultimately show ?thesis
    using st cl conn_sample_run [of "cl_writer client" _ "FrameBuffer_with_max_payload 100"]
      started_connection(1) [OF sample_builder_sel(1) st] by metis
qed

lemma sample_answer_fits:
  assumes "ws_accepted (cy_writer (cn_client s)) = [sample_answer]"
    and "ws_wire (cy_writer (cn_client s)) = batch_bytes [sample_answer]"
  shows "\<forall>f \<in> set (ws_accepted (cy_writer (cn_client s))). fst (out_ids f) \<noteq> 0 \<and> length (of_payload f) \<le> unat (100 :: u32)
      \<and> length (of_payload f) \<le> unat ABSOLUTE_MAX_PAYLOAD_SIZE"
    and "concat [batch_bytes [sample_answer]] = ws_wire (cy_writer (cn_client s))"
  by (simp_all add: assms out_ids_def OutboundFrame_new_def Header_new_def)

theorem connection_answers_requests_witness:
  "\<exists>fs fb (gs :: Frame list). feed push (FrameBuffer_with_max_payload 100) [batch_bytes [sample_answer]] = (fs, None, fb)
     \<and> (\<forall>ids. answers_read ids fs \<le> requests ids (filter request_frame gs))"
proof -
  from sample_connection obtain client out hp s where
    st: "ClientBuilder_start 1 sample_peer sample_builder [] [] () [] (\<lambda>_. 5) = (Some (Ok client), (), out, hp)"
    and pend: "wh_max_pending (cl_writer client) = DEFAULT_MAX_PENDING_FRAMES"
    and run: "(smooth_step sample_codec (cl_registry client) (cl_writer client) 8 2)\<^sup>*\<^sup>* (adopted_connection client) s"
    and wr: "ws_accepted (cy_writer (cn_client s)) = [sample_answer]"
      "ws_wire (cy_writer (cn_client s)) = batch_bytes [sample_answer]" by blast
  have room: "unat (wh_max_pending (cl_writer client)) + 2 < 2 ^ 64" by (simp add: pend DEFAULT_MAX_PENDING_FRAMES_def)
  from connection_answers_requests [OF sample_builder_sel(1) st smooth_steps [OF run] room sample_answer_fits [OF wr]]
  show ?thesis by blast
qed

text \<open>C1. Every request that gets a permit is answered exactly once. Take a client started with a token whose
  handlers never return \<open>Ok\<close> before a terminal operation, and a run of its connection, in any
  interleaving, in which the writer task lives, no terminal operation that has claimed its request
  fails and no handler panics. Let the parent have closed the connection, all tasks have ended and
  the writer task have nothing left to write; let the ids of the frames the channel accepted be not
  0, their payloads fit the parent's limit and the protocol's, and the maximum of the counter leave
  room for the tasks. Then the bytes read are an AUTH frame with the token, whole frames and at most
  the beginning of one more, and the parent's parser returns from the bytes written, for every pair
  of ids, exactly as many terminal responses as there are requests with these ids, less those that
  found all permits out and were dropped; and none was dropped unless there were more requests than
  permits. Requests that were aborted are answered like the others.\<close>

theorem requests_answered_exactly_once:
  assumes "effective_token (sw_env W) b = Some token"
    and "ClientBuilder_start k W b methods events fs0 out hp = (Some (Ok client), fs', out', hp')"
    and "(smooth_step C (cl_registry client) (cl_writer client) cap n)\<^sup>*\<^sup>* (adopted_connection client) s"
    and "unat (wh_max_pending (cl_writer client)) + n < 2 ^ 64"
    and "\<forall>f \<in> set (ws_accepted (cy_writer (cn_client s))). fst (out_ids f) \<noteq> 0 \<and> length (of_payload f) \<le> unat m
      \<and> length (of_payload f) \<le> unat ABSOLUTE_MAX_PAYLOAD_SIZE"
    and "concat chunks = ws_wire (cy_writer (cn_client s))"
    and "responsible_registry (cl_registry client)" and "cn_result s = Some (Ok ())"
    and "\<forall>i. cy_threads (cn_client s) i = TFree" and "settled (cy_writer (cn_client s))"
  shows "\<exists>c past first gs r fs. sw_reads W c = map Read past @ ad_reads (cl_connection client)
    \<and> parse_all (cb_max_payload_size b) (concat past @ cn_read s) = (first # gs, None, r)
    \<and> method_id (header first) = AUTH_METHOD_ID \<and> payload first = str_bytes token
    \<and> feed push (FrameBuffer_with_max_payload m) chunks = (fs, None, FrameBuffer_with_max_payload m)
    \<and> (\<forall>ids. answers_read ids fs + requests ids (cn_dropped s) = requests ids (filter request_frame gs))
    \<and> (cn_dropped s \<noteq> [] \<longrightarrow> unat (cb_max_concurrent_handlers b) < length (filter request_frame gs))"
proof -
  let ?v = "cy_writer (cn_client s)"
  note start = started_connection [OF assms(1,2)] and run = smooth_steps [OF assms(3)]
  note run' = run [unfolded start(1)]
  note reach = conn_reachable [OF run']
  have "fst (snd (parse_all (max_payload_size (ad_buffer (cl_connection client)))
      (unread (ad_buffer (cl_connection client)) @ cn_read s))) = None"
    using started_calls(3) [OF start(3) run' assms(8)] .
  with start(4) [of "cn_read s"] obtain c past first gs r where
    c: "sw_reads W c = map Read past @ ad_reads (cl_connection client)"
      "parse_all (cb_max_payload_size b) (concat past @ cn_read s) = (first # gs, None, r)"
      "method_id (header first) = AUTH_METHOD_ID" "payload first = str_bytes token"
    and calls: "calls (ad_buffer (cl_connection client)) (ad_frames (cl_connection client)) (cn_read s) = filter request_frame gs"
    by auto
  obtain fs where fs: "map outbound_of fs = ws_accepted ?v" "list_all (frame_ok m) fs"
    and "\<forall>f \<in> set fs. Frame_is_event f \<or> Frame_is_response f \<and> (\<exists>req \<in> set (ds_started (cy_disp (cn_client s))).
      Frame_method_id f = Frame_method_id req \<and> Frame_request_id f = Frame_request_id req)"
    and reads: "\<forall>ids. answers_read ids fs = answers_in ids (ws_accepted ?v)"
    and "\<forall>ids. answers_read ids fs \<le> requests ids (ds_started (cy_disp (cn_client s)))"
    by (rule accepted_view [OF reach assms(5)])
  have "(writer_step (wh_max_pending (cl_writer client)) cap n)\<^sup>*\<^sup>* writer_init ?v"
    using crash_steps_writer [OF reach] by (simp add: client_init_def)
  from settled_writer(3) [OF this assms(4,10)] have "concat chunks = concat (map frame_bytes fs)"
    using assms(6) fs(1) by (simp flip: batch_bytes_outbound_of)
  note feed = peer_feed_all [OF fs(2) this]
  have "answers_read ids fs + requests ids (cn_dropped s) = requests ids (filter request_frame gs)" for ids
    using reads calls_answered [OF start(3) assms(3) [unfolded start(1)] assms(7-9), of ids] calls by metis
  moreover have "cn_dropped s \<noteq> [] \<longrightarrow> unat (cb_max_concurrent_handlers b) < length (filter request_frame gs)"
    using started_calls(4) [OF start(3) run'] calls by metis
  ultimately show ?thesis using c feed by blast
qed

theorem requests_answered_exactly_once_witness:
  "\<exists>fs fb. feed push (FrameBuffer_with_max_payload 100) [batch_bytes [sample_answer]] = (fs, None, fb)
     \<and> answers_read (1, 42) fs = 1"
proof -
  from sample_connection obtain client out hp s where
    st: "ClientBuilder_start 1 sample_peer sample_builder [] [] () [] (\<lambda>_. 5) = (Some (Ok client), (), out, hp)"
    and reg: "cl_registry client = sample_reg" and pend: "wh_max_pending (cl_writer client) = DEFAULT_MAX_PENDING_FRAMES"
    and rd: "ad_reads (cl_connection client) = [Read []]"
    and run: "(smooth_step sample_codec (cl_registry client) (cl_writer client) 8 2)\<^sup>*\<^sup>* (adopted_connection client) s"
    and fin: "cn_result s = Some (Ok ())" "cn_read s = []" "cn_dropped s = []" "\<forall>i. cy_threads (cn_client s) i = TFree"
      "settled (cy_writer (cn_client s))"
    and wr: "ws_accepted (cy_writer (cn_client s)) = [sample_answer]"
      "ws_wire (cy_writer (cn_client s)) = batch_bytes [sample_answer]" by blast
  have room: "unat (wh_max_pending (cl_writer client)) + 2 < 2 ^ 64" by (simp add: pend DEFAULT_MAX_PENDING_FRAMES_def)
  have resp: "responsible_registry (cl_registry client)"
    by (simp add: reg responsible_registry_def get_handler_by_id_def HandlerRegistry_new_def)
  from requests_answered_exactly_once [OF sample_builder_sel(1) st run room sample_answer_fits [OF wr] resp fin(1,4,5)]
  obtain c past first gs r fs where
    reads: "sw_reads sample_peer c = map Read past @ ad_reads (cl_connection client)"
    and parse: "parse_all (cb_max_payload_size sample_builder) (concat past @ cn_read s) = (first # gs, None, r)"
    and fs: "feed push (FrameBuffer_with_max_payload 100) [batch_bytes [sample_answer]]
      = (fs, None, FrameBuffer_with_max_payload 100)"
    and eq: "\<forall>ids. answers_read ids fs + requests ids (cn_dropped s) = requests ids (filter request_frame gs)" by blast
  have "gs = [sample_frame]" using sample_peer_frames [OF reads rd] parse by (simp add: fin(2))
  then have "requests (1, 42) (filter request_frame gs) = 1"
    by (simp add: requests_def request_frame_def Header_new_def ABORT_METHOD_ID_def AUTH_METHOD_ID_def Header_is_response_def)
  then have "answers_read (1, 42) fs = 1" using spec [OF eq, of "(1, 42)"] by (simp add: fin(3) requests_def)
  with fs show ?thesis by blast
qed

text \<open>The handlers of the three example workers answer every request or fail, so what holds of
  responsible registries holds of them.\<close>

lemma responsible_single:
  assumes "register oc name rt (typed de h) HandlerRegistry_new = Ok reg" and "\<And>t ctx. responsible (h t ctx)"
  shows "responsible_registry reg"
  using assms(1)
  by (auto simp: responsible_registry_def get_handler_by_id_def register_def u16_inc_def Let_def HandlerRegistry_new_def
      TypedHandler_new_def typed_def assms(2) split: if_splits option.splits sum.splits)

lemma responsible_generate: "responsible (generate_from ser is)"
  by (induction "is") (auto simp: try_op_def split: sum.split)

lemma workers_responsible:
  "echo_builder oc de ser = Ok b \<Longrightarrow> responsible_registry (cb_registry b)"
  "stream_builder oc de' ser' = Ok b \<Longrightarrow> responsible_registry (cb_registry b)"
  "events_builder oc de'' = Ok b \<Longrightarrow> responsible_registry (cb_registry b)"
  subgoal
    by (auto simp: echo_builder_def builder_handle_def Client_builder_def ClientBuilder_new_def and_then_eq_Inr
      echo_handler_def elim!: responsible_single)
  subgoal
    by (auto simp: stream_builder_def builder_handle_stream_def Client_builder_def ClientBuilder_new_def and_then_eq_Inr
      generate_handler_def responsible_generate elim!: responsible_single)
  subgoal premises prems
  proof -
    from prems obtain reg where "register oc ''start_work'' RAck (typed de'' start_work_handler) HandlerRegistry_new = Ok reg"
      and "reg_methods (cb_registry b) = reg_methods reg" "id_to_name (cb_registry b) = id_to_name reg"
      by (auto simp: events_builder_def builder_handle_ack_def builder_event_def register_event_def Client_builder_def
        ClientBuilder_new_def and_then_eq_Inr Let_def)
    moreover have "responsible_registry reg"
      using calculation(1) by (rule responsible_single) (simp add: start_work_handler_def try_op_def)
    ultimately show ?thesis by (simp add: responsible_registry_def get_handler_by_id_def)
  qed
  done

text \<open>C31. The client can always be shut down: \<open>wait_for_shutdown\<close> returns once the parent has sent
  \<open>$shutdown\<close> on standard input, or once the data plane has delivered its end of file or a read
  error, whatever the peer sent before and whatever else the control plane carries.\<close>

theorem shutdown_returns:
  assumes "(stdout_works H \<and> parse_control_line from_str l = Shutdown
      \<and> list_all (is_served from_str) pre \<and> controls = pre @ Line l # post)
    \<or> (\<exists>x \<in> set reads. x = Read [] \<or> (\<exists>e. x = ReadFail e))"
    and "sg_cancelled sg (cl_shutdown_token self) = ro_cancelled (run_control_reader from_str H controls False out)"
  shows "wait_for_shutdown self (read_task_end (cl_shutdown_rx self)
      (fst (read_loop disp reads fb initial s)) sg) = Some (Ok ())"
  using assms(1)
proof
  assume "stdout_works H \<and> parse_control_line from_str l = Shutdown
      \<and> list_all (is_served from_str) pre \<and> controls = pre @ Line l # post"
  with control_reader_cancels [of H from_str l pre post False out] assms(2) show ?thesis
    by (simp add: wait_for_shutdown_def read_task_end_def split: option.split)
next
  assume "\<exists>x \<in> set reads. x = Read [] \<or> (\<exists>e. x = ReadFail e)"
  from read_loop_from_returns [OF this, of disp fb "fold disp initial s"] show ?thesis
    by (auto simp: wait_for_shutdown_def read_task_end_def read_loop_def)
qed

theorem shutdown_returns_witness:
  "wait_for_shutdown sample_client (read_task_end 0 (fst (read_loop (\<lambda>f n. Suc n) [Read [1], Read []]
       (FrameBuffer_with_max_payload 100) [] (0 :: nat)))
     \<lparr>sg_fired = (\<lambda>_. False),
      sg_cancelled = (\<lambda>_. ro_cancelled (run_control_reader sample_from_str sample_stdout [] False []))\<rparr>)
   = Some (Ok ())"
proof -
  let ?sg = "\<lparr>sg_fired = (\<lambda>_. False),
      sg_cancelled = (\<lambda>_. ro_cancelled (run_control_reader sample_from_str sample_stdout [] False []))\<rparr>"
  have "sg_cancelled ?sg (cl_shutdown_token sample_client)
      = ro_cancelled (run_control_reader sample_from_str sample_stdout [] False [])" by simp
  from shutdown_returns [OF _ this, where reads = "[Read [1], Read []]"] show ?thesis by simp
qed

end
